(* ===== verification/Prelude.thy ===== *)
theory Prelude
  imports Main "HOL-Library.Word" "HOL-Library.Char_ord"
    "HOL-Library.List_Lexorder" "HOL-Library.Multiset"
begin

text \<open>
  Shared base of the development: the model's names for Go's basic types, Go's \<open>error\<close>
  values, time instants and durations, and the generic lemmas the components share.

  A Go \<open>string\<close> or \<open>[]byte\<close> is a list of bytes, \<^typ>\<open>string\<close> of HOL (its
  characters are 8-bit). A Go \<open>uint64\<close> is a \<^typ>\<open>64 word\<close>; a Go \<open>int\<close> or
  \<open>int64\<close> that the code only reads, stores and compares is an \<^typ>\<open>int\<close> that the
  parser has range-checked.
\<close>

section \<open>Basic types\<close>

type_synonym u64 = "64 word"

text \<open>
  Two collections of rewrite rules: \<open>string_facts\<close> about the byte-string operations and
  \<open>time_facts\<close> about durations and the freshness test of the caches.
\<close>

named_theorems string_facts
named_theorems time_facts

section \<open>Errors\<close>

text \<open>
  The error values of the program, by how they are built: \<open>errors.New\<close> and
  \<open>fmt.Errorf\<close> without \<open>%w\<close> give \<open>NewError\<close>; an error that reaches the code from
  outside (a system call, a command, a socket) is \<open>External\<close>, whose flag tells whether
  \<open>errors.Is(err, os.ErrNotExist)\<close> holds; \<open>strconv\<close> builds \<open>NumError\<close> from the
  function's name, the input and the reason; \<open>fmt.Errorf("pre: %w", err)\<close> is
  \<open>Wrap\<close>; \<open>fmt.Errorf("%w; mid: %v", err, err2)\<close> is \<open>WrapV\<close> (it unwraps to
  \<open>err\<close> only); \<open>Flat\<close> is an error whose text joins tagged error texts by
  \<open>"; "\<close>, with nothing to unwrap.
\<close>

datatype num_err = ErrSyntax | ErrRange

datatype go_error =
    NewError string
  | External bool string
  | NumError string string num_err
  | Wrap string go_error
  | WrapV go_error string go_error
  | Flat "(string \<times> go_error) list"

fun join_with :: "string \<Rightarrow> string list \<Rightarrow> string" where
  "join_with sep [] = []"
| "join_with sep [x] = x"
| "join_with sep (x # y # ys) = x @ sep @ join_with sep (y # ys)"

fun num_err_text :: "num_err \<Rightarrow> string" where
  "num_err_text ErrSyntax = ''invalid syntax''"
| "num_err_text ErrRange = ''value out of range''"

text \<open>
  \<open>err.Error()\<close>. The argument \<open>quote\<close> is \<open>strconv.Quote\<close>, whose table of
  printable code points is not modelled.
\<close>

fun err_text :: "(string \<Rightarrow> string) \<Rightarrow> go_error \<Rightarrow> string" where
  "err_text quote (NewError s) = s"
| "err_text quote (External ne s) = s"
| "err_text quote (NumError f inp r) =
     ''strconv.'' @ f @ '': parsing '' @ quote inp @ '': '' @ num_err_text r"
| "err_text quote (Wrap pre e) = pre @ err_text quote e"
| "err_text quote (WrapV e mid e2) = err_text quote e @ mid @ err_text quote e2"
| "err_text quote (Flat es) =
     join_with ''; '' (map (\<lambda>(tag, e). tag @ '': '' @ err_text quote e) es)"

text \<open>\<open>errors.Is(err, target)\<close> for a comparable target, and for \<open>os.ErrNotExist\<close>.\<close>

fun errors_is :: "go_error \<Rightarrow> go_error \<Rightarrow> bool" where
  "errors_is (Wrap pre e) t \<longleftrightarrow> Wrap pre e = t \<or> errors_is e t"
| "errors_is (WrapV e mid e2) t \<longleftrightarrow> WrapV e mid e2 = t \<or> errors_is e t"
| "errors_is e t \<longleftrightarrow> e = t"

fun is_not_exist :: "go_error \<Rightarrow> bool" where
  "is_not_exist (External ne s) \<longleftrightarrow> ne"
| "is_not_exist (Wrap pre e) \<longleftrightarrow> is_not_exist e"
| "is_not_exist (WrapV e mid e2) \<longleftrightarrow> is_not_exist e"
| "is_not_exist e \<longleftrightarrow> False"

lemma errors_is_refl [simp]: "errors_is e e"
  by (cases e) auto

lemma errors_is_Wrap [simp]: "errors_is (Wrap pre e) e"
  by simp

section \<open>Time\<close>

text \<open>
  An instant (\<open>time.Time\<close>) is its distance in nanoseconds from the zero \<open>Time\<close>, so an
  uninitialised \<open>Time\<close> field is \<open>0\<close>. A \<open>time.Duration\<close> is an \<open>int64\<close> number of
  nanoseconds, and \<open>Time.Sub\<close> saturates at its bounds.
\<close>

type_synonym time = int
type_synonym duration = int

definition min_duration :: duration where
  "min_duration = - (2 ^ 63)"

definition max_duration :: duration where
  "max_duration = 2 ^ 63 - 1"

definition second :: duration where
  "second = 1000000000"

definition time_sub :: "time \<Rightarrow> time \<Rightarrow> duration" where
  "time_sub t u = max min_duration (min max_duration (t - u))"

definition time_add :: "time \<Rightarrow> duration \<Rightarrow> time" where
  "time_add t d = t + d"

definition time_after :: "time \<Rightarrow> time \<Rightarrow> bool" where
  "time_after t u \<longleftrightarrow> u < t"

lemmas duration_defs = min_duration_def max_duration_def second_def

text \<open>A duration is an \<open>int64\<close>.\<close>

definition is_duration :: "int \<Rightarrow> bool" where
  "is_duration d \<longleftrightarrow> min_duration \<le> d \<and> d \<le> max_duration"

lemma is_duration_time_sub [simp]: "is_duration (time_sub t u)"
  by (simp add: is_duration_def time_sub_def duration_defs)

lemma time_sub_self [simp]: "time_sub t t = 0"
  by (simp add: time_sub_def duration_defs)

text \<open>Against a representable duration the saturation never changes the comparison.\<close>

lemma time_sub_less_iff [time_facts]:
  assumes "is_duration d"
  shows "time_sub t u < d \<longleftrightarrow> min_duration < d \<and> t - u < d"
  using assms by (auto simp: is_duration_def time_sub_def duration_defs)

lemma time_sub_ge_iff [time_facts]:
  assumes "is_duration d" and "min_duration < d"
  shows "d \<le> time_sub t u \<longleftrightarrow> d \<le> t - u"
  using time_sub_less_iff [OF assms(1), of t u] assms(2) by linarith

lemma time_sub_mono: "t \<le> t' \<Longrightarrow> time_sub t u \<le> time_sub t' u"
  by (auto simp: time_sub_def)

lemma time_sub_pos_iff [time_facts]: "0 < time_sub t u \<longleftrightarrow> u < t"
  by (auto simp: time_sub_def duration_defs)

section \<open>Generic lemmas\<close>

lemma sorted_key_unique:
  assumes "mset xs = mset ys" and "sorted (map f xs)" and "sorted (map f ys)"
    and "distinct (map f xs)"
  shows "xs = ys"
proof -
  have "set xs = set ys"
    using assms(1) by (rule mset_eq_setD)
  moreover have "distinct (map f ys)"
    using assms(1,4) by (metis mset_eq_imp_distinct_iff mset_map)
  moreover have "inj_on f (set xs)"
    using assms(4) by (simp add: distinct_map)
  ultimately show ?thesis
    using assms(2-4) by (auto intro: map_sorted_distinct_set_unique)
qed

text \<open>Filling a map for each key of a list.\<close>

lemma fold_upd: "fold (\<lambda>k m. m(k \<mapsto> f k)) ks m = (\<lambda>k. if k \<in> set ks then Some (f k) else m k)"
  by (induction ks arbitrary: m) auto

lemma fold_upd_pairs: "fold (\<lambda>x m. m(f x \<mapsto> g x)) xs m = m ++ map_of (rev (map (\<lambda>x. (f x, g x)) xs))"
  by (induction xs arbitrary: m) (auto simp: map_add_def fun_eq_iff split: option.splits)

end
