(* ===== verification/Go_Strings.thy ===== *)
theory Go_Strings
  imports Prelude
begin

text \<open>
  The functions of Go's \<open>strings\<close>, \<open>bytes\<close> and \<open>bufio\<close> packages that the
  parsers of the program call, on byte strings: prefix and substring tests,
  \<open>IndexByte\<close>, \<open>TrimSpace\<close>, \<open>Fields\<close>, \<open>ToLower\<close>, and the lines a
  \<open>bufio.Scanner\<close> delivers under its token limit. White space is Unicode's: the six
  ASCII characters and the multi-byte encodings that \<open>unicode.IsSpace\<close> accepts.
\<close>

section \<open>Prefixes, indices, substrings\<close>

definition has_prefix :: "string \<Rightarrow> string \<Rightarrow> bool" where
  "has_prefix s p \<longleftrightarrow> length p \<le> length s \<and> take (length p) s = p"

definition trim_prefix :: "string \<Rightarrow> string \<Rightarrow> string" where
  "trim_prefix s p = (if has_prefix s p then drop (length p) s else s)"

text \<open>\<open>None\<close> is Go's \<open>-1\<close>.\<close>

fun index_byte :: "string \<Rightarrow> char \<Rightarrow> nat option" where
  "index_byte [] c = None"
| "index_byte (x # xs) c = (if x = c then Some 0 else map_option Suc (index_byte xs c))"

fun contains :: "string \<Rightarrow> string \<Rightarrow> bool" where
  "contains [] sub \<longleftrightarrow> sub = []"
| "contains (x # xs) sub \<longleftrightarrow> has_prefix (x # xs) sub \<or> contains xs sub"

lemma has_prefix_append [simp]: "has_prefix (p @ s) p"
  by (simp add: has_prefix_def)

lemma has_prefix_iff: "has_prefix s p \<longleftrightarrow> (\<exists>t. s = p @ t)"
  by (metis append_take_drop_id has_prefix_append has_prefix_def)

lemma trim_prefix_append [simp]: "trim_prefix (p @ s) p = s"
  by (simp add: trim_prefix_def)

lemma index_byte_None: "index_byte s c = None \<longleftrightarrow> c \<notin> set s"
  by (induction s) auto

lemma index_byte_Some:
  "index_byte s c = Some i \<longleftrightarrow> i < length s \<and> s ! i = c \<and> c \<notin> set (take i s)"
proof (induction s arbitrary: i)
  case Nil
  then show ?case by simp
next
  case (Cons x xs)
  then show ?case by (cases i) auto
qed

lemma index_byte_append [simp]: "c \<notin> set k \<Longrightarrow> index_byte (k @ c # v) c = Some (length k)"
  by (induction k) auto

lemma contains_iff: "contains s sub \<longleftrightarrow> (\<exists>a b. s = a @ sub @ b)"
proof (induction s)
  case Nil
  then show ?case by auto
next
  case (Cons x xs)
  have "has_prefix (x # xs) sub \<or> (\<exists>a b. xs = a @ sub @ b) \<longleftrightarrow> (\<exists>a b. x # xs = a @ sub @ b)"
    by (auto simp: has_prefix_iff Cons_eq_append_conv)
  with Cons show ?case by simp
qed

section \<open>White space\<close>

definition is_ascii :: "char \<Rightarrow> bool" where
  "is_ascii c \<longleftrightarrow> of_char c < (128 :: int)"

definition ascii_space :: "char \<Rightarrow> bool" where
  "ascii_space c \<longleftrightarrow> c = CHR '' '' \<or> c = CHR 0x0A \<or> c = CHR 0x09 \<or> c = CHR 0x0D \<or>
     c = CHR 0x0B \<or> c = CHR 0x0C"

text \<open>
  The UTF-8 encodings of the non-ASCII code points with \<open>unicode.IsSpace\<close>: U+0085,
  U+00A0, U+1680, U+2000 to U+200A, U+2028, U+2029, U+202F, U+205F, U+3000. Each starts
  with a lead byte, which is never a continuation byte, so looking for one of them at
  every byte finds the same white space as decoding rune by rune.
\<close>

definition multi_spaces :: "string list" where
  "multi_spaces =
     [[CHR 0xC2, CHR 0x85], [CHR 0xC2, CHR 0xA0], [CHR 0xE1, CHR 0x9A, CHR 0x80],
      [CHR 0xE2, CHR 0x80, CHR 0x80], [CHR 0xE2, CHR 0x80, CHR 0x81],
      [CHR 0xE2, CHR 0x80, CHR 0x82], [CHR 0xE2, CHR 0x80, CHR 0x83],
      [CHR 0xE2, CHR 0x80, CHR 0x84], [CHR 0xE2, CHR 0x80, CHR 0x85],
      [CHR 0xE2, CHR 0x80, CHR 0x86], [CHR 0xE2, CHR 0x80, CHR 0x87],
      [CHR 0xE2, CHR 0x80, CHR 0x88], [CHR 0xE2, CHR 0x80, CHR 0x89],
      [CHR 0xE2, CHR 0x80, CHR 0x8A], [CHR 0xE2, CHR 0x80, CHR 0xA8],
      [CHR 0xE2, CHR 0x80, CHR 0xA9], [CHR 0xE2, CHR 0x80, CHR 0xAF],
      [CHR 0xE2, CHR 0x81, CHR 0x9F], [CHR 0xE3, CHR 0x80, CHR 0x80]]"

text \<open>
  The length of the white-space rune at the start of a string, \<open>0\<close> if none is there;
  \<open>space_len_rev\<close> is the same at the end of a string that is given reversed.
\<close>

definition wide_space_len :: "(string \<Rightarrow> string) \<Rightarrow> string \<Rightarrow> nat" where
  "wide_space_len g s =
     (case find (\<lambda>r. has_prefix s (g r)) multi_spaces of None \<Rightarrow> 0 | Some r \<Rightarrow> length r)"

fun space_len :: "string \<Rightarrow> nat" where
  "space_len [] = 0"
| "space_len (c # s) =
     (if ascii_space c then 1 else if is_ascii c then 0
      else wide_space_len (\<lambda>r. r) (c # s))"

fun space_len_rev :: "string \<Rightarrow> nat" where
  "space_len_rev [] = 0"
| "space_len_rev (c # s) =
     (if ascii_space c then 1 else if is_ascii c then 0
      else wide_space_len rev (c # s))"

function strip_by :: "(string \<Rightarrow> nat) \<Rightarrow> string \<Rightarrow> string" where
  "strip_by f s = (if f s = 0 \<or> s = [] then s else strip_by f (drop (f s) s))"
  by pat_completeness auto
termination
  by (relation "measure (\<lambda>(f, s). length s)") auto

declare strip_by.simps [simp del]

definition trim_left :: "string \<Rightarrow> string" where
  "trim_left s = strip_by space_len s"

definition trim_right :: "string \<Rightarrow> string" where
  "trim_right s = rev (strip_by space_len_rev (rev s))"

definition trim_space :: "string \<Rightarrow> string" where
  "trim_space s = trim_right (trim_left s)"

text \<open>
  \<open>strings.Fields\<close>: the maximal runs without white space. The accumulator holds the
  current run, reversed.
\<close>

definition emit :: "string \<Rightarrow> string list" where
  "emit cur = (if cur = [] then [] else [rev cur])"

function fields_acc :: "string \<Rightarrow> string \<Rightarrow> string list" where
  "fields_acc cur [] = emit cur"
| "fields_acc cur (c # s) =
     (if space_len (c # s) = 0 then fields_acc (c # cur) s
      else emit cur @ fields_acc [] (drop (space_len (c # s)) (c # s)))"
  by pat_completeness auto
termination
  by (relation "measure (\<lambda>(cur, s). length s)") (auto simp del: space_len.simps)

definition str_fields :: "string \<Rightarrow> string list" where
  "str_fields s = fields_acc [] s"

section \<open>Letter case\<close>

definition lower_byte :: "char \<Rightarrow> char" where
  "lower_byte c = (if 65 \<le> (of_char c :: int) \<and> (of_char c :: int) \<le> 90
     then char_of ((of_char c :: int) + 32) else c)"

text \<open>
  \<open>strings.ToLower\<close>. On a string with a byte of 128 or more it maps code points by
  Unicode's case table, which is the argument \<open>uni\<close>.
\<close>

definition to_lower :: "(string \<Rightarrow> string) \<Rightarrow> string \<Rightarrow> string" where
  "to_lower uni s = (if list_all is_ascii s then map lower_byte s else uni s)"

section \<open>Lines\<close>

definition newline :: char where
  "newline = CHR 0x0A"

text \<open>\<open>bufio.ScanLines\<close> drops one carriage return before the newline.\<close>

definition drop_cr :: "string \<Rightarrow> string" where
  "drop_cr s = (if s \<noteq> [] \<and> last s = CHR 0x0D then butlast s else s)"

text \<open>
  The tokens of \<open>bufio.NewScanner\<close> with a buffer limit of \<open>lim\<close> bytes. A line whose
  bytes before the newline (or the end of the input) number \<open>lim\<close> or more fills the
  buffer before its end is seen: \<open>Scan\<close> then returns false for good, with
  \<open>ErrTooLong\<close>, which none of the callers looks at. An empty last line is no token.
\<close>

function scan_lines :: "nat \<Rightarrow> string \<Rightarrow> string list" where
  "scan_lines lim s =
     (if s = [] then []
      else let l = takeWhile (\<lambda>c. c \<noteq> newline) s in
        if lim \<le> length l then []
        else drop_cr l # scan_lines lim (drop (Suc (length l)) s))"
  by pat_completeness auto
termination
  by (relation "measure (\<lambda>(lim, s). length s)") auto

declare scan_lines.simps [simp del]

text \<open>The default limit, \<open>bufio.MaxScanTokenSize\<close>, and the one two parsers set.\<close>

definition default_token_limit :: nat where
  "default_token_limit = 64 * 1024"

definition large_token_limit :: nat where
  "large_token_limit = 1024 * 1024"


section \<open>Facts about white space\<close>

definition space_rune :: "string \<Rightarrow> bool" where
  "space_rune r \<longleftrightarrow> (\<exists>c. r = [c] \<and> ascii_space c) \<or> r \<in> set multi_spaces"

lemma ascii_space_is_ascii: "ascii_space c \<Longrightarrow> is_ascii c"
  by (auto simp: ascii_space_def is_ascii_def)

lemma multi_spaces_bytes: "\<forall>r \<in> set multi_spaces. r \<noteq> [] \<and> list_all (\<lambda>c. \<not> is_ascii c) r"
  by (simp add: multi_spaces_def is_ascii_def)

lemma multi_spaces_nonempty: "r \<in> set multi_spaces \<Longrightarrow> r \<noteq> []"
  using multi_spaces_bytes by blast

lemma multi_spaces_hd: "r \<in> set multi_spaces \<Longrightarrow> r = c # t \<Longrightarrow> \<not> is_ascii c"
  using multi_spaces_bytes by fastforce

lemma multi_spaces_last: "r \<in> set multi_spaces \<Longrightarrow> rev r = c # t \<Longrightarrow> \<not> is_ascii c"
  using multi_spaces_bytes by (metis list.pred_set list.set_intros(1) set_rev)

lemma space_rune_nonempty: "space_rune r \<Longrightarrow> r \<noteq> []"
  by (auto simp: space_rune_def dest: multi_spaces_nonempty)

lemma wide_space_len_pos:
  "wide_space_len g s \<noteq> 0 \<longleftrightarrow> (\<exists>r \<in> set multi_spaces. has_prefix s (g r))"
proof (cases "find (\<lambda>r. has_prefix s (g r)) multi_spaces")
  case None
  then have "\<forall>r \<in> set multi_spaces. \<not> has_prefix s (g r)"
    by (simp add: find_None_iff)
  with None show ?thesis by (simp add: wide_space_len_def)
next
  case (Some r)
  then have "r \<in> set multi_spaces" "has_prefix s (g r)"
    by (auto simp: find_Some_iff)
  with Some show ?thesis
    using multi_spaces_nonempty [of r] by (auto simp: wide_space_len_def)
qed

lemma wide_space_len_take:
  assumes "wide_space_len (\<lambda>r. r) s \<noteq> 0"
  shows "take (wide_space_len (\<lambda>r. r) s) s \<in> set multi_spaces"
proof (cases "find (\<lambda>r. has_prefix s r) multi_spaces")
  case None
  with assms show ?thesis by (simp add: wide_space_len_def)
next
  case (Some r)
  then have "r \<in> set multi_spaces" "take (length r) s = r"
    by (auto simp: find_Some_iff has_prefix_def)
  with Some show ?thesis by (simp add: wide_space_len_def)
qed

lemma space_len_pos: "space_len s \<noteq> 0 \<longleftrightarrow> (\<exists>r t. space_rune r \<and> s = r @ t)"
proof (cases s)
  case Nil
  then show ?thesis by (auto dest: space_rune_nonempty)
next
  case (Cons c u)
  consider "ascii_space c" | "\<not> ascii_space c" "is_ascii c" | "\<not> is_ascii c"
    by blast
  then show ?thesis
  proof cases
    case 1
    then have "space_rune [c]" by (simp add: space_rune_def)
    with 1 Cons show ?thesis by simp (metis append_Cons append_Nil)
  next
    case 2
    with Cons show ?thesis
      by (auto simp: space_rune_def Cons_eq_append_conv dest: multi_spaces_hd multi_spaces_nonempty)
  next
    case 3
    then have "space_len s \<noteq> 0 \<longleftrightarrow> (\<exists>r \<in> set multi_spaces. \<exists>t. s = r @ t)"
      using Cons wide_space_len_pos [of "\<lambda>r. r" s]
      by (auto simp: has_prefix_iff dest: ascii_space_is_ascii)
    with 3 Cons show ?thesis
      by (auto simp: space_rune_def dest: ascii_space_is_ascii)
  qed
qed

lemma space_len_rev_pos: "space_len_rev s \<noteq> 0 \<longleftrightarrow> (\<exists>r t. space_rune r \<and> s = rev r @ t)"
proof (cases s)
  case Nil
  then show ?thesis by (auto dest: space_rune_nonempty)
next
  case (Cons c u)
  consider "ascii_space c" | "\<not> ascii_space c" "is_ascii c" | "\<not> is_ascii c"
    by blast
  then show ?thesis
  proof cases
    case 1
    then have "space_rune [c]" by (simp add: space_rune_def)
    with 1 Cons show ?thesis by simp (metis append_Cons append_Nil rev_singleton_conv)
  next
    case 2
    have "\<not> space_rune r" if "c # u = rev r @ t" for r t
      using that 2 by (cases "rev r") (auto simp: space_rune_def dest: multi_spaces_last multi_spaces_nonempty)
    with 2 Cons show ?thesis by auto
  next
    case 3
    then have "space_len_rev s \<noteq> 0 \<longleftrightarrow> (\<exists>r \<in> set multi_spaces. \<exists>t. s = rev r @ t)"
      using Cons wide_space_len_pos [of rev s]
      by (auto simp: has_prefix_iff dest: ascii_space_is_ascii)
    with 3 Cons show ?thesis
      by (auto simp: space_rune_def dest: ascii_space_is_ascii)
  qed
qed

lemma space_len_take: "space_len s \<noteq> 0 \<Longrightarrow> space_rune (take (space_len s) s)"
proof (cases s)
  case (Cons c u)
  assume "space_len s \<noteq> 0"
  with Cons show ?thesis
    using wide_space_len_take [of "c # u"] by (auto simp: space_rune_def split: if_splits)
qed simp

lemma space_len_append_0: "space_len (s @ t) = 0 \<Longrightarrow> space_len s = 0"
  using space_len_pos [of s] space_len_pos [of "s @ t"] by auto

section \<open>Facts about trimming and fields\<close>

lemma strip_by_stops: "f (strip_by f s) = 0 \<or> strip_by f s = []"
  by (induction f s rule: strip_by.induct) (subst (1 2) strip_by.simps, auto simp: strip_by.simps)

lemma strip_by_suffix: "\<exists>p. s = p @ strip_by f s"
proof (induction f s rule: strip_by.induct)
  case (1 f s)
  show ?case
  proof (cases "f s = 0 \<or> s = []")
    case True
    then show ?thesis by (simp add: strip_by.simps)
  next
    case False
    with 1 obtain p where "drop (f s) s = p @ strip_by f (drop (f s) s)" by blast
    with False show ?thesis
      by (metis append_assoc append_take_drop_id strip_by.simps)
  qed
qed

lemma strip_by_id: "f s = 0 \<Longrightarrow> strip_by f s = s"
  by (subst strip_by.simps) simp

lemma trim_space_id [string_facts]:
  "space_len s = 0 \<Longrightarrow> space_len_rev (rev s) = 0 \<Longrightarrow> trim_space s = s"
  by (simp add: trim_space_def trim_left_def trim_right_def strip_by_id)

lemma trim_right_prefix: "\<exists>t. s = trim_right s @ t"
  using strip_by_suffix [of "rev s" space_len_rev] unfolding trim_right_def
  by (metis rev_append rev_rev_ident)

text \<open>A trimmed string has no white space at either end, so trimming it again changes nothing.\<close>

lemma space_len_trim_space: "space_len (trim_space s) = 0"
proof -
  have "space_len (trim_left s) = 0"
    using strip_by_stops [of space_len s] by (auto simp: trim_left_def)
  then show ?thesis
    using trim_right_prefix [of "trim_left s"] space_len_append_0
    unfolding trim_space_def by metis
qed

lemma space_len_rev_trim_space: "space_len_rev (rev (trim_space s)) = 0"
  using strip_by_stops [of space_len_rev "rev (trim_left s)"]
  by (auto simp: trim_space_def trim_right_def)

lemma trim_space_idem [simp]: "trim_space (trim_space s) = trim_space s"
  by (rule trim_space_id [OF space_len_trim_space space_len_rev_trim_space])

text \<open>A string has no field exactly when it consists of white space.\<close>

lemma fields_acc_nonempty: "cur \<noteq> [] \<Longrightarrow> fields_acc cur s \<noteq> []"
  by (induction cur s rule: fields_acc.induct) (auto simp: emit_def simp del: space_len.simps)

lemma fields_Nil_ends_in_space: "str_fields s = [] \<Longrightarrow> s \<noteq> [] \<Longrightarrow> space_len_rev (rev s) \<noteq> 0"
proof (induction "length s" arbitrary: s rule: less_induct)
  case less
  obtain c u where s: "s = c # u"
    using less.prems(2) by (cases s) auto
  have pos: "space_len s \<noteq> 0"
    using less.prems(1) fields_acc_nonempty [of "[c]" u]
    by (auto simp: s str_fields_def simp del: space_len.simps split: if_splits)
  let ?r = "take (space_len s) s" and ?t = "drop (space_len s) s"
  have rune: "space_rune ?r" by (rule space_len_take [OF pos])
  have rest: "str_fields ?t = []"
    using less.prems(1) pos by (simp add: s str_fields_def emit_def del: space_len.simps)
  show ?case
  proof (cases "?t = []")
    case True
    then have "rev s = rev ?r @ []" by simp
    with rune show ?thesis using space_len_rev_pos [of "rev s"] by blast
  next
    case False
    have "length ?t < length s" using pos less.prems(2) by auto
    from less.hyps [OF this rest False]
    obtain r v where "space_rune r" "rev ?t = rev r @ v"
      using space_len_rev_pos [of "rev ?t"] by auto
    then have "rev s = rev r @ v @ rev ?r"
      by (metis append_assoc append_take_drop_id rev_append)
    with \<open>space_rune r\<close> show ?thesis using space_len_rev_pos [of "rev s"] by blast
  qed
qed


section \<open>Words, lines of words\<close>

text \<open>
  A \<open>plain_word\<close> is a non-empty string of ASCII bytes that are not white space: what a
  kernel file, a MAC address or a decimal number is made of.
\<close>

definition plain_byte :: "char \<Rightarrow> bool" where
  "plain_byte c \<longleftrightarrow> is_ascii c \<and> \<not> ascii_space c"

definition plain_word :: "string \<Rightarrow> bool" where
  "plain_word w \<longleftrightarrow> w \<noteq> [] \<and> list_all plain_byte w"

lemma space_len_plain [simp]: "plain_byte c \<Longrightarrow> space_len (c # s) = 0"
  by (simp add: plain_byte_def)

lemma space_len_rev_plain [simp]: "plain_byte c \<Longrightarrow> space_len_rev (c # s) = 0"
  by (simp add: plain_byte_def)

lemma space_len_plain_word: "plain_word w \<Longrightarrow> space_len (w @ s) = 0"
  by (cases w) (auto simp: plain_word_def simp del: space_len.simps)

lemma space_len_rev_plain_word: "plain_word w \<Longrightarrow> space_len_rev (rev w @ s) = 0"
  by (cases w rule: rev_cases) (auto simp: plain_word_def simp del: space_len_rev.simps)

lemma fields_acc_plain:
  "list_all plain_byte w \<Longrightarrow> fields_acc cur (w @ s) = fields_acc (rev w @ cur) s"
  by (induction w arbitrary: cur) (auto simp del: space_len.simps)

lemma fields_Nil [simp]: "str_fields [] = []"
  by (simp add: str_fields_def emit_def)

lemma fields_skip_space [string_facts]: "ascii_space c \<Longrightarrow> str_fields (c # s) = str_fields s"
  by (simp add: str_fields_def emit_def)

lemma fields_word_space [string_facts]:
  "plain_word w \<Longrightarrow> ascii_space c \<Longrightarrow> str_fields (w @ c # s) = w # str_fields s"
  by (simp add: str_fields_def fields_acc_plain plain_word_def emit_def)

lemma fields_word [string_facts]: "plain_word w \<Longrightarrow> str_fields w = [w]"
  using fields_acc_plain [of w "[]" "[]"] by (simp add: str_fields_def plain_word_def emit_def)

lemma ascii_space_blank [simp]: "ascii_space CHR '' ''" "ascii_space CHR 0x09"
  by (simp_all add: ascii_space_def)

text \<open>\<open>Fields\<close> undoes joining words by single blanks.\<close>

lemma fields_join [string_facts]:
  "list_all plain_word ws \<Longrightarrow> str_fields (join_with '' '' ws) = ws"
  by (induction "'' ''" ws rule: join_with.induct) (auto simp: string_facts)

text \<open>A string that starts and ends with a plain word is its own trimming.\<close>

lemma trim_space_words [string_facts]:
  "plain_word w \<Longrightarrow> plain_word v \<Longrightarrow> trim_space (w @ s @ v) = w @ s @ v"
  "plain_word w \<Longrightarrow> trim_space w = w"
  using space_len_plain_word [of w "s @ v"] space_len_rev_plain_word [of v "rev s @ rev w"]
    space_len_plain_word [of w "[]"] space_len_rev_plain_word [of w "[]"]
  by (simp_all add: trim_space_id)

lemma trim_left_space: "ascii_space c \<Longrightarrow> trim_left (c # s) = trim_left s"
  by (simp add: trim_left_def strip_by.simps [of _ "c # s"])

lemma trim_space_skip [string_facts]: "ascii_space c \<Longrightarrow> trim_space (c # s) = trim_space s"
  by (simp add: trim_space_def trim_left_space)

lemma trim_space_blanks [string_facts]: "trim_space (replicate k CHR '' '' @ s) = trim_space s"
  by (induction k) (auto simp: trim_space_skip)

lemma trim_space_Nil [simp]: "trim_space [] = []"
  by (simp add: trim_space_def trim_left_def trim_right_def strip_by.simps)

text \<open>The scanner delivers the lines that were written, each ended by a newline.\<close>

definition clean_line :: "nat \<Rightarrow> string \<Rightarrow> bool" where
  "clean_line lim l \<longleftrightarrow> newline \<notin> set l \<and> drop_cr l = l \<and> length l < lim"

definition unlines :: "string list \<Rightarrow> string" where
  "unlines ls = concat (map (\<lambda>l. l @ [newline]) ls)"

lemma scan_lines_Nil [simp]: "scan_lines lim [] = []"
  by (simp add: scan_lines.simps)

lemma takeWhile_newline: "newline \<notin> set l \<Longrightarrow> takeWhile (\<lambda>c. c \<noteq> newline) (l @ newline # s) = l"
  by (induction l) auto

lemma scan_lines_line [string_facts]:
  assumes "newline \<notin> set l" and "length l < lim"
  shows "scan_lines lim (l @ newline # s) = drop_cr l # scan_lines lim s"
  using assms by (subst scan_lines.simps) (simp add: takeWhile_newline Let_def)

lemma scan_lines_unlines [string_facts]:
  "list_all (clean_line lim) ls \<Longrightarrow> scan_lines lim (unlines ls) = ls"
  by (induction ls) (auto simp: unlines_def clean_line_def scan_lines_line)

lemma scan_lines_prefix:
  "list_all (clean_line lim) ls \<Longrightarrow> scan_lines lim (unlines ls @ s) = ls @ scan_lines lim s"
  by (induction ls) (auto simp: unlines_def clean_line_def scan_lines_line)

text \<open>Every line it delivers is shorter than the limit and holds no newline.\<close>

lemma drop_cr_set: "set (drop_cr s) \<subseteq> set s"
  by (auto simp: drop_cr_def dest: in_set_butlastD)

lemma length_drop_cr: "length (drop_cr s) \<le> length s"
  by (simp add: drop_cr_def)

lemma scan_lines_bounded:
  "l \<in> set (scan_lines lim s) \<Longrightarrow> newline \<notin> set l \<and> length l < lim"
proof (induction lim s rule: scan_lines.induct)
  case (1 lim s)
  let ?l = "takeWhile (\<lambda>c. c \<noteq> newline) s"
  have "newline \<notin> set ?l" by (auto dest: set_takeWhileD)
  moreover from "1.prems" have "s \<noteq> []" "\<not> lim \<le> length ?l"
    and "l = drop_cr ?l \<or> l \<in> set (scan_lines lim (drop (Suc (length ?l)) s))"
    by (auto simp: scan_lines.simps [of lim s] Let_def split: if_splits)
  ultimately show ?case
    using "1.IH" drop_cr_set [of ?l] length_drop_cr [of ?l] by fastforce
qed

section \<open>Facts about letter case\<close>

lemma lower_byte_ascii: "is_ascii c \<Longrightarrow> is_ascii (lower_byte c)"
  by (auto simp: is_ascii_def lower_byte_def)

lemma lower_byte_idem [simp]: "lower_byte (lower_byte c) = lower_byte c"
  by (auto simp: lower_byte_def)

definition upper_byte :: "char \<Rightarrow> bool" where
  "upper_byte c \<longleftrightarrow> 65 \<le> (of_char c :: int) \<and> (of_char c :: int) \<le> 90"

lemma lower_byte_id: "\<not> upper_byte c \<Longrightarrow> lower_byte c = c"
  by (auto simp: lower_byte_def upper_byte_def)

lemma lower_byte_not_upper: "\<not> upper_byte (lower_byte c)"
  by (auto simp: lower_byte_def upper_byte_def)

lemma to_lower_idem:
  "list_all is_ascii s \<Longrightarrow> to_lower uni (to_lower uni s) = to_lower uni s"
  by (auto simp: to_lower_def list_all_iff lower_byte_ascii)

lemma to_lower_id: "list_all (\<lambda>c. is_ascii c \<and> \<not> upper_byte c) s \<Longrightarrow> to_lower uni s = s"
  by (auto simp: to_lower_def list_all_iff lower_byte_id intro: map_idI)

end
