(* ===== verification/Go_Numbers.thy ===== *)
theory Go_Numbers
  imports Go_Strings
begin

text \<open>
  Decimal integers as Go reads them: \<open>strconv.ParseUint(s, 10, 64)\<close>,
  \<open>strconv.ParseInt(s, 10, 64)\<close> (which \<open>strconv.Atoi\<close> agrees with on a 64-bit
  platform) and \<open>fmt.Sscanf(s, "%d", &u)\<close> into a \<open>uint64\<close>, with the decimal
  writer that the round-trip theorems use.
\<close>

section \<open>Reading\<close>

definition digit_value :: "char \<Rightarrow> int option" where
  "digit_value c = (if 48 \<le> (of_char c :: int) \<and> (of_char c :: int) \<le> 57
     then Some (of_char c - 48) else None)"

text \<open>
  The loop of \<open>ParseUint\<close> stops at the first byte that is no digit (a syntax error) or
  at the first digit whose value does not fit 64 bits (a range error), whichever is first.
\<close>

fun uint_loop :: "int \<Rightarrow> string \<Rightarrow> num_err + int" where
  "uint_loop n [] = Inr n"
| "uint_loop n (c # s) =
     (case digit_value c of
        None \<Rightarrow> Inl ErrSyntax
      | Some d \<Rightarrow> if 2 ^ 64 \<le> n * 10 + d then Inl ErrRange else uint_loop (n * 10 + d) s)"

definition parse_uint64 :: "string \<Rightarrow> num_err + u64" where
  "parse_uint64 s =
     (if s = [] then Inl ErrSyntax
      else case uint_loop 0 s of Inl e \<Rightarrow> Inl e | Inr n \<Rightarrow> Inr (word_of_int n))"

definition sign_split :: "string \<Rightarrow> bool \<times> string" where
  "sign_split s =
     (case s of [] \<Rightarrow> (False, [])
      | c # r \<Rightarrow> if c = CHR ''+'' then (False, r) else if c = CHR ''-'' then (True, r) else (False, s))"

definition parse_int64 :: "string \<Rightarrow> num_err + int" where
  "parse_int64 s =
     (if s = [] then Inl ErrSyntax
      else case sign_split s of (neg, r) \<Rightarrow>
        (case parse_uint64 r of
           Inl e \<Rightarrow> Inl e
         | Inr u \<Rightarrow>
             if \<not> neg \<and> 2 ^ 63 \<le> uint u then Inl ErrRange
             else if neg \<and> 2 ^ 63 < uint u then Inl ErrRange
             else Inr (if neg then - uint u else uint u)))"

text \<open>\<open>Sscanf\<close> takes the leading digits of its operand (which the callers cut free of white space).\<close>

definition is_digit :: "char \<Rightarrow> bool" where
  "is_digit c \<longleftrightarrow> digit_value c \<noteq> None"

definition sscanf_uint64 :: "string \<Rightarrow> u64 option" where
  "sscanf_uint64 s =
     (let tok = takeWhile is_digit s in
      if tok = [] then None
      else case parse_uint64 tok of Inl e \<Rightarrow> None | Inr n \<Rightarrow> Some n)"

section \<open>Writing\<close>

definition digit_char :: "nat \<Rightarrow> char" where
  "digit_char d = char_of (48 + d)"

fun show_nat :: "nat \<Rightarrow> string" where
  "show_nat n = (if n < 10 then [digit_char n] else show_nat (n div 10) @ [digit_char (n mod 10)])"

declare show_nat.simps [simp del]

definition show_int :: "int \<Rightarrow> string" where
  "show_int i = (if i < 0 then CHR ''-'' # show_nat (nat (- i)) else show_nat (nat i))"

lemma show_nat_digit [simp]:
  "show_nat 0 = ''0''" "show_nat 1 = ''1''" "show_nat 2 = ''2''" "show_nat 3 = ''3''"
  "show_nat 4 = ''4''" "show_nat 5 = ''5''" "show_nat 6 = ''6''" "show_nat 7 = ''7''"
  "show_nat 8 = ''8''" "show_nat 9 = ''9''"
  by code_simp+

lemma show_nat_step: "10 \<le> n \<Longrightarrow> show_nat n = show_nat (n div 10) @ show_nat (n mod 10)"
  by (subst (1 3) show_nat.simps) simp

section \<open>Bounds\<close>

lemma uint_loop_bound: "n < 2 ^ 64 \<Longrightarrow> uint_loop n s = Inr m \<Longrightarrow> m < 2 ^ 64"
  by (induction n s rule: uint_loop.induct) (auto split: option.splits if_splits)

lemma uint_bounds_64: "0 \<le> uint (u :: u64)" "- uint u < 9223372036854775808"
  "- 9223372036854775808 \<le> uint u"
  using uint_ge_0 [of u] by linarith+

lemma parse_int64_bound:
  "parse_int64 s = Inr i \<Longrightarrow> - (2 ^ 63) \<le> i \<and> i < 2 ^ 63"
  using uint_bounds_64
  by (auto simp: parse_int64_def split: if_splits prod.splits sum.splits)

section \<open>Round trips\<close>

lemma of_char_int: "(of_char c :: int) = int (of_char c)"
  by (simp add: of_nat_of_char)

lemma digit_value_char [simp]: "d < 10 \<Longrightarrow> digit_value (digit_char d) = Some (int d)"
  by (simp add: digit_value_def digit_char_def of_char_int)

lemma plain_digit: "d < 10 \<Longrightarrow> plain_byte (digit_char d)"
proof -
  assume "d < 10"
  then have v: "(of_char (digit_char d) :: int) = 48 + int d"
    by (simp add: digit_char_def of_char_int)
  then have "\<not> ascii_space (digit_char d)"
    by (auto simp: ascii_space_def)
  with v \<open>d < 10\<close> show ?thesis
    by (simp add: plain_byte_def is_ascii_def)
qed

lemma show_nat_digits: "list_all (\<lambda>c. \<exists>d < 10. c = digit_char d) (show_nat n)"
proof (induction n rule: show_nat.induct)
  case (1 n)
  then show ?case
    by (cases "n < 10") (auto simp: show_nat.simps [of n] intro: exI [of _ "n mod 10"])
qed

lemma show_nat_nonempty [simp]: "show_nat n \<noteq> []"
  by (subst show_nat.simps) simp

lemma plain_word_show_nat [simp]: "plain_word (show_nat n)"
  using show_nat_digits [of n]
  by (auto simp: plain_word_def list_all_iff plain_digit)

lemma uint_loop_append:
  "uint_loop n (s @ t) = (case uint_loop n s of Inl e \<Rightarrow> Inl e | Inr m \<Rightarrow> uint_loop m t)"
  by (induction n s rule: uint_loop.induct) (auto split: option.splits)

lemma uint_loop_show: "n < 2 ^ 64 \<Longrightarrow> uint_loop 0 (show_nat n) = Inr (int n)"
proof (induction n rule: show_nat.induct)
  case (1 n)
  show ?case
  proof (cases "n < 10")
    case True
    then show ?thesis by (simp add: show_nat.simps [of n])
  next
    case False
    with 1 have "uint_loop 0 (show_nat (n div 10)) = Inr (int (n div 10))" by simp
    moreover have "int (n div 10) * 10 + int (n mod 10) = int n" by presburger
    ultimately show ?thesis
      using False 1 by (simp add: show_nat.simps [of n] uint_loop_append)
  qed
qed

lemma parse_uint64_show_nat:
  "n < 2 ^ 64 \<Longrightarrow> parse_uint64 (show_nat n) = Inr (word_of_nat n)"
  by (simp add: parse_uint64_def uint_loop_show)

lemma parse_uint64_show [simp]: "parse_uint64 (show_nat (unat u)) = Inr u"
proof -
  have "unat u < 2 ^ 64" using unsigned_less [of u] by simp
  then show ?thesis by (simp add: parse_uint64_show_nat)
qed

lemma sscanf_show [simp]: "sscanf_uint64 (show_nat (unat u)) = Some u"
proof -
  have tok: "takeWhile is_digit (show_nat (unat u)) = show_nat (unat u)"
    using show_nat_digits [of "unat u"]
    by (auto simp: takeWhile_eq_all_conv list_all_iff is_digit_def)
  show ?thesis unfolding sscanf_uint64_def Let_def tok by simp
qed

lemma sign_split_show_nat [simp]: "sign_split (show_nat n) = (False, show_nat n)"
proof -
  obtain c r where s: "show_nat n = c # r" by (cases "show_nat n") auto
  then obtain d where "d < 10" "c = digit_char d"
    using show_nat_digits [of n] by auto
  then have "digit_value c = Some (int d)" by simp
  then have "c \<noteq> CHR ''+''" "c \<noteq> CHR ''-''"
    by (auto simp: digit_value_def)
  with s show ?thesis by (simp add: sign_split_def)
qed

lemma uint_word_of_nat_64: "n < 2 ^ 64 \<Longrightarrow> uint (word_of_nat n :: u64) = int n"
  by (simp add: uint_nat unat_of_nat take_bit_nat_eq_self del: of_nat_unat)

lemma plain_word_show_int: "plain_word (show_int i)"
proof -
  have "plain_byte CHR ''-''" by code_simp
  then show ?thesis
    using plain_word_show_nat [of "nat (- i)"] plain_word_show_nat [of "nat i"] by (simp add: show_int_def plain_word_def)
qed

lemma parse_int64_show:
  assumes "- (2 ^ 63) \<le> i" and "i < 2 ^ 63"
  shows "parse_int64 (show_int i) = Inr i"
proof (cases "i < 0")
  case True
  define n where "n = nat (- i)"
  then have n: "n \<le> 2 ^ 63" "n < 2 ^ 64" "i = - int n" "show_int i = CHR ''-'' # show_nat n"
    using True assms by (simp_all add: show_int_def)
  then show ?thesis
    by (simp add: parse_int64_def sign_split_def parse_uint64_show_nat uint_word_of_nat_64)
next
  case False
  define n where "n = nat i"
  then have n: "n < 2 ^ 63" "n < 2 ^ 64" "i = int n" "show_int i = show_nat n"
    using False assms by (simp_all add: show_int_def)
  then show ?thesis
    by (simp add: parse_int64_def parse_uint64_show_nat uint_word_of_nat_64)
qed

end
