(* ===== verification/Go_Json.thy ===== *)
theory Go_Json
  imports Go_Numbers
begin

text \<open>
  \<open>encoding/json\<close> as the program uses it: the scanner, a machine that reads one byte at
  a time with a stack of open containers; the decoding of string literals, with UTF-8
  validation; the decoding into structs (field names matched up to case, type mismatches
  an error, \<open>null\<close> leaving the target as it is); and the encoder. Facts: decoding what
  the encoder wrote gives the value back, for every byte string, up to the replacement of
  bytes that are not UTF-8.
\<close>

datatype json =
    JNull
  | JBool bool
  | JNum string
  | JStr string
  | JArr "json list"
  | JObj "(string \<times> json) list"

section \<open>UTF-8\<close>

definition byte :: "char \<Rightarrow> int" where
  "byte c = of_char c"

definition in_bytes :: "int \<Rightarrow> int \<Rightarrow> char \<Rightarrow> bool" where
  "in_bytes lo hi c \<longleftrightarrow> lo \<le> byte c \<and> byte c \<le> hi"

definition cont_byte :: "char \<Rightarrow> bool" where
  "cont_byte c \<longleftrightarrow> in_bytes 128 191 c"

text \<open>Well-formed encodings of two, three and four bytes.\<close>

definition rune2 :: "char \<Rightarrow> char \<Rightarrow> bool" where
  "rune2 a b \<longleftrightarrow> in_bytes 194 223 a \<and> cont_byte b"

definition rune3 :: "char \<Rightarrow> char \<Rightarrow> char \<Rightarrow> bool" where
  "rune3 a b c \<longleftrightarrow> in_bytes 224 239 a \<and>
     in_bytes (if byte a = 224 then 160 else 128) (if byte a = 237 then 159 else 191) b \<and> cont_byte c"

definition rune4 :: "char \<Rightarrow> char \<Rightarrow> char \<Rightarrow> char \<Rightarrow> bool" where
  "rune4 a b c d \<longleftrightarrow> in_bytes 240 244 a \<and>
     in_bytes (if byte a = 240 then 144 else 128) (if byte a = 244 then 143 else 191) b \<and>
     cont_byte c \<and> cont_byte d"

text \<open>The length of the well-formed encoding of a code point in front, 0 for none.\<close>

fun rune_len :: "string \<Rightarrow> nat" where
  "rune_len [] = 0"
| "rune_len (a # s) =
     (if byte a < 128 then 1
      else if (case s of b # t \<Rightarrow> rune2 a b | _ \<Rightarrow> False) then 2
      else if (case s of b # c # t \<Rightarrow> rune3 a b c | _ \<Rightarrow> False) then 3
      else if (case s of b # c # d # t \<Rightarrow> rune4 a b c d | _ \<Rightarrow> False) then 4
      else 0)"

definition replacement :: string where
  "replacement = map char_of [239, 191, 189 :: int]"

text \<open>\<open>utf8.AppendRune\<close>.\<close>

definition encode_rune :: "int \<Rightarrow> string" where
  "encode_rune r =
     (if r < 128 then [char_of r]
      else if r < 2048 then [char_of (192 + r div 64), char_of (128 + r mod 64)]
      else if r < 65536 then
        [char_of (224 + r div 4096), char_of (128 + r div 64 mod 64), char_of (128 + r mod 64)]
      else [char_of (240 + r div 262144), char_of (128 + r div 4096 mod 64),
            char_of (128 + r div 64 mod 64), char_of (128 + r mod 64)])"

section \<open>String literals\<close>

definition backslash :: char where
  "backslash = CHR 0x5C"

definition hex_value :: "char \<Rightarrow> int option" where
  "hex_value c =
     (if in_bytes 48 57 c then Some (byte c - 48)
      else if in_bytes 97 102 c then Some (byte c - 87)
      else if in_bytes 65 70 c then Some (byte c - 55)
      else None)"

text \<open>\<open>getu4\<close>: the value of \<open>\uXXXX\<close> in front.\<close>

fun get_u4 :: "string \<Rightarrow> int option" where
  "get_u4 (x # u # a # b # c # d # s) =
     (if x = backslash \<and> u = CHR ''u'' then
        (case (hex_value a, hex_value b, hex_value c, hex_value d) of
           (Some p, Some q, Some r, Some t) \<Rightarrow> Some (((p * 16 + q) * 16 + r) * 16 + t)
         | _ \<Rightarrow> None)
      else None)"
| "get_u4 s = None"

definition simple_escape :: "char \<Rightarrow> char option" where
  "simple_escape c =
     map_of [(CHR 0x22, CHR 0x22), (backslash, backslash), (CHR ''/'', CHR ''/''), (CHR ''b'', CHR 0x08),
       (CHR ''f'', CHR 0x0C), (CHR ''n'', CHR 0x0A), (CHR ''r'', CHR 0x0D), (CHR ''t'', CHR 0x09)] c"

text \<open>
  \<open>unquote\<close>, on the bytes between the quotes, which the scanner has accepted. An escape
  of a surrogate pair is one code point; a lone surrogate and an ill-formed byte become
  U+FFFD.
\<close>

function unquote :: "string \<Rightarrow> string" where
  "unquote s =
     (case s of
        [] \<Rightarrow> []
      | x # t \<Rightarrow>
          if x = backslash then
            (case get_u4 s of
               Some r \<Rightarrow>
                 (if 55296 \<le> r \<and> r < 57344 then
                    (case get_u4 (drop 6 s) of
                       Some r2 \<Rightarrow>
                         if r < 56320 \<and> 56320 \<le> r2 \<and> r2 < 57344
                         then encode_rune ((r - 55296) * 1024 + (r2 - 56320) + 65536) @ unquote (drop 12 s)
                         else replacement @ unquote (drop 6 s)
                     | None \<Rightarrow> replacement @ unquote (drop 6 s))
                  else encode_rune r @ unquote (drop 6 s))
             | None \<Rightarrow>
                 (case t of
                    [] \<Rightarrow> []
                  | c # u \<Rightarrow> (case simple_escape c of Some d \<Rightarrow> d # unquote u | None \<Rightarrow> [])))
          else if rune_len s = 0 then replacement @ unquote t
          else take (rune_len s) s @ unquote (drop (rune_len s) s))"
  by pat_completeness auto
termination
  by (relation "measure length") auto

declare unquote.simps [simp del]

section \<open>The scanner\<close>

text \<open>An open array, an open object between members, an open object with a key read.\<close>

datatype jframe = FArr "json list" | FObj "(string \<times> json) list" | FKey "(string \<times> json) list" string

datatype num_state = NNeg | NZero | NInt | NDot | NFrac | NExp | NExpSign | NExpDigits

datatype jstate =
    BeginValue
  | BeginValueOrEmpty
  | BeginKeyOrEmpty
  | BeginKey
  | EndKey
  | EndValue
  | InString bool string
  | InEscape bool string
  | InHex nat bool string
  | InNumber num_state string
  | InLiteral string json

datatype jconf = Conf jstate "jframe list" | Finished json | Bad

definition json_space :: "char \<Rightarrow> bool" where
  "json_space c \<longleftrightarrow> c = CHR '' '' \<or> c = CHR 0x09 \<or> c = CHR 0x0D \<or> c = CHR 0x0A"

fun deliver :: "json \<Rightarrow> jframe list \<Rightarrow> jconf" where
  "deliver v [] = Finished v"
| "deliver v (FArr vs # st) = Conf EndValue (FArr (v # vs) # st)"
| "deliver v (FKey ms k # st) = Conf EndValue (FObj ((k, v) # ms) # st)"
| "deliver v (FObj ms # st) = Bad"

definition max_depth :: int where
  "max_depth = 10000"

definition open_frame :: "jstate \<Rightarrow> jframe \<Rightarrow> jframe list \<Rightarrow> jconf" where
  "open_frame q f st = (if int (length st) < max_depth then Conf q (f # st) else Bad)"

fun num_next :: "num_state \<Rightarrow> char \<Rightarrow> num_state option" where
  "num_next NNeg c = (if c = CHR ''0'' then Some NZero else if in_bytes 49 57 c then Some NInt else None)"
| "num_next NZero c = (if c = CHR ''.'' then Some NDot else if c \<in> {CHR ''e'', CHR ''E''} then Some NExp else None)"
| "num_next NInt c = (if in_bytes 48 57 c then Some NInt else if c = CHR ''.'' then Some NDot
     else if c \<in> {CHR ''e'', CHR ''E''} then Some NExp else None)"
| "num_next NDot c = (if in_bytes 48 57 c then Some NFrac else None)"
| "num_next NFrac c = (if in_bytes 48 57 c then Some NFrac else if c \<in> {CHR ''e'', CHR ''E''} then Some NExp else None)"
| "num_next NExp c = (if c \<in> {CHR ''+'', CHR ''-''} then Some NExpSign else if in_bytes 48 57 c then Some NExpDigits else None)"
| "num_next NExpSign c = (if in_bytes 48 57 c then Some NExpDigits else None)"
| "num_next NExpDigits c = (if in_bytes 48 57 c then Some NExpDigits else None)"

definition num_done :: "num_state \<Rightarrow> bool" where
  "num_done n \<longleftrightarrow> n \<in> {NZero, NInt, NFrac, NExpDigits}"

definition num_start :: "char \<Rightarrow> num_state option" where
  "num_start c =
     (if c = CHR ''-'' then Some NNeg else if c = CHR ''0'' then Some NZero
      else if in_bytes 49 57 c then Some NInt else None)"

definition literal_start :: "char \<Rightarrow> (string \<times> json) option" where
  "literal_start c =
     map_of [(CHR ''t'', (''rue'', JBool True)), (CHR ''f'', (''alse'', JBool False)), (CHR ''n'', (''ull'', JNull))] c"

definition begin_value :: "char \<Rightarrow> jframe list \<Rightarrow> jconf" where
  "begin_value c st =
     (if c = CHR ''{'' then open_frame BeginKeyOrEmpty (FObj []) st
      else if c = CHR ''['' then open_frame BeginValueOrEmpty (FArr []) st
      else if c = CHR 0x22 then Conf (InString False []) st
      else case num_start c of
          Some n \<Rightarrow> Conf (InNumber n [c]) st
        | None \<Rightarrow> (case literal_start c of Some (r, v) \<Rightarrow> Conf (InLiteral r v) st | None \<Rightarrow> Bad))"

definition end_value :: "char \<Rightarrow> jframe list \<Rightarrow> jconf" where
  "end_value c st =
     (case st of
        FArr vs # st' \<Rightarrow>
          if c = CHR '','' then Conf BeginValue st
          else if c = CHR '']'' then deliver (JArr (rev vs)) st' else Bad
      | FObj ms # st' \<Rightarrow>
          if c = CHR '','' then Conf BeginKey st
          else if c = CHR ''}'' then deliver (JObj (rev ms)) st' else Bad
      | _ \<Rightarrow> Bad)"

definition begin_key :: "char \<Rightarrow> jframe list \<Rightarrow> jconf" where
  "begin_key c st = (if c = CHR 0x22 then Conf (InString True []) st else Bad)"

definition end_string :: "bool \<Rightarrow> string \<Rightarrow> jframe list \<Rightarrow> jconf" where
  "end_string is_key s st =
     (if is_key then (case st of FObj ms # st' \<Rightarrow> Conf EndKey (FKey ms s # st') | _ \<Rightarrow> Bad)
      else deliver (JStr s) st)"

text \<open>What follows the end of a number, whose last byte is only known at the next one.\<close>

fun resume :: "char \<Rightarrow> jconf \<Rightarrow> jconf" where
  "resume c (Conf q st) = (if json_space c then Conf q st else end_value c st)"
| "resume c (Finished v) = (if json_space c then Finished v else Bad)"
| "resume c Bad = Bad"

fun jstep :: "char \<Rightarrow> jstate \<Rightarrow> jframe list \<Rightarrow> jconf" where
  "jstep c BeginValue st = (if json_space c then Conf BeginValue st else begin_value c st)"
| "jstep c BeginValueOrEmpty st =
     (if json_space c then Conf BeginValueOrEmpty st
      else if c = CHR '']'' then end_value c st else begin_value c st)"
| "jstep c BeginKeyOrEmpty st =
     (if json_space c then Conf BeginKeyOrEmpty st
      else if c = CHR ''}'' then end_value c st else begin_key c st)"
| "jstep c BeginKey st = (if json_space c then Conf BeginKey st else begin_key c st)"
| "jstep c EndKey st =
     (if json_space c then Conf EndKey st else if c = CHR '':'' then Conf BeginValue st else Bad)"
| "jstep c EndValue st = (if json_space c then Conf EndValue st else end_value c st)"
| "jstep c (InString k raw) st =
     (if c = CHR 0x22 then end_string k (unquote (rev raw)) st
      else if c = backslash then Conf (InEscape k (c # raw)) st
      else if byte c < 32 then Bad else Conf (InString k (c # raw)) st)"
| "jstep c (InEscape k raw) st =
     (if c = CHR ''u'' then Conf (InHex 3 k (c # raw)) st
      else if simple_escape c \<noteq> None then Conf (InString k (c # raw)) st else Bad)"
| "jstep c (InHex n k raw) st =
     (if hex_value c = None then Bad
      else if n = 0 then Conf (InString k (c # raw)) st else Conf (InHex (n - 1) k (c # raw)) st)"
| "jstep c (InNumber n raw) st =
     (case num_next n c of
        Some n' \<Rightarrow> Conf (InNumber n' (c # raw)) st
      | None \<Rightarrow> if num_done n then resume c (deliver (JNum (rev raw)) st) else Bad)"
| "jstep c (InLiteral r v) st =
     (case r of
        [] \<Rightarrow> Bad
      | d # r' \<Rightarrow> if c \<noteq> d then Bad else if r' = [] then deliver v st else Conf (InLiteral r' v) st)"

text \<open>The value in front of a text and what follows it.\<close>

fun json_run :: "jconf \<Rightarrow> string \<Rightarrow> (json \<times> string) option" where
  "json_run (Finished v) s = Some (v, s)"
| "json_run Bad s = None"
| "json_run (Conf q st) (c # s) = json_run (jstep c q st) s"
| "json_run (Conf (InNumber n raw) []) [] = (if num_done n then Some (JNum (rev raw), []) else None)"
| "json_run (Conf q st) [] = None"

text \<open>\<open>Decoder.Decode\<close> reads the first value of a stream; \<open>Unmarshal\<close> allows only white space after it.\<close>

definition json_first :: "string \<Rightarrow> json option" where
  "json_first s = map_option fst (json_run (Conf BeginValue []) s)"

definition json_whole :: "string \<Rightarrow> json option" where
  "json_whole s =
     (case json_run (Conf BeginValue []) s of
        None \<Rightarrow> None
      | Some (v, r) \<Rightarrow> if list_all json_space r then Some v else None)"

section \<open>Decoding into structs\<close>

text \<open>
  The name of a member up to case, as \<open>foldName\<close> compares it with an ASCII field name:
  two code points outside ASCII fold to ASCII letters, the long s and the Kelvin sign.
\<close>

fun fold_name :: "string \<Rightarrow> string" where
  "fold_name [] = []"
| "fold_name (a # s) =
     (case s of
        b # t \<Rightarrow>
          if byte a = 197 \<and> byte b = 191 then CHR ''s'' # fold_name t
          else (case t of
              c # u \<Rightarrow>
                if byte a = 226 \<and> byte b = 132 \<and> byte c = 170 then CHR ''k'' # fold_name u
                else lower_byte a # fold_name s
            | [] \<Rightarrow> lower_byte a # fold_name s)
      | [] \<Rightarrow> [lower_byte a])"

fun decode_string :: "json \<Rightarrow> string \<Rightarrow> string option" where
  "decode_string (JStr s) old = Some s"
| "decode_string JNull old = Some old"
| "decode_string v old = None"

fun decode_bool :: "json \<Rightarrow> bool \<Rightarrow> bool option" where
  "decode_bool (JBool b) old = Some b"
| "decode_bool JNull old = Some old"
| "decode_bool v old = None"

text \<open>The members in order; \<open>field\<close> leaves the struct as it is for an unknown name.\<close>

fun decode_members :: "(string \<Rightarrow> json \<Rightarrow> 'r \<Rightarrow> 'r option) \<Rightarrow> (string \<times> json) list \<Rightarrow> 'r \<Rightarrow> 'r option" where
  "decode_members field [] r = Some r"
| "decode_members field ((k, v) # ms) r =
     (case field (fold_name k) v r of None \<Rightarrow> None | Some r' \<Rightarrow> decode_members field ms r')"

fun decode_struct :: "(string \<Rightarrow> json \<Rightarrow> 'r \<Rightarrow> 'r option) \<Rightarrow> json \<Rightarrow> 'r \<Rightarrow> 'r option" where
  "decode_struct field (JObj ms) r = decode_members field ms r"
| "decode_struct field JNull r = Some r"
| "decode_struct field v r = None"

text \<open>An element is decoded into the one that is there already, as for a key given twice.\<close>

fun decode_items :: "(json \<Rightarrow> 'r \<Rightarrow> 'r option) \<Rightarrow> 'r \<Rightarrow> json list \<Rightarrow> 'r list \<Rightarrow> 'r list option" where
  "decode_items dec zero [] olds = Some []"
| "decode_items dec zero (v # vs) olds =
     (case dec v (case olds of [] \<Rightarrow> zero | old # rest \<Rightarrow> old) of
        None \<Rightarrow> None
      | Some r \<Rightarrow> map_option ((#) r) (decode_items dec zero vs (drop 1 olds)))"

fun decode_list :: "(json \<Rightarrow> 'r \<Rightarrow> 'r option) \<Rightarrow> 'r \<Rightarrow> json \<Rightarrow> 'r list \<Rightarrow> 'r list option" where
  "decode_list dec zero (JArr vs) olds = decode_items dec zero vs olds"
| "decode_list dec zero JNull olds = Some []"
| "decode_list dec zero v olds = None"

section \<open>The encoder\<close>

definition hex_digit :: "int \<Rightarrow> char" where
  "hex_digit d = char_of (if d < 10 then 48 + d else 87 + d)"

text \<open>One byte below 128, as \<open>appendString\<close> writes it with HTML escaping on.\<close>

definition escape_ascii :: "char \<Rightarrow> string" where
  "escape_ascii c =
     (case map_of [(CHR 0x22, CHR 0x22), (backslash, backslash), (CHR 0x08, CHR ''b''), (CHR 0x0C, CHR ''f''),
         (CHR 0x0A, CHR ''n''), (CHR 0x0D, CHR ''r''), (CHR 0x09, CHR ''t'')] c of
        Some d \<Rightarrow> [backslash, d]
      | None \<Rightarrow>
          if byte c < 32 \<or> c \<in> {CHR ''<'', CHR ''>'', CHR ''&''}
          then [backslash, CHR ''u'', CHR ''0'', CHR ''0'', hex_digit (byte c div 16), hex_digit (byte c mod 16)]
          else [c])"

definition line_separator :: "string \<Rightarrow> bool" where
  "line_separator r \<longleftrightarrow> map byte r = [226, 128, 168] \<or> map byte r = [226, 128, 169]"

function json_escape :: "string \<Rightarrow> string" where
  "json_escape s =
     (case s of
        [] \<Rightarrow> []
      | c # t \<Rightarrow>
          if byte c < 128 then escape_ascii c @ json_escape t
          else if rune_len s = 0 then [backslash] @ ''ufffd'' @ json_escape t
          else if line_separator (take (rune_len s) s)
            then [backslash] @ ''u202'' @ [hex_digit (byte (s ! 2) mod 16)] @ json_escape (drop (rune_len s) s)
          else take (rune_len s) s @ json_escape (drop (rune_len s) s))"
  by pat_completeness auto
termination
  by (relation "measure length") auto

declare json_escape.simps [simp del]

definition json_quote :: "string \<Rightarrow> string" where
  "json_quote s = CHR 0x22 # json_escape s @ [CHR 0x22]"

fun json_compact :: "json \<Rightarrow> string" where
  "json_compact JNull = ''null''"
| "json_compact (JBool b) = (if b then ''true'' else ''false'')"
| "json_compact (JNum w) = w"
| "json_compact (JStr s) = json_quote s"
| "json_compact (JArr vs) = ''['' @ join_with '','' (map json_compact vs) @ '']''"
| "json_compact (JObj ms) =
     ''{'' @ join_with '','' (map (\<lambda>m. json_quote (fst m) @ '':'' @ json_compact (snd m)) ms) @ ''}''"

definition json_newline :: "nat \<Rightarrow> string" where
  "json_newline d = CHR 0x0A # concat (replicate d ''  '')"

text \<open>The layout of \<open>SetIndent("", "  ")\<close>.\<close>

fun json_indented :: "nat \<Rightarrow> json \<Rightarrow> string" where
  "json_indented d (JArr vs) =
     (if vs = [] then ''[]''
      else ''['' @ json_newline (Suc d) @ join_with (CHR '','' # json_newline (Suc d)) (map (json_indented (Suc d)) vs)
        @ json_newline d @ '']'')"
| "json_indented d (JObj ms) =
     (if ms = [] then ''{}''
      else ''{'' @ json_newline (Suc d) @
        join_with (CHR '','' # json_newline (Suc d))
          (map (\<lambda>m. json_quote (fst m) @ '': '' @ json_indented (Suc d) (snd m)) ms)
        @ json_newline d @ ''}'')"
| "json_indented d v = json_compact v"

text \<open>\<open>Encoder.Encode\<close> ends the value with a newline.\<close>

definition json_encode :: "json \<Rightarrow> string" where
  "json_encode v = json_compact v @ [CHR 0x0A]"

section \<open>Strings: decoding undoes encoding\<close>

text \<open>The text with every ill-formed byte replaced, all that JSON can carry.\<close>

function to_utf8 :: "string \<Rightarrow> string" where
  "to_utf8 s =
     (case s of
        [] \<Rightarrow> []
      | c # t \<Rightarrow>
          if rune_len s = 0 then replacement @ to_utf8 t
          else take (rune_len s) s @ to_utf8 (drop (rune_len s) s))"
  by pat_completeness auto
termination
  by (relation "measure length") auto

declare to_utf8.simps [simp del]

lemma byte_bounds: "0 \<le> byte c" "byte c < 256"
proof -
  have "byte c = int (of_char c)" by (simp add: byte_def of_char_int)
  moreover have "(of_char c :: nat) < 256" by simp
  ultimately show "0 \<le> byte c" "byte c < 256" by simp_all
qed

lemma char_of_byte [simp]: "char_of (byte c) = c"
  by (simp add: byte_def)

lemma byte_char_of: "0 \<le> n \<Longrightarrow> n < 256 \<Longrightarrow> byte (char_of n) = n"
  by (simp add: byte_def)

lemma rune_len_ascii [simp]: "byte c < 128 \<Longrightarrow> rune_len (c # s) = 1"
  by simp

declare rune_len.simps(2) [simp del]

lemma rune_high:
  "rune2 a b \<Longrightarrow> 128 \<le> byte a \<and> 128 \<le> byte b"
  "rune3 a b c \<Longrightarrow> 128 \<le> byte a \<and> 128 \<le> byte b \<and> 128 \<le> byte c \<and> \<not> rune2 a b"
  "rune4 a b c d \<Longrightarrow>
     128 \<le> byte a \<and> 128 \<le> byte b \<and> 128 \<le> byte c \<and> 128 \<le> byte d \<and> \<not> rune2 a b \<and> \<not> rune3 a b c"
  by (auto simp: rune2_def rune3_def rune4_def cont_byte_def in_bytes_def split: if_splits)

lemma rune_len_multi [simp]:
  "rune2 a b \<Longrightarrow> rune_len (a # b # t) = 2"
  "rune3 a b c \<Longrightarrow> rune_len (a # b # c # t) = 3"
  "rune4 a b c d \<Longrightarrow> rune_len (a # b # c # d # t) = 4"
  using rune_high [of a b] by (auto simp: rune_len.simps(2) dest!: rune_high)

lemma rune_len_cases:
  assumes "rune_len s \<noteq> 0"
  obtains (one) a t where "s = a # t" "byte a < 128" "rune_len s = 1"
  | (two) a b t where "s = a # b # t" "rune2 a b" "rune_len s = 2"
  | (three) a b c t where "s = a # b # c # t" "rune3 a b c" "rune_len s = 3"
  | (four) a b c d t where "s = a # b # c # d # t" "rune4 a b c d" "rune_len s = 4"
proof -
  obtain a t where s: "s = a # t" using assms by (cases s) auto
  show thesis
    using assms one two three four unfolding s
    by (auto simp: rune_len.simps(2) split: list.splits if_splits)
qed

lemma rune_len_append:
  assumes "rune_len s \<noteq> 0"
  shows "rune_len (take (rune_len s) s @ r) = rune_len s"
  using assms by (cases rule: rune_len_cases) simp_all

lemma rune_len_high:
  assumes "128 \<le> byte a" and "c \<in> set (take (rune_len (a # t)) (a # t))"
  shows "128 \<le> byte c"
proof -
  have "rune_len (a # t) \<noteq> 0" using assms(2) by (cases "rune_len (a # t) = 0") auto
  then show ?thesis
    using assms by (cases rule: rune_len_cases) (auto dest: rune_high)
qed

lemma hex_value_digit [simp]: "0 \<le> d \<Longrightarrow> d < 16 \<Longrightarrow> hex_value (hex_digit d) = Some d"
  by (auto simp: hex_value_def hex_digit_def in_bytes_def byte_char_of)

lemma get_u4_digits:
  "0 \<le> p \<Longrightarrow> p < 16 \<Longrightarrow> 0 \<le> q \<Longrightarrow> q < 16 \<Longrightarrow> hex_value a = Some x \<Longrightarrow> hex_value b = Some y \<Longrightarrow>
     get_u4 (backslash # CHR ''u'' # a # b # hex_digit p # hex_digit q # s) = Some (((x * 16 + y) * 16 + p) * 16 + q)"
  by simp

lemma unquote_Nil [simp]: "unquote [] = []"
  by (simp add: unquote.simps)

lemma unquote_u4:
  assumes "get_u4 e = Some r" and "r < 55296 \<or> 57344 \<le> r" and "e = backslash # t" and "length e = 6"
  shows "unquote (e @ s) = encode_rune r @ unquote s"
proof -
  obtain u a b c d where e: "e = [backslash, u, a, b, c, d]"
    using assms(3,4) by (auto simp: numeral_eq_Suc length_Suc_conv)
  then have "get_u4 (e @ s) = Some r" using assms(1) by simp
  then show ?thesis
    using assms(2) e by (subst unquote.simps) (auto simp: e)
qed

lemma unquote_plain:
  "byte c < 128 \<Longrightarrow> c \<noteq> backslash \<Longrightarrow> unquote (c # s) = c # unquote s"
  by (subst unquote.simps) simp

lemma unquote_simple:
  "simple_escape c = Some d \<Longrightarrow> c \<noteq> CHR ''u'' \<Longrightarrow> unquote (backslash # c # s) = d # unquote s"
proof -
  assume c: "simple_escape c = Some d" "c \<noteq> CHR ''u''"
  then have "get_u4 (backslash # c # s) = None"
    by (cases "(backslash # c # s)" rule: get_u4.cases) simp_all
  then show ?thesis using c by (subst unquote.simps) simp
qed

lemma unquote_rune:
  assumes "rune_len s \<noteq> 0" and "hd s \<noteq> backslash"
  shows "unquote (take (rune_len s) s @ r) = take (rune_len s) s @ unquote r"
proof -
  obtain c t where "s = c # t" using assms(1) by (cases s) auto
  moreover define w where "w = take (rune_len s) s @ r"
  ultimately have "w = c # tl w \<and> take (rune_len s) w = take (rune_len s) s \<and> drop (rune_len s) w = r"
    by - (rule rune_len_cases [OF assms(1)], auto simp: w_def)
  then have w: "w = c # tl w" "rune_len w = rune_len s" "take (rune_len s) w = take (rune_len s) s"
    "drop (rune_len s) w = r"
    using rune_len_append [OF assms(1), of r] by (simp_all only: w_def [symmetric])
  have "unquote w = take (rune_len w) w @ unquote (drop (rune_len w) w)"
  proof -
    obtain u where u: "w = c # u" using w(1) by blast
    have "c \<noteq> backslash" "rune_len (c # u) \<noteq> 0" using assms w(2) \<open>s = c # t\<close> by (simp_all add: u)
    then show ?thesis unfolding u by (subst unquote.simps) simp
  qed
  then show ?thesis using w by (simp add: w_def [symmetric])
qed

text \<open>The escapes that \<open>escape_ascii\<close> writes, by cases.\<close>

lemma escape_ascii_cases:
  assumes "byte c < 128"
  obtains (short) d where "escape_ascii c = [backslash, d]" "simple_escape d = Some c" "d \<noteq> CHR ''u''"
  | (hex) "escape_ascii c =
      [backslash, CHR ''u'', CHR ''0'', CHR ''0'', hex_digit (byte c div 16), hex_digit (byte c mod 16)]"
  | (plain) "escape_ascii c = [c]" "32 \<le> byte c" "c \<noteq> CHR 0x22" "c \<noteq> backslash"
proof -
  consider "c = CHR 0x22" | "c = backslash" | "c = CHR 0x08" | "c = CHR 0x0C" | "c = CHR 0x0A" | "c = CHR 0x0D"
    | "c = CHR 0x09" | "c \<notin> {CHR 0x22, backslash, CHR 0x08, CHR 0x0C, CHR 0x0A, CHR 0x0D, CHR 0x09}" by blast
  then show thesis
  proof cases
    case 1
    then show ?thesis using short [of "CHR 0x22"] by (simp add: escape_ascii_def simple_escape_def backslash_def)
  next
    case 2
    then show ?thesis using short [of "backslash"] by (simp add: escape_ascii_def simple_escape_def backslash_def)
  next
    case 3
    then show ?thesis using short [of "CHR ''b''"] by (simp add: escape_ascii_def simple_escape_def backslash_def)
  next
    case 4
    then show ?thesis using short [of "CHR ''f''"] by (simp add: escape_ascii_def simple_escape_def backslash_def)
  next
    case 5
    then show ?thesis using short [of "CHR ''n''"] by (simp add: escape_ascii_def simple_escape_def backslash_def)
  next
    case 6
    then show ?thesis using short [of "CHR ''r''"] by (simp add: escape_ascii_def simple_escape_def backslash_def)
  next
    case 7
    then show ?thesis using short [of "CHR ''t''"] by (simp add: escape_ascii_def simple_escape_def backslash_def)
  next
    case 8
    then show ?thesis using hex plain by (cases "byte c < 32 \<or> c \<in> {CHR ''<'', CHR ''>'', CHR ''&''}")
        (simp_all add: escape_ascii_def)
  qed
qed

lemma unquote_escape_ascii:
  assumes "byte c < 128"
  shows "unquote (escape_ascii c @ s) = c # unquote s"
  using assms
proof (cases rule: escape_ascii_cases)
  case (short d)
  then show ?thesis by (simp add: unquote_simple)
next
  case hex
  have z: "hex_value CHR ''0'' = Some 0" by code_simp
  have "get_u4 (escape_ascii c) = Some (((0 * 16 + 0) * 16 + byte c div 16) * 16 + byte c mod 16)"
    unfolding hex using assms byte_bounds(1) [of c] by (intro get_u4_digits z) simp_all
  then have "get_u4 (escape_ascii c) = Some (byte c)" by simp
  then have "unquote (escape_ascii c @ s) = encode_rune (byte c) @ unquote s"
    using assms hex by (intro unquote_u4) simp_all
  then show ?thesis using assms by (simp add: encode_rune_def)
next
  case plain
  then show ?thesis using assms by (simp add: unquote_plain)
qed

lemma unquote_replacement: "unquote ([backslash] @ ''ufffd'' @ s) = replacement @ unquote s"
proof -
  have "get_u4 ([backslash] @ ''ufffd'') = Some 65533" by code_simp
  moreover have "encode_rune 65533 = replacement" by code_simp
  moreover have "unquote (([backslash] @ ''ufffd'') @ s) = encode_rune 65533 @ unquote s"
    by (rule unquote_u4 [OF calculation(1)]) simp_all
  ultimately show ?thesis by (simp only: append_assoc)
qed

lemma unquote_separator:
  assumes "line_separator [a, b, c]"
  shows "unquote ([backslash] @ ''u202'' @ [hex_digit (byte c mod 16)] @ s) = [a, b, c] @ unquote s"
proof -
  have "byte a = 226" "byte b = 128" "byte c = 168 \<or> byte c = 169"
    using assms by (auto simp: line_separator_def)
  then have bytes: "a = char_of (226 :: int)" "b = char_of (128 :: int)"
    "c = char_of (168 :: int) \<or> c = char_of (169 :: int)"
    using char_of_byte [of a] char_of_byte [of b] char_of_byte [of c] by metis+
  have "get_u4 ([backslash] @ ''u202'' @ [hex_digit (168 mod 16)]) = Some 8232"
    "get_u4 ([backslash] @ ''u202'' @ [hex_digit (169 mod 16)]) = Some 8233"
    "encode_rune 8232 = map char_of [226, 128, 168 :: int]"
    "encode_rune 8233 = map char_of [226, 128, 169 :: int]" by code_simp+
  note codes = this
  have "unquote (([backslash] @ ''u202'' @ [hex_digit (168 mod 16)]) @ s) = encode_rune 8232 @ unquote s"
    by (rule unquote_u4 [OF codes(1)]) simp_all
  moreover have "unquote (([backslash] @ ''u202'' @ [hex_digit (169 mod 16)]) @ s) = encode_rune 8233 @ unquote s"
    by (rule unquote_u4 [OF codes(2)]) simp_all
  ultimately show ?thesis
    using bytes(3) unfolding bytes(1,2) codes(3,4) append_assoc by (elim disjE) (simp_all add: byte_char_of)
qed

lemma json_escape_induct [case_names Nil ascii bad separator rune]:
  assumes "P []"
    and "\<And>c t. byte c < 128 \<Longrightarrow> json_escape (c # t) = escape_ascii c @ json_escape t \<Longrightarrow> P t \<Longrightarrow> P (c # t)"
    and "\<And>c t. 128 \<le> byte c \<Longrightarrow> rune_len (c # t) = 0 \<Longrightarrow>
      json_escape (c # t) = [backslash] @ ''ufffd'' @ json_escape t \<Longrightarrow> P t \<Longrightarrow> P (c # t)"
    and "\<And>a b c t. rune_len (a # b # c # t) = 3 \<Longrightarrow> line_separator [a, b, c] \<Longrightarrow>
      json_escape (a # b # c # t) = [backslash] @ ''u202'' @ [hex_digit (byte c mod 16)] @ json_escape t \<Longrightarrow>
      P t \<Longrightarrow> P (a # b # c # t)"
    and "\<And>s. rune_len s \<noteq> 0 \<Longrightarrow> 128 \<le> byte (hd s) \<Longrightarrow>
      json_escape s = take (rune_len s) s @ json_escape (drop (rune_len s) s) \<Longrightarrow>
      P (drop (rune_len s) s) \<Longrightarrow> P s"
  shows "P s"
proof (induction s rule: length_induct)
  case (1 s)
  show ?case
  proof (cases s)
    case (Cons c t)
    have IH: "P u" if "length u < length s" for u using 1 that by blast
    consider "byte c < 128" | "128 \<le> byte c" "rune_len s = 0"
      | "128 \<le> byte c" "rune_len s \<noteq> 0" "line_separator (take (rune_len s) s)"
      | "128 \<le> byte c" "rune_len s \<noteq> 0" "\<not> line_separator (take (rune_len s) s)" by linarith
    then show ?thesis
    proof cases
      case 1
      have "P t" by (rule IH) (simp add: Cons)
      moreover have "json_escape (c # t) = escape_ascii c @ json_escape t"
        using 1 by (simp add: json_escape.simps [of "c # t"])
      ultimately show ?thesis using assms(2) [OF 1] unfolding Cons by blast
    next
      case 2
      have "P t" by (rule IH) (simp add: Cons)
      moreover have "json_escape (c # t) = [backslash] @ ''ufffd'' @ json_escape t"
        using 2 by (simp add: json_escape.simps [of "c # t"] Cons)
      ultimately show ?thesis using assms(3) [OF 2(1)] 2(2) unfolding Cons by blast
    next
      case 3
      then obtain l where "map byte (take (rune_len s) s) = l" "length l = 3"
        unfolding line_separator_def by fastforce
      then have "length (take (rune_len s) s) = 3" by (metis length_map)
      with 3(2) obtain b d u where s: "s = c # b # d # u" "rune_len s = 3"
        using Cons by (cases rule: rune_len_cases) auto
      then have l: "rune_len (c # b # d # u) = 3" "line_separator [c, b, d]" using 3(3) by simp_all
      have "P u" by (rule IH) (simp add: s)
      moreover have "json_escape (c # b # d # u) =
          [backslash] @ ''u202'' @ [hex_digit (byte d mod 16)] @ json_escape u"
        using 3(1) l by (simp add: json_escape.simps [of "c # b # d # u"])
      ultimately show ?thesis using assms(4) [OF l] unfolding s(1) by blast
    next
      case 4
      have "P (drop (rune_len s) s)" by (rule IH) (use 4 Cons in simp)
      moreover have "json_escape s = take (rune_len s) s @ json_escape (drop (rune_len s) s)"
        using 4 by (subst json_escape.simps) (simp add: Cons)
      ultimately show ?thesis using assms(5) [OF 4(2)] 4(1) Cons by simp
    qed
  qed (simp add: assms(1))
qed

lemma to_utf8_rune:
  "rune_len s \<noteq> 0 \<Longrightarrow> to_utf8 s = take (rune_len s) s @ to_utf8 (drop (rune_len s) s)"
  by (cases s) (auto simp: to_utf8.simps [of "_ # _"])

lemma unquote_json_escape: "unquote (json_escape s) = to_utf8 s"
proof (induction s rule: json_escape_induct)
  case (ascii c t)
  then show ?case using to_utf8_rune [of "c # t"] by (simp add: unquote_escape_ascii)
next
  case (bad c t)
  have "unquote (json_escape (c # t)) = replacement @ to_utf8 t"
    using bad by (simp only: unquote_replacement)
  moreover have "to_utf8 (c # t) = replacement @ to_utf8 t"
    using bad(2) by (subst to_utf8.simps) simp
  ultimately show ?case by simp
next
  case (separator a b c t)
  then show ?case using to_utf8_rune [of "a # b # c # t"] by (simp only: unquote_separator) simp
next
  case (rune s)
  then have "hd s \<noteq> backslash" by (auto simp: backslash_def byte_def)
  with rune show ?case by (simp add: unquote_rune to_utf8_rune)
qed (simp_all add: json_escape.simps to_utf8.simps)

section \<open>Values: decoding undoes encoding\<close>

definition string_byte :: "char \<Rightarrow> bool" where
  "string_byte c \<longleftrightarrow> 32 \<le> byte c \<and> c \<noteq> CHR 0x22 \<and> c \<noteq> backslash"

lemma run_string_bytes:
  "list_all string_byte w \<Longrightarrow>
     json_run (Conf (InString k raw) st) (w @ s) = json_run (Conf (InString k (rev w @ raw)) st) s"
  by (induction w arbitrary: raw) (simp_all add: string_byte_def)

lemma run_u4:
  "list_all (\<lambda>c. hex_value c \<noteq> None) [a, b, c, d] \<Longrightarrow>
     json_run (Conf (InString k raw) st) (backslash # CHR ''u'' # a # b # c # d # s) =
       json_run (Conf (InString k (rev (backslash # CHR ''u'' # [a, b, c, d]) @ raw)) st) s"
  by (auto simp: backslash_def)

lemma high_string_byte: "128 \<le> byte c \<Longrightarrow> string_byte c"
  by (auto simp: string_byte_def backslash_def byte_def)

lemma run_escape_ascii:
  assumes "byte c < 128"
  shows "json_run (Conf (InString k raw) st) (escape_ascii c @ s) =
    json_run (Conf (InString k (rev (escape_ascii c) @ raw)) st) s"
  using assms
proof (cases rule: escape_ascii_cases)
  case (short d)
  then show ?thesis by (simp add: backslash_def)
next
  case hex
  have "hex_value CHR ''0'' \<noteq> None" by code_simp
  then have "list_all (\<lambda>c. hex_value c \<noteq> None)
      [CHR ''0'', CHR ''0'', hex_digit (byte c div 16), hex_digit (byte c mod 16)]"
    using assms byte_bounds [of c] by simp
  then show ?thesis using run_u4 unfolding hex by simp
next
  case plain
  then show ?thesis using run_string_bytes [of "[c]"] by (simp add: string_byte_def)
qed

lemma run_escape:
  "json_run (Conf (InString k raw) st) (json_escape t @ s) =
     json_run (Conf (InString k (rev (json_escape t) @ raw)) st) s"
proof (induction t arbitrary: raw rule: json_escape_induct)
  case (ascii c t)
  then show ?case by (simp add: run_escape_ascii)
next
  case (bad c t)
  have "list_all (\<lambda>c. hex_value c \<noteq> None) ''fffd''" by code_simp
  from run_u4 [OF this] show ?case unfolding bad(3) by (simp add: bad(4))
next
  case (separator a b c t)
  have "list_all (\<lambda>c. hex_value c \<noteq> None) ''202''" by code_simp
  then have "list_all (\<lambda>c. hex_value c \<noteq> None) [CHR ''2'', CHR ''0'', CHR ''2'', hex_digit (byte c mod 16)]"
    by simp
  from run_u4 [OF this] show ?case unfolding separator(3) by (simp add: separator(4))
next
  case (rune s')
  then obtain a u where "s' = a # u" by (cases s') auto
  then have "list_all string_byte (take (rune_len s') s')"
    using rune rune_len_high [of a _ u] by (auto simp: list_all_iff intro!: high_string_byte)
  from run_string_bytes [OF this] show ?case unfolding rune(3) by (simp add: rune(4))
qed (simp add: json_escape.simps)

lemma run_quote:
  "json_run (Conf (InString k []) st) (json_escape t @ CHR 0x22 # s) = json_run (end_string k (to_utf8 t) st) s"
  by (simp add: run_escape unquote_json_escape)

text \<open>The number literals of JSON.\<close>

fun num_run :: "num_state \<Rightarrow> string \<Rightarrow> num_state option" where
  "num_run n [] = Some n"
| "num_run n (c # w) = (case num_next n c of None \<Rightarrow> None | Some n' \<Rightarrow> num_run n' w)"

definition num_literal :: "string \<Rightarrow> bool" where
  "num_literal w =
     (case w of
        [] \<Rightarrow> False
      | c # u \<Rightarrow> (case num_start c of
            None \<Rightarrow> False
          | Some n \<Rightarrow> (case num_run n u of None \<Rightarrow> False | Some n' \<Rightarrow> num_done n')))"

text \<open>A value that fits the nesting limit at a depth, with proper number literals.\<close>

fun json_ok :: "int \<Rightarrow> json \<Rightarrow> bool" where
  "json_ok d (JNum w) \<longleftrightarrow> num_literal w"
| "json_ok d (JArr vs) \<longleftrightarrow> d < max_depth \<and> (\<forall>v \<in> set vs. json_ok (d + 1) v)"
| "json_ok d (JObj ms) \<longleftrightarrow> d < max_depth \<and> (\<forall>m \<in> set ms. json_ok (d + 1) (snd m))"
| "json_ok d v \<longleftrightarrow> True"

text \<open>What survives the encoding: strings with their ill-formed bytes replaced.\<close>

fun json_utf8 :: "json \<Rightarrow> json" where
  "json_utf8 (JStr s) = JStr (to_utf8 s)"
| "json_utf8 (JArr vs) = JArr (map json_utf8 vs)"
| "json_utf8 (JObj ms) = JObj (map (\<lambda>m. (to_utf8 (fst m), json_utf8 (snd m))) ms)"
| "json_utf8 v = v"

definition follow_byte :: "char \<Rightarrow> bool" where
  "follow_byte c \<longleftrightarrow> json_space c \<or> c \<in> {CHR '','', CHR '']'', CHR ''}''}"

definition follows :: "string \<Rightarrow> bool" where
  "follows s \<longleftrightarrow> (\<exists>c s'. s = c # s' \<and> follow_byte c)"

lemma num_next_follow:
  assumes "follow_byte c"
  shows "num_next n c = None"
proof -
  have "\<not> in_bytes 48 57 c \<and> \<not> in_bytes 49 57 c \<and> c \<notin> {CHR ''.'', CHR ''e'', CHR ''E'', CHR ''+'', CHR ''-'', CHR ''0''}"
    using assms by (auto simp: follow_byte_def json_space_def in_bytes_def byte_def)
  then show ?thesis by (cases n) auto
qed

lemma run_number:
  "num_run n w = Some n' \<Longrightarrow>
     json_run (Conf (InNumber n raw) st) (w @ s) = json_run (Conf (InNumber n' (rev w @ raw)) st) s"
  by (induction w arbitrary: n raw) (auto split: option.splits)

lemma resume_deliver:
  assumes "st \<noteq> []" and "follow_byte c"
  shows "json_run (resume c (deliver v st)) s = json_run (deliver v st) (c # s)"
proof -
  obtain f st' where "st = f # st'" using assms(1) by (cases st) auto
  then show ?thesis by (cases f) (auto simp: json_space_def)
qed

lemma num_start_not:
  "num_start c = Some n \<Longrightarrow> \<not> json_space c \<and> c \<noteq> CHR 0x22 \<and> c \<noteq> CHR ''{'' \<and> c \<noteq> CHR ''['' \<and> c \<noteq> CHR '']''"
  by (auto simp: num_start_def json_space_def in_bytes_def byte_def split: if_splits)

lemma run_num_literal:
  assumes "num_literal w" and "st \<noteq> []" and "follows s"
  shows "json_run (Conf BeginValue st) (w @ s) = json_run (deliver (JNum w) st) s"
proof -
  obtain c u n n' where w: "w = c # u" "num_start c = Some n" "num_run n u = Some n'" "num_done n'"
    using assms(1) by (auto simp: num_literal_def split: list.splits option.splits)
  obtain d s' where s: "s = d # s'" "follow_byte d"
    using assms(3) by (auto simp: follows_def)
  have "json_run (Conf BeginValue st) (w @ s) = json_run (Conf (InNumber n [c]) st) (u @ s)"
    using num_start_not [OF w(2)] by (simp add: w(1,2) begin_value_def)
  also have "\<dots> = json_run (resume d (deliver (JNum w) st)) s'"
    using s(2) w(4) by (simp add: run_number [OF w(3)] s(1) num_next_follow w(1))
  also have "\<dots> = json_run (deliver (JNum w) st) s"
    using resume_deliver [OF assms(2) s(2)] by (simp add: s(1))
  finally show ?thesis .
qed

subsection \<open>Layouts\<close>

text \<open>
  Both layouts of the encoder are one printer: \<open>nl\<close> is the white space at a depth, before
  an item and before a closing bracket, \<open>sp\<close> the white space after a colon.
\<close>

fun json_text :: "(nat \<Rightarrow> string) \<Rightarrow> string \<Rightarrow> nat \<Rightarrow> json \<Rightarrow> string" where
  "json_text nl sp d (JArr vs) =
     (if vs = [] then ''[]''
      else ''['' @ nl (Suc d) @ join_with (CHR '','' # nl (Suc d)) (map (json_text nl sp (Suc d)) vs)
        @ nl d @ '']'')"
| "json_text nl sp d (JObj ms) =
     (if ms = [] then ''{}''
      else ''{'' @ nl (Suc d) @
        join_with (CHR '','' # nl (Suc d))
          (map (\<lambda>m. json_quote (fst m) @ CHR '':'' # sp @ json_text nl sp (Suc d) (snd m)) ms)
        @ nl d @ ''}'')"
| "json_text nl sp d v = json_compact v"

lemma json_text_compact: "json_text (\<lambda>d. []) [] d v = json_compact v"
  by (induction v arbitrary: d) (auto cong: map_cong simp: snds.simps)

lemma json_text_indented: "json_text json_newline '' '' d v = json_indented d v"
proof (induction v arbitrary: d)
  case (JObj ms)
  then show ?case by (auto cong: map_cong simp: snds.simps)
qed (auto cong: map_cong)

locale layout =
  fixes nl :: "nat \<Rightarrow> string" and sp :: string
  assumes nl_space: "list_all json_space (nl d)" and sp_space: "list_all json_space sp"
begin

abbreviation lay :: "nat \<Rightarrow> json \<Rightarrow> string" where
  "lay \<equiv> json_text nl sp"

lemma run_spaces:
  "list_all json_space u \<Longrightarrow> q \<in> {BeginValue, BeginValueOrEmpty, BeginKeyOrEmpty, BeginKey, EndKey, EndValue} \<Longrightarrow>
     json_run (Conf q st) (u @ s) = json_run (Conf q st) s"
  by (induction u) auto

lemma follows_spaces: "list_all json_space u \<Longrightarrow> follow_byte c \<Longrightarrow> follows (u @ c # s)"
  by (cases u) (auto simp: follows_def follow_byte_def)

lemma follow_bytes [simp]: "follow_byte CHR '',''" "follow_byte CHR '']''" "follow_byte CHR ''}''"
  by (simp_all add: follow_byte_def)

text \<open>The first byte of a value tells it from the closing bracket and from white space.\<close>

lemma text_starts:
  assumes "json_ok k v"
  shows "\<exists>c u. lay d v = c # u \<and> \<not> json_space c \<and> c \<noteq> CHR '']''"
proof (cases v)
  case (JNum w)
  then show ?thesis
    using assms by (auto simp: num_literal_def dest: num_start_not split: list.splits option.splits)
qed (auto simp: json_quote_def json_space_def)

lemma run_empty_or_value:
  assumes "json_ok k v"
  shows "json_run (Conf BeginValueOrEmpty st) (lay d v @ s) = json_run (Conf BeginValue st) (lay d v @ s)"
  using text_starts [OF assms, of d] by auto

text \<open>What the induction shows of a value inside a container, and of one at the top.\<close>

definition reads :: "json \<Rightarrow> bool" where
  "reads v \<longleftrightarrow> (\<forall>d st s. json_ok (int (length st)) v \<longrightarrow> st \<noteq> [] \<and> follows s \<or> \<not> (\<exists>w. v = JNum w) \<longrightarrow>
     json_run (Conf BeginValue st) (lay d v @ s) = json_run (deliver (json_utf8 v) st) s)"

lemma readsD:
  "reads v \<Longrightarrow> json_ok (int (length st)) v \<Longrightarrow> st \<noteq> [] \<Longrightarrow> follows s \<Longrightarrow>
     json_run (Conf BeginValue st) (lay d v @ s) = json_run (deliver (json_utf8 v) st) s"
  by (simp add: reads_def)

lemma run_items:
  assumes "\<And>x. x \<in> set (v # vs) \<Longrightarrow> reads x"
    and "\<And>x. x \<in> set (v # vs) \<Longrightarrow> json_ok (int (length st) + 1) x"
  shows "json_run (Conf BeginValue (FArr acc # st))
      (join_with (CHR '','' # nl d) (map (lay d) (v # vs)) @ nl k @ CHR '']'' # s) =
    json_run (deliver (JArr (rev acc @ map json_utf8 (v # vs))) st) s"
  using assms
proof (induction vs arbitrary: v acc)
  case Nil
  have "json_run (Conf BeginValue (FArr acc # st)) (lay d v @ nl k @ CHR '']'' # s) =
      json_run (Conf EndValue (FArr (json_utf8 v # acc) # st)) (nl k @ CHR '']'' # s)"
    using readsD [of v "FArr acc # st" "nl k @ CHR '']'' # s"] Nil.prems follows_spaces [OF nl_space]
    by (simp add: add.commute)
  then show ?case by (simp add: run_spaces [OF nl_space] json_space_def end_value_def)
next
  case (Cons v' vs)
  let ?rest = "join_with (CHR '','' # nl d) (map (lay d) (v' # vs)) @ nl k @ CHR '']'' # s"
  have "json_run (Conf BeginValue (FArr acc # st)) (lay d v @ CHR '','' # nl d @ ?rest) =
      json_run (Conf EndValue (FArr (json_utf8 v # acc) # st)) (CHR '','' # nl d @ ?rest)"
    using readsD [of v "FArr acc # st" "CHR '','' # nl d @ ?rest"] Cons.prems
    by (simp add: add.commute follows_def del: join_with.simps list.map)
  also have "\<dots> = json_run (Conf BeginValue (FArr (json_utf8 v # acc) # st)) ?rest"
    by (simp add: json_space_def end_value_def run_spaces [OF nl_space] del: join_with.simps list.map)
  finally show ?case using Cons.IH [of v'] Cons.prems by simp
qed

definition member_text :: "nat \<Rightarrow> string \<times> json \<Rightarrow> string" where
  "member_text d m = json_quote (fst m) @ CHR '':'' # sp @ lay d (snd m)"

definition member_utf8 :: "string \<times> json \<Rightarrow> string \<times> json" where
  "member_utf8 m = (to_utf8 (fst m), json_utf8 (snd m))"

lemma run_member:
  assumes "reads (snd m)" and "json_ok (int (length st) + 1) (snd m)" and "follows s"
    and "q \<in> {BeginKey, BeginKeyOrEmpty}"
  shows "json_run (Conf q (FObj ms # st)) (member_text d m @ s) =
    json_run (Conf EndValue (FObj (member_utf8 m # ms) # st)) s"
proof -
  have "json_run (Conf q (FObj ms # st)) (member_text d m @ s) =
      json_run (Conf (InString True []) (FObj ms # st))
        (json_escape (fst m) @ CHR 0x22 # CHR '':'' # sp @ lay d (snd m) @ s)"
    using assms(4) by (auto simp: member_text_def json_quote_def begin_key_def json_space_def)
  also have "\<dots> = json_run (Conf BeginValue (FKey ms (to_utf8 (fst m)) # st)) (lay d (snd m) @ s)"
    by (simp add: run_quote end_string_def json_space_def run_spaces [OF sp_space])
  also have "\<dots> = json_run (Conf EndValue (FObj (member_utf8 m # ms) # st)) s"
    using readsD [OF assms(1), of "FKey ms (to_utf8 (fst m)) # st" s] assms(2,3)
    by (simp add: member_utf8_def add.commute)
  finally show ?thesis .
qed

lemma run_members:
  assumes "\<And>x. x \<in> set (m # ms) \<Longrightarrow> reads (snd x)"
    and "\<And>x. x \<in> set (m # ms) \<Longrightarrow> json_ok (int (length st) + 1) (snd x)"
    and "q \<in> {BeginKey, BeginKeyOrEmpty}"
  shows "json_run (Conf q (FObj acc # st))
      (join_with (CHR '','' # nl d) (map (member_text d) (m # ms)) @ nl k @ CHR ''}'' # s) =
    json_run (deliver (JObj (rev acc @ map member_utf8 (m # ms))) st) s"
  using assms
proof (induction ms arbitrary: m acc q)
  case Nil
  then show ?case
    using run_member [of m st "nl k @ CHR ''}'' # s" q acc] follows_spaces [OF nl_space]
    by (simp add: run_spaces [OF nl_space] json_space_def end_value_def)
next
  case (Cons m' ms)
  let ?rest = "join_with (CHR '','' # nl d) (map (member_text d) (m' # ms)) @ nl k @ CHR ''}'' # s"
  have "json_run (Conf q (FObj acc # st)) (member_text d m @ CHR '','' # nl d @ ?rest) =
      json_run (Conf EndValue (FObj (member_utf8 m # acc) # st)) (CHR '','' # nl d @ ?rest)"
    using run_member [of m st "CHR '','' # nl d @ ?rest" q acc] Cons.prems
    by (simp add: follows_def del: join_with.simps list.map)
  also have "\<dots> = json_run (Conf BeginKey (FObj (member_utf8 m # acc) # st)) ?rest"
    by (simp add: json_space_def end_value_def run_spaces [OF nl_space] del: join_with.simps list.map)
  finally show ?case using Cons.IH [of m' BeginKey] Cons.prems by simp
qed

lemma reads_all: "reads v"
proof (induction v)
  case (JNum w)
  then show ?case by (simp add: reads_def run_num_literal)
next
  case (JStr t)
  show ?case
    using run_quote [of False]
    by (simp add: reads_def json_quote_def begin_value_def json_space_def end_string_def num_start_def)
next
  case (JArr vs)
  show ?case
  proof (cases vs)
    case Nil
    then show ?thesis
      by (simp add: reads_def begin_value_def json_space_def open_frame_def end_value_def)
  next
    case (Cons v vs')
    show ?thesis
      unfolding reads_def
    proof (intro allI impI)
      fix d and st :: "jframe list" and s
      assume ok: "json_ok (int (length st)) (JArr vs)"
      let ?items = "join_with (CHR '','' # nl (Suc d)) (map (lay (Suc d)) vs)"
      have "json_run (Conf BeginValue st) (lay d (JArr vs) @ s) =
          json_run (Conf BeginValueOrEmpty (FArr [] # st)) (?items @ nl d @ CHR '']'' # s)"
        using ok by (simp add: Cons begin_value_def json_space_def open_frame_def run_spaces [OF nl_space])
      also have "\<dots> = json_run (Conf BeginValue (FArr [] # st)) (?items @ nl d @ CHR '']'' # s)"
        using ok run_empty_or_value [of "int (length st) + 1" v] by (cases vs') (simp_all add: Cons)
      also have "\<dots> = json_run (deliver (JArr (rev [] @ map json_utf8 vs)) st) s"
        using ok JArr unfolding Cons by (intro run_items) auto
      finally show "json_run (Conf BeginValue st) (lay d (JArr vs) @ s) =
          json_run (deliver (json_utf8 (JArr vs)) st) s" by simp
    qed
  qed
next
  case (JObj ms)
  show ?case
  proof (cases ms)
    case Nil
    then show ?thesis
      by (simp add: reads_def begin_value_def json_space_def open_frame_def end_value_def)
  next
    case (Cons m ms')
    show ?thesis
      unfolding reads_def
    proof (intro allI impI)
      fix d and st :: "jframe list" and s
      assume ok: "json_ok (int (length st)) (JObj ms)"
      have "json_run (Conf BeginValue st) (lay d (JObj ms) @ s) =
          json_run (Conf BeginKeyOrEmpty (FObj [] # st))
            (join_with (CHR '','' # nl (Suc d)) (map (member_text (Suc d)) ms) @ nl d @ CHR ''}'' # s)"
        using ok
        by (simp add: Cons begin_value_def json_space_def open_frame_def member_text_def [abs_def] run_spaces [OF nl_space])
      also have "\<dots> = json_run (deliver (JObj (rev [] @ map member_utf8 ms)) st) s"
        using ok JObj unfolding Cons by (intro run_members) (auto simp: snds.simps)
      finally show "json_run (Conf BeginValue st) (lay d (JObj ms) @ s) =
          json_run (deliver (json_utf8 (JObj ms)) st) s" by (simp add: member_utf8_def [abs_def])
    qed
  qed
qed (auto simp: reads_def begin_value_def json_space_def num_start_def in_bytes_def byte_def literal_start_def)

lemma run_top:
  assumes "json_ok 0 v" and "\<nexists>w. v = JNum w"
  shows "json_run (Conf BeginValue []) (lay d v @ s) = Some (json_utf8 v, s)"
  using reads_all [of v] assms by (simp add: reads_def)

end

interpretation compact_layout: layout "\<lambda>d. []" "[]"
  by unfold_locales simp_all

interpretation indented_layout: layout json_newline "'' ''"
proof
  show "list_all json_space (json_newline d)" for d
    by (induction d) (simp_all add: json_newline_def json_space_def)
qed (simp add: json_space_def)

text \<open>What \<open>Decoder.Decode\<close> and \<open>Unmarshal\<close> make of an encoded object or array.\<close>

lemma json_first_encode:
  assumes "json_ok 0 v" and "\<nexists>w. v = JNum w"
  shows "json_first (json_encode v) = Some (json_utf8 v)" and "json_whole (json_encode v) = Some (json_utf8 v)"
  using compact_layout.run_top [OF assms, of 0 "[CHR 0x0A]"]
  by (simp_all add: json_text_compact json_first_def json_whole_def json_encode_def json_space_def)

lemma json_whole_indented:
  assumes "json_ok 0 v" and "\<nexists>w. v = JNum w"
  shows "json_whole (json_indented 0 v @ [CHR 0x0A]) = Some (json_utf8 v)"
  using indented_layout.run_top [OF assms, of 0 "[CHR 0x0A]"]
  by (simp add: json_text_indented json_whole_def json_space_def)

text \<open>ASCII text survives as it is.\<close>

definition ascii_text :: "string \<Rightarrow> bool" where
  "ascii_text s \<longleftrightarrow> list_all (\<lambda>c. byte c < 128) s"

lemma to_utf8_ascii: "ascii_text s \<Longrightarrow> to_utf8 s = s"
  by (induction s) (simp_all add: ascii_text_def to_utf8.simps)

lemma to_utf8_idem: "to_utf8 (to_utf8 s) = to_utf8 s"
proof (induction s rule: length_induct)
  case (1 s)
  show ?case
  proof (cases s)
    case (Cons c t)
    show ?thesis
    proof (cases "rune_len s = 0")
      case True
      have r: "rune_len (replacement @ u) = 3" "take 3 (replacement @ u) = replacement"
        "drop 3 (replacement @ u) = u" for u
        by (simp_all add: replacement_def rune_len.simps(2) rune2_def rune3_def cont_byte_def in_bytes_def byte_char_of)
      have "to_utf8 s = replacement @ to_utf8 t"
        using True by (subst to_utf8.simps) (simp add: Cons)
      moreover have "to_utf8 (replacement @ to_utf8 t) = replacement @ to_utf8 (to_utf8 t)"
        using to_utf8_rune [of "replacement @ to_utf8 t"] unfolding r by simp
      ultimately show ?thesis using 1 by (simp add: Cons)
    next
      case False
      let ?n = "rune_len s"
      have l: "?n \<le> length s" using False by (cases rule: rune_len_cases) auto
      have e: "to_utf8 s = take ?n s @ to_utf8 (drop ?n s)" by (rule to_utf8_rune [OF False])
      have "to_utf8 (take ?n s @ u) = take ?n s @ to_utf8 u" for u
        using to_utf8_rune [of "take ?n s @ u"] rune_len_append [OF False, of u] False l by simp
      moreover have "to_utf8 (to_utf8 (drop ?n s)) = to_utf8 (drop ?n s)"
        using 1 False Cons by simp
      ultimately show ?thesis by (simp only: e)
    qed
  qed (simp add: to_utf8.simps)
qed

end
