(* ===== verification/Http.thy ===== *)
theory Http
  imports Go_Json
begin

text \<open>
  The parts of \<open>net/http\<close>, \<open>encoding/base64\<close> and \<open>encoding/hex\<close> that the
  handlers use: requests with the role their context carries, responses, \<open>http.Error\<close>,
  Basic credentials. Facts: the credentials of a header that a client wrote are read back
  exactly, and what a set header or an error leaves in a response.
\<close>

section \<open>Requests and responses\<close>

text \<open>
  A request as the handlers see it: \<open>rq_path\<close> is \<open>URL.Path\<close>, \<open>rq_escaped\<close> is
  \<open>URL.EscapedPath()\<close>, and \<open>rq_role\<close> is the context value that the authentication
  attaches. \<open>rq_header\<close> gives the first value of any other header by its canonical name,
  the empty string for one that is absent.
\<close>

record request =
  rq_method :: string
  rq_path :: string
  rq_escaped :: string
  rq_authorization :: string
  rq_body :: string
  rq_role :: "string option"
  rq_header :: "string \<Rightarrow> string"

record response =
  rs_status :: int
  rs_headers :: "string \<rightharpoonup> string"
  rs_body :: string

definition new_response :: response where
  "new_response = \<lparr>rs_status = 200, rs_headers = Map.empty, rs_body = []\<rparr>"

definition header_set :: "string \<Rightarrow> string \<Rightarrow> response \<Rightarrow> response" where
  "header_set k v r = r\<lparr>rs_headers := (rs_headers r)(k \<mapsto> v)\<rparr>"

definition write_header :: "int \<Rightarrow> response \<Rightarrow> response" where
  "write_header code r = r\<lparr>rs_status := code\<rparr>"

definition write_body :: "string \<Rightarrow> response \<Rightarrow> response" where
  "write_body b r = r\<lparr>rs_body := rs_body r @ b\<rparr>"

definition http_error :: "string \<Rightarrow> int \<Rightarrow> response \<Rightarrow> response" where
  "http_error msg code r =
     write_body (msg @ [CHR 0x0A])
       (write_header code
         (header_set ''X-Content-Type-Options'' ''nosniff''
           (header_set ''Content-Type'' ''text/plain; charset=utf-8'' r)))"

lemmas response_defs = new_response_def header_set_def write_header_def write_body_def http_error_def

lemma rs_status_simps [simp]:
  "rs_status new_response = 200"
  "rs_status (header_set k v r) = rs_status r"
  "rs_status (write_header code r) = code"
  "rs_status (write_body b r) = rs_status r"
  "rs_status (http_error msg code r) = code"
  by (simp_all add: response_defs)

lemma rs_body_simps [simp]:
  "rs_body new_response = []"
  "rs_body (header_set k v r) = rs_body r"
  "rs_body (write_header code r) = rs_body r"
  "rs_body (write_body b r) = rs_body r @ b"
  "rs_body (http_error msg code r) = rs_body r @ msg @ [CHR 0x0A]"
  by (simp_all add: response_defs)

lemma rs_headers_simps [simp]:
  "rs_headers new_response = Map.empty"
  "rs_headers (header_set k v r) = (rs_headers r)(k \<mapsto> v)"
  "rs_headers (write_header code r) = rs_headers r"
  "rs_headers (write_body b r) = rs_headers r"
  "rs_headers (http_error msg code r) = (rs_headers r)
     (''Content-Type'' \<mapsto> ''text/plain; charset=utf-8'', ''X-Content-Type-Options'' \<mapsto> ''nosniff'')"
  by (simp_all add: response_defs)

section \<open>Base64 and hexadecimal\<close>

definition b64_value :: "char \<Rightarrow> int option" where
  "b64_value c =
     (if in_bytes 65 90 c then Some (byte c - 65)
      else if in_bytes 97 122 c then Some (byte c - 71)
      else if in_bytes 48 57 c then Some (byte c + 4)
      else if c = CHR ''+'' then Some 62 else if c = CHR ''/'' then Some 63 else None)"

definition b64_char :: "int \<Rightarrow> char" where
  "b64_char v =
     (if v < 26 then char_of (65 + v) else if v < 52 then char_of (71 + v)
      else if v < 62 then char_of (v - 4) else if v = 62 then CHR ''+'' else CHR ''/'')"

text \<open>The quanta of four characters; only the last may be padded, and the spare bits are ignored.\<close>

fun b64_quanta :: "string \<Rightarrow> string option" where
  "b64_quanta [] = Some []"
| "b64_quanta (a # b # c # d # s) =
     (case (b64_value a, b64_value b) of
        (Some p, Some q) \<Rightarrow>
          if c = CHR ''='' then
            (if d = CHR ''='' \<and> s = [] then Some [char_of (p * 4 + q div 16)] else None)
          else (case b64_value c of
              None \<Rightarrow> None
            | Some r \<Rightarrow>
                if d = CHR ''='' then
                  (if s = [] then Some [char_of (p * 4 + q div 16), char_of (q mod 16 * 16 + r div 4)] else None)
                else (case b64_value d of
                    None \<Rightarrow> None
                  | Some t \<Rightarrow>
                      map_option (\<lambda>rest. char_of (p * 4 + q div 16) # char_of (q mod 16 * 16 + r div 4) #
                        char_of (r mod 4 * 64 + t) # rest) (b64_quanta s)))
      | _ \<Rightarrow> None)"
| "b64_quanta s = None"

definition base64_decode :: "string \<Rightarrow> string option" where
  "base64_decode s = b64_quanta (filter (\<lambda>c. c \<noteq> CHR 0x0A \<and> c \<noteq> CHR 0x0D) s)"

fun base64_encode :: "string \<Rightarrow> string" where
  "base64_encode [] = []"
| "base64_encode [x] = [b64_char (byte x div 4), b64_char (byte x mod 4 * 16), CHR ''='', CHR ''='']"
| "base64_encode [x, y] =
     [b64_char (byte x div 4), b64_char (byte x mod 4 * 16 + byte y div 16), b64_char (byte y mod 16 * 4), CHR ''='']"
| "base64_encode (x # y # z # s) =
     b64_char (byte x div 4) # b64_char (byte x mod 4 * 16 + byte y div 16) #
     b64_char (byte y mod 16 * 4 + byte z div 64) # b64_char (byte z mod 64) # base64_encode s"

definition hex_encode :: "string \<Rightarrow> string" where
  "hex_encode s = concat (map (\<lambda>c. [hex_digit (byte c div 16), hex_digit (byte c mod 16)]) s)"

section \<open>Basic credentials\<close>

definition cut_at :: "char \<Rightarrow> string \<Rightarrow> (string \<times> string) option" where
  "cut_at c s = (case index_byte s c of None \<Rightarrow> None | Some i \<Rightarrow> Some (take i s, drop (Suc i) s))"

definition BasicAuth :: "request \<Rightarrow> (string \<times> string) option" where
  "BasicAuth rq =
     (let auth = rq_authorization rq in
      if auth = [] then None
      else if length auth < 6 \<or> map lower_byte (take 6 auth) \<noteq> ''basic '' then None
      else case base64_decode (drop 6 auth) of
          None \<Rightarrow> None
        | Some cs \<Rightarrow> cut_at CHR '':'' cs)"

definition basic_header :: "string \<Rightarrow> string \<Rightarrow> string" where
  "basic_header user pw = ''Basic '' @ base64_encode (user @ CHR '':'' # pw)"

section \<open>Facts\<close>

lemma b64_value_char [simp]:
  assumes "0 \<le> v" and "v < 64"
  shows "b64_value (b64_char v) = Some v"
proof -
  consider "v < 26" | "26 \<le> v" "v < 52" | "52 \<le> v" "v < 62" | "v = 62" | "v = 63" using assms by linarith
  then show ?thesis
    using assms by cases (simp_all add: b64_value_def b64_char_def in_bytes_def byte_char_of, code_simp+)
qed

lemma b64_value_special: "b64_value CHR ''='' = None" "b64_value CHR 0x0A = None" "b64_value CHR 0x0D = None"
  by code_simp+

lemma b64_char_not_special:
  "0 \<le> v \<Longrightarrow> v < 64 \<Longrightarrow> b64_char v \<noteq> CHR ''='' \<and> b64_char v \<noteq> CHR 0x0A \<and> b64_char v \<noteq> CHR 0x0D"
  using b64_value_char [of v] b64_value_special by (metis option.distinct(1))

lemma byte_parts:
  "byte x div 4 < 64" "byte x mod 4 \<le> 3" "byte x div 16 < 16" "byte x mod 16 \<le> 15" "byte x div 64 < 4"
  "0 \<le> byte x div 4" "0 \<le> byte x div 16" "0 \<le> byte x div 64" "0 \<le> byte x mod 4" "0 \<le> byte x mod 16"
  "0 \<le> byte x mod 64" "byte x mod 64 < 64"
proof -
  define n where "n = byte x"
  then have n: "0 \<le> n" "n < 256" using byte_bounds [of x] by simp_all
  then have "n div 4 < 64 \<and> n mod 4 \<le> 3 \<and> n div 16 < 16 \<and> n mod 16 \<le> 15 \<and> n div 64 < 4 \<and>
      0 \<le> n div 4 \<and> 0 \<le> n div 16 \<and> 0 \<le> n div 64 \<and> 0 \<le> n mod 4 \<and> 0 \<le> n mod 16 \<and>
      0 \<le> n mod 64 \<and> n mod 64 < 64"
    by (intro conjI) presburger+
  then show "byte x div 4 < 64" "byte x mod 4 \<le> 3" "byte x div 16 < 16" "byte x mod 16 \<le> 15" "byte x div 64 < 4"
    "0 \<le> byte x div 4" "0 \<le> byte x div 16" "0 \<le> byte x div 64" "0 \<le> byte x mod 4" "0 \<le> byte x mod 16"
    "0 \<le> byte x mod 64" "byte x mod 64 < 64"
    unfolding n_def by blast+
qed

lemma b64_bounds:
  "byte x div 4 < 64" "byte x mod 4 * 16 < 64" "byte x mod 4 * 16 + byte y div 16 < 64"
  "byte y mod 16 * 4 < 64" "byte y mod 16 * 4 + byte z div 64 < 64" "byte z mod 64 < 64"
  "0 \<le> byte x div 4" "0 \<le> byte x mod 4 * 16" "0 \<le> byte x mod 4 * 16 + byte y div 16"
  "0 \<le> byte y mod 16 * 4" "0 \<le> byte y mod 16 * 4 + byte z div 64" "0 \<le> byte z mod 64"
  using byte_parts(1-4,6-10) [of x] byte_parts(3,4,7,10) [of y] byte_parts(5,8,11,12) [of z] by linarith+

lemma byte_shifts:
  "byte y div 16 div 16 = 0" "byte y div 16 mod 16 = byte y div 16"
  "byte z div 64 div 4 = 0" "byte z div 64 mod 4 = byte z div 64"
  by (rule div_pos_pos_trivial mod_pos_pos_trivial, rule byte_parts, rule byte_parts)+

lemma b64_quanta_encode: "b64_quanta (base64_encode s) = Some s"
  by (induction s rule: base64_encode.induct)
    (simp_all add: b64_bounds byte_shifts b64_char_not_special b64_value_special)

lemma base64_encode_no_newline: "filter (\<lambda>c. c \<noteq> CHR 0x0A \<and> c \<noteq> CHR 0x0D) (base64_encode s) = base64_encode s"
  by (induction s rule: base64_encode.induct) (simp_all add: b64_bounds b64_char_not_special)

lemma base64_decode_encode [simp]: "base64_decode (base64_encode s) = Some s"
  by (simp add: base64_decode_def base64_encode_no_newline b64_quanta_encode)

lemma basic_auth_header:
  assumes "CHR '':'' \<notin> set user" and "rq_authorization rq = basic_header user pw"
  shows "BasicAuth rq = Some (user, pw)"
proof -
  have "map lower_byte ''Basic '' = ''basic ''" by code_simp
  then show ?thesis
    using assms by (simp add: BasicAuth_def basic_header_def cut_at_def Let_def)
qed

text \<open>A user name that the credentials deliver never holds a colon.\<close>

lemma BasicAuth_user: "BasicAuth rq = Some (user, pw) \<Longrightarrow> CHR '':'' \<notin> set user"
  by (auto simp: BasicAuth_def cut_at_def Let_def index_byte_Some split: if_splits option.splits)

lemma length_hex_encode: "length (hex_encode s) = 2 * length s"
  by (induction s) (simp_all add: hex_encode_def)

lemma hex_digit_inj: "0 \<le> d \<Longrightarrow> d < 16 \<Longrightarrow> 0 \<le> e \<Longrightarrow> e < 16 \<Longrightarrow> hex_digit d = hex_digit e \<Longrightarrow> d = e"
  using hex_value_digit by (metis option.inject)

lemma hex_encode_inj: "hex_encode s = hex_encode t \<Longrightarrow> s = t"
proof (induction s arbitrary: t)
  case Nil
  then show ?case using length_hex_encode [of t] by (simp add: hex_encode_def)
next
  case (Cons c s)
  then obtain d u where t: "t = d # u"
    using length_hex_encode [of t] by (cases t) (simp_all add: hex_encode_def)
  have "byte c div 16 = byte d div 16" "byte c mod 16 = byte d mod 16"
    using Cons.prems byte_bounds [of c] byte_bounds [of d] unfolding t
    by (auto simp: hex_encode_def intro: hex_digit_inj)
  then have "byte c = byte d" by presburger
  then have "c = d" using char_of_byte by metis
  with Cons show ?case unfolding t by (simp add: hex_encode_def)
qed

end
