(* ===== verification/Authz.thy ===== *)
theory Authz
  imports Http
begin

text \<open>
  \<open>internal/authz\<close>: the wire types of the helper's socket (\<open>protocol.go\<close>), the
  calls over it (\<open>client.go\<close>), the cache of successful authentications
  (\<open>cache.go\<close>) and the middleware (\<open>middleware.go\<close>). Facts: a request on the wire
  decodes to the operation and arguments that were sent; nobody passes without credentials
  the helper vouched for within the last five minutes; the log lines do not depend on the
  password.

  The helper behind the socket, the SHA-256 digest and the text of a decoding error are
  arguments of the definitions.
\<close>

section \<open>Wire types\<close>

record authRequest =
  aq_Op :: string
  aq_Username :: string
  aq_Password :: string
  aq_SSID :: string
  aq_PSK :: string

definition op_request :: "string \<Rightarrow> authRequest" where
  "op_request op = \<lparr>aq_Op = op, aq_Username = [], aq_Password = [], aq_SSID = [], aq_PSK = []\<rparr>"

record wifiNetwork =
  wf_SSID :: string
  wf_PSK :: string

definition zero_wifiNetwork :: wifiNetwork where
  "zero_wifiNetwork = \<lparr>wf_SSID = [], wf_PSK = []\<rparr>"

record authResponse =
  ar_Ok :: bool
  ar_Username :: string
  ar_Role :: string
  ar_Error :: string
  ar_Networks :: "wifiNetwork list"

definition zero_authResponse :: authResponse where
  "zero_authResponse = \<lparr>ar_Ok = False, ar_Username = [], ar_Role = [], ar_Error = [], ar_Networks = []\<rparr>"

text \<open>A string field tagged \<open>omitempty\<close>.\<close>

definition omit_empty :: "string \<Rightarrow> string \<Rightarrow> (string \<times> json) list" where
  "omit_empty name v = (if v = [] then [] else [(name, JStr v)])"

definition authRequest_json :: "authRequest \<Rightarrow> json" where
  "authRequest_json r =
     JObj ((''op'', JStr (aq_Op r)) # omit_empty ''username'' (aq_Username r) @
       omit_empty ''password'' (aq_Password r) @ omit_empty ''ssid'' (aq_SSID r) @ omit_empty ''psk'' (aq_PSK r))"

definition network_field :: "string \<Rightarrow> json \<Rightarrow> wifiNetwork \<Rightarrow> wifiNetwork option" where
  "network_field k v n =
     (if k = ''ssid'' then map_option (\<lambda>s. n\<lparr>wf_SSID := s\<rparr>) (decode_string v (wf_SSID n))
      else if k = ''psk'' then map_option (\<lambda>s. n\<lparr>wf_PSK := s\<rparr>) (decode_string v (wf_PSK n))
      else Some n)"

definition response_field :: "string \<Rightarrow> json \<Rightarrow> authResponse \<Rightarrow> authResponse option" where
  "response_field k v r =
     (if k = ''ok'' then map_option (\<lambda>b. r\<lparr>ar_Ok := b\<rparr>) (decode_bool v (ar_Ok r))
      else if k = ''username'' then map_option (\<lambda>s. r\<lparr>ar_Username := s\<rparr>) (decode_string v (ar_Username r))
      else if k = ''role'' then map_option (\<lambda>s. r\<lparr>ar_Role := s\<rparr>) (decode_string v (ar_Role r))
      else if k = ''error'' then map_option (\<lambda>s. r\<lparr>ar_Error := s\<rparr>) (decode_string v (ar_Error r))
      else if k = ''networks'' then
        map_option (\<lambda>ns. r\<lparr>ar_Networks := ns\<rparr>)
          (decode_list (decode_struct network_field) zero_wifiNetwork v (ar_Networks r))
      else Some r)"

definition decode_response :: "string \<Rightarrow> authResponse option" where
  "decode_response s =
     (case json_first s of None \<Rightarrow> None | Some v \<Rightarrow> decode_struct response_field v zero_authResponse)"

section \<open>Calls over the socket\<close>

text \<open>
  What a connection does: dialling may fail, writing the request may fail, or the peer
  writes some bytes before the stream ends.
\<close>

datatype helper_outcome = DialFailed go_error | SendFailed go_error | Replied string

record helper =
  hp_call :: "string \<Rightarrow> string \<Rightarrow> helper_outcome"
  hp_decode_error :: "string \<Rightarrow> go_error"
  hp_quote :: "string \<Rightarrow> string"

text \<open>What handlers do besides answering: bytes sent, log lines, and collectors' effects.\<close>

datatype 'x effect = SocketSend string string | LogPrintf string "string list" | Collector 'x

definition callHelper :: "helper \<Rightarrow> string \<Rightarrow> string \<Rightarrow> string \<Rightarrow> (go_error + authResponse) \<times> 'x effect list" where
  "callHelper hp socketPath username password =
     (let req = json_encode (authRequest_json
            ((op_request ''auth'')\<lparr>aq_Username := username, aq_Password := password\<rparr>)) in
      case hp_call hp socketPath req of
        DialFailed e \<Rightarrow> (Inl (Wrap ''auth socket unavailable: '' e), [])
      | SendFailed e \<Rightarrow> (Inl (Wrap ''encode auth request: '' e), [SocketSend socketPath req])
      | Replied bytes \<Rightarrow>
          ((case decode_response bytes of
              None \<Rightarrow> Inl (Wrap ''decode auth response: '' (hp_decode_error hp bytes))
            | Some resp \<Rightarrow> Inr resp), [SocketSend socketPath req]))"

definition bool_text :: "bool \<Rightarrow> string" where
  "bool_text b = (if b then ''true'' else ''false'')"

definition callSocket :: "helper \<Rightarrow> string \<Rightarrow> authRequest \<Rightarrow> (go_error + authResponse) \<times> 'x effect list" where
  "callSocket hp socketPath req =
     (let bytes = json_encode (authRequest_json req) in
      case hp_call hp socketPath bytes of
        DialFailed e \<Rightarrow>
          (Inl (Wrap ''auth socket unavailable: '' e),
           [LogPrintf ''authz: op=%q dial failed: %v'' [aq_Op req, err_text (hp_quote hp) e]])
      | SendFailed e \<Rightarrow>
          (Inl (Wrap ''encode op request: '' e),
           [SocketSend socketPath bytes,
            LogPrintf ''authz: op=%q encode failed: %v'' [aq_Op req, err_text (hp_quote hp) e]])
      | Replied reply \<Rightarrow>
          (case decode_response reply of
             None \<Rightarrow>
               (Inl (Wrap ''decode op response: '' (hp_decode_error hp reply)),
                [SocketSend socketPath bytes,
                 LogPrintf ''authz: op=%q decode response failed: %v''
                   [aq_Op req, err_text (hp_quote hp) (hp_decode_error hp reply)]])
           | Some resp \<Rightarrow>
               (Inr resp,
                [SocketSend socketPath bytes,
                 LogPrintf ''authz: op=%q result ok=%v error=%q'' [aq_Op req, bool_text (ar_Ok resp), ar_Error resp]])))"

definition CallOp :: "helper \<Rightarrow> string \<Rightarrow> string \<Rightarrow> (go_error + bool \<times> string) \<times> 'x effect list" where
  "CallOp hp socketPath op =
     (let (r, effs) = callSocket hp socketPath (op_request op) in
      ((case r of Inl err \<Rightarrow> Inl err | Inr resp \<Rightarrow> Inr (ar_Ok resp, ar_Error resp)),
       LogPrintf ''authz: sending op=%q to helper at %s'' [op, socketPath] # effs))"

definition CallWifiList :: "helper \<Rightarrow> string \<Rightarrow> (go_error + wifiNetwork list) \<times> 'x effect list" where
  "CallWifiList hp socketPath =
     (let (r, effs) = callSocket hp socketPath (op_request ''wifi_list'');
          log0 = LogPrintf ''authz: sending op=%q to helper at %s'' [''wifi_list'', socketPath] in
      case r of
        Inl err \<Rightarrow> (Inl err, log0 # effs)
      | Inr resp \<Rightarrow>
          if \<not> ar_Ok resp then (Inl (NewError (ar_Error resp)), log0 # effs)
          else (Inr (map (\<lambda>n. \<lparr>wf_SSID = wf_SSID n, wf_PSK = wf_PSK n\<rparr>) (ar_Networks resp)),
                log0 # effs @ [LogPrintf ''authz: wifi_list returned %d network(s)''
                  [show_nat (length (ar_Networks resp))]]))"

text \<open>The three calls that only succeed or fail.\<close>

definition checked_call :: "helper \<Rightarrow> string \<Rightarrow> authRequest \<Rightarrow> go_error option \<times> 'x effect list" where
  "checked_call hp socketPath req =
     (let (r, effs) = callSocket hp socketPath req in
      ((case r of
          Inl err \<Rightarrow> Some err
        | Inr resp \<Rightarrow> if \<not> ar_Ok resp then Some (NewError (ar_Error resp)) else None), effs))"

definition CallWifiAdd :: "helper \<Rightarrow> string \<Rightarrow> string \<Rightarrow> string \<Rightarrow> go_error option \<times> 'x effect list" where
  "CallWifiAdd hp socketPath ssid psk =
     (let (r, effs) = checked_call hp socketPath ((op_request ''wifi_add'')\<lparr>aq_SSID := ssid, aq_PSK := psk\<rparr>) in
      (r, LogPrintf ''authz: sending op=%q ssid=%q to helper at %s'' [''wifi_add'', ssid, socketPath] # effs))"

definition CallWifiRemove :: "helper \<Rightarrow> string \<Rightarrow> string \<Rightarrow> go_error option \<times> 'x effect list" where
  "CallWifiRemove hp socketPath ssid =
     (let (r, effs) = checked_call hp socketPath ((op_request ''wifi_remove'')\<lparr>aq_SSID := ssid\<rparr>) in
      (r, LogPrintf ''authz: sending op=%q ssid=%q to helper at %s'' [''wifi_remove'', ssid, socketPath] # effs))"

definition CallWifiReload :: "helper \<Rightarrow> string \<Rightarrow> go_error option \<times> 'x effect list" where
  "CallWifiReload hp socketPath =
     (let (r, effs) = checked_call hp socketPath (op_request ''wifi_reload'') in
      (r, LogPrintf ''authz: sending op=%q to helper at %s'' [''wifi_reload'', socketPath] # effs))"

section \<open>The cache\<close>

record cachedEntry =
  ce_role :: string
  ce_expires :: time

type_synonym authCache = "string \<rightharpoonup> cachedEntry"

definition az_cacheTTL :: duration where
  "az_cacheTTL = 300 * second"

definition cacheKey :: "(string \<Rightarrow> string) \<Rightarrow> string \<Rightarrow> string \<Rightarrow> string" where
  "cacheKey sha username password = username @ '':'' @ hex_encode (sha password)"

definition cache_get :: "(string \<Rightarrow> string) \<Rightarrow> time \<Rightarrow> string \<Rightarrow> string \<Rightarrow> authCache \<Rightarrow> string option" where
  "cache_get sha t username password items =
     (case items (cacheKey sha username password) of
        None \<Rightarrow> None
      | Some e \<Rightarrow> if time_after t (ce_expires e) then None else Some (ce_role e))"

definition cache_set :: "(string \<Rightarrow> string) \<Rightarrow> time \<Rightarrow> string \<Rightarrow> string \<Rightarrow> string \<Rightarrow> authCache \<Rightarrow> authCache" where
  "cache_set sha t username password role items =
     items(cacheKey sha username password \<mapsto> \<lparr>ce_role = role, ce_expires = time_add t az_cacheTTL\<rparr>)"

section \<open>The middleware\<close>

text \<open>What a request meets: the clock at the cache's lookup and at its update, the helper.\<close>

record az_env =
  az_now_get :: time
  az_now_set :: time
  az_helper :: helper

text \<open>The handler up to \<open>next\<close>: pass the request on as it is, with a role, or answer.\<close>

datatype verdict = Pass | Grant string | Challenge | Unavailable

definition authorize ::
  "(string \<Rightarrow> string) \<Rightarrow> string \<Rightarrow> az_env \<Rightarrow> request \<Rightarrow> authCache \<Rightarrow> authCache \<times> verdict \<times> 'x effect list" where
  "authorize sha socketPath e rq cache =
     (if rq_path rq = ''/healthz'' then (cache, Pass, [])
      else case BasicAuth rq of
          None \<Rightarrow> (cache, Challenge, [])
        | Some (username, password) \<Rightarrow>
            if username = [] then (cache, Challenge, [])
            else case cache_get sha (az_now_get e) username password cache of
                Some role \<Rightarrow> (cache, Grant role, [])
              | None \<Rightarrow>
                  (let log0 = LogPrintf ''authz: cache miss for user=%q, calling helper'' [username];
                       (r, effs) = callHelper (az_helper e) socketPath username password in
                   case r of
                     Inl err \<Rightarrow>
                       (cache, Unavailable, log0 # effs @
                         [LogPrintf ''authz: helper unavailable for user=%q: %v''
                           [username, err_text (hp_quote (az_helper e)) err]])
                   | Inr resp \<Rightarrow>
                       if \<not> ar_Ok resp then
                         (cache, Challenge, log0 # effs @
                           [LogPrintf ''authz: denied user=%q: %s'' [username, ar_Error resp]])
                       else
                         (cache_set sha (az_now_set e) username password (ar_Role resp) cache,
                          Grant (ar_Role resp), log0 # effs @
                            [LogPrintf ''authz: ok user=%q role=%s (cached for 5m)'' [username, ar_Role resp]])))"

type_synonym ('s, 'x) handler = "request \<Rightarrow> 's \<Rightarrow> 's \<times> response \<times> 'x effect list"

definition challenge_response :: "(string \<Rightarrow> string) \<Rightarrow> string \<Rightarrow> response" where
  "challenge_response quote realm =
     http_error ''Unauthorized'' 401 (header_set ''WWW-Authenticate'' (''Basic realm='' @ quote realm) new_response)"

definition unavailable_response :: response where
  "unavailable_response = http_error ''Authentication service unavailable'' 503 new_response"

definition az_Middleware ::
  "(string \<Rightarrow> string) \<Rightarrow> string \<Rightarrow> string \<Rightarrow> ('s, 'x) handler \<Rightarrow> az_env \<Rightarrow> (authCache \<times> 's, 'x) handler" where
  "az_Middleware sha socketPath realm next_h e rq st =
     (case st of (cache, s) \<Rightarrow>
        if socketPath = [] then (let (s', resp, effs) = next_h rq s in ((cache, s'), resp, effs))
        else
          (let (cache', v, effs0) = authorize sha socketPath e rq cache in
           case v of
             Pass \<Rightarrow> (let (s', resp, effs) = next_h rq s in ((cache', s'), resp, effs0 @ effs))
           | Grant role \<Rightarrow>
               (let (s', resp, effs) = next_h (rq\<lparr>rq_role := Some role\<rparr>) s in ((cache', s'), resp, effs0 @ effs))
           | Challenge \<Rightarrow> ((cache', s), challenge_response (hp_quote (az_helper e)) realm, effs0)
           | Unavailable \<Rightarrow> ((cache', s), unavailable_response, effs0)))"

definition RoleFromContext :: "request \<Rightarrow> string" where
  "RoleFromContext rq = (case rq_role rq of None \<Rightarrow> [] | Some role \<Rightarrow> role)"

section \<open>The wire\<close>

text \<open>A peer with the same struct tags, as the helper has.\<close>

definition request_field :: "string \<Rightarrow> json \<Rightarrow> authRequest \<Rightarrow> authRequest option" where
  "request_field k v r =
     (if k = ''op'' then map_option (\<lambda>s. r\<lparr>aq_Op := s\<rparr>) (decode_string v (aq_Op r))
      else if k = ''username'' then map_option (\<lambda>s. r\<lparr>aq_Username := s\<rparr>) (decode_string v (aq_Username r))
      else if k = ''password'' then map_option (\<lambda>s. r\<lparr>aq_Password := s\<rparr>) (decode_string v (aq_Password r))
      else if k = ''ssid'' then map_option (\<lambda>s. r\<lparr>aq_SSID := s\<rparr>) (decode_string v (aq_SSID r))
      else if k = ''psk'' then map_option (\<lambda>s. r\<lparr>aq_PSK := s\<rparr>) (decode_string v (aq_PSK r))
      else Some r)"

definition decode_request :: "string \<Rightarrow> authRequest option" where
  "decode_request s =
     (case json_first s of None \<Rightarrow> None | Some v \<Rightarrow> decode_struct request_field v (op_request []))"

definition request_utf8 :: "authRequest \<Rightarrow> authRequest" where
  "request_utf8 r = \<lparr>aq_Op = to_utf8 (aq_Op r), aq_Username = to_utf8 (aq_Username r),
     aq_Password = to_utf8 (aq_Password r), aq_SSID = to_utf8 (aq_SSID r), aq_PSK = to_utf8 (aq_PSK r)\<rparr>"

lemma wire_names [simp]:
  "fold_name (to_utf8 ''op'') = ''op''" "fold_name (to_utf8 ''username'') = ''username''"
  "fold_name (to_utf8 ''password'') = ''password''" "fold_name (to_utf8 ''ssid'') = ''ssid''"
  "fold_name (to_utf8 ''psk'') = ''psk''"
  by code_simp+

lemma json_first_request: "json_first (json_encode (authRequest_json r)) = Some (json_utf8 (authRequest_json r))"
  by (rule json_first_encode) (auto simp: authRequest_json_def omit_empty_def max_depth_def)

lemma to_utf8_Nil [simp]: "to_utf8 [] = []"
  by (simp add: to_utf8.simps)

lemma decode_request_encode: "decode_request (json_encode (authRequest_json r)) = Some (request_utf8 r)"
  unfolding decode_request_def json_first_request
  by (simp add: authRequest_json_def omit_empty_def request_field_def op_request_def request_utf8_def)

section \<open>Verdicts\<close>

text \<open>The reply of the helper to an authentication request, if there is one that decodes.\<close>

definition auth_reply :: "helper \<Rightarrow> string \<Rightarrow> string \<Rightarrow> string \<Rightarrow> authResponse option" where
  "auth_reply hp socketPath username password =
     (case hp_call hp socketPath (json_encode (authRequest_json
          ((op_request ''auth'')\<lparr>aq_Username := username, aq_Password := password\<rparr>))) of
        Replied bytes \<Rightarrow> decode_response bytes
      | _ \<Rightarrow> None)"

lemma callHelper_reply:
  "fst (callHelper hp socketPath u p) = Inr resp \<longleftrightarrow> auth_reply hp socketPath u p = Some resp"
  by (auto simp: callHelper_def auth_reply_def Let_def split: helper_outcome.split option.split)

text \<open>Credentials of a request, and an acceptance of them by the helper.\<close>

definition accepts :: "string \<Rightarrow> az_env \<Rightarrow> request \<Rightarrow> string \<Rightarrow> string \<Rightarrow> string \<Rightarrow> bool" where
  "accepts socketPath e rq u p role \<longleftrightarrow>
     BasicAuth rq = Some (u, p) \<and> u \<noteq> [] \<and>
     (case auth_reply (az_helper e) socketPath u p of
        None \<Rightarrow> False | Some resp \<Rightarrow> ar_Ok resp \<and> ar_Role resp = role)"

text \<open>The three ways to a verdict that is not \<open>Challenge\<close> or \<open>Unavailable\<close>.\<close>

lemma authorize_grant:
  assumes "authorize sha socketPath e rq cache = (cache', Grant role, effs :: 'x effect list)"
  obtains (hit) u p where "BasicAuth rq = Some (u, p)" "u \<noteq> []"
      "cache_get sha (az_now_get e) u p cache = Some role" "cache' = cache" "effs = []"
  | (miss) u p where "accepts socketPath e rq u p role" "cache_get sha (az_now_get e) u p cache = None"
      "cache' = cache_set sha (az_now_set e) u p role cache"
proof -
  note d = authorize_def Let_def
  obtain u p where u: "BasicAuth rq = Some (u, p)" "u \<noteq> []"
    using assms by (auto simp: d split: if_splits option.splits)
  show thesis
  proof (cases "cache_get sha (az_now_get e) u p cache")
    case (Some r)
    then show ?thesis using hit [OF u] assms u by (auto simp: d split: if_splits)
  next
    case None
    then obtain resp where r: "fst (callHelper (az_helper e) socketPath u p :: _ \<times> 'x effect list) = Inr resp"
      "ar_Ok resp"
      "ar_Role resp = role" "cache' = cache_set sha (az_now_set e) u p role cache"
      using assms u by (auto simp: d split: if_splits prod.splits sum.splits)
    then show ?thesis using miss [of u p] u None by (auto simp: accepts_def callHelper_reply)
  qed
qed

lemma authorize_keeps_cache:
  assumes "authorize sha socketPath e rq cache = (cache', v, effs)" and "\<nexists>role. v = Grant role"
  shows "cache' = cache"
  using assms by (auto simp: authorize_def Let_def split: if_splits option.splits prod.splits sum.splits)

section \<open>The cache\<close>

text \<open>The cache key determines the user, given that user names hold no colon, and the digest.\<close>

lemma cacheKey_inj:
  assumes "cacheKey sha u p = cacheKey sha u' p'" and "CHR '':'' \<notin> set u" and "CHR '':'' \<notin> set u'"
  shows "u = u' \<and> sha p = sha p'"
proof -
  have "takeWhile (\<lambda>c. c \<noteq> CHR '':'') (w @ CHR '':'' # r) = w" if "CHR '':'' \<notin> set w" for w r
    using that by (induction w) auto
  with assms have "u = u'" unfolding cacheKey_def by (metis append_Cons append_Nil)
  then show ?thesis using assms(1) hex_encode_inj by (simp add: cacheKey_def)
qed

lemma cache_get_set:
  "cache_get sha t u p (cache_set sha t0 u p role cache) = (if t \<le> t0 + az_cacheTTL then Some role else None)"
  by (simp add: cache_get_def cache_set_def time_after_def time_add_def not_less)

text \<open>A history of authorisations, oldest first, from an empty cache.\<close>

definition az_cache_after ::
  "(string \<Rightarrow> string) \<Rightarrow> string \<Rightarrow> (az_env \<times> request) list \<Rightarrow> authCache" where
  "az_cache_after sha socketPath hist =
     fold (\<lambda>(e, rq) cache. fst (authorize sha socketPath e rq cache :: _ \<times> verdict \<times> unit effect list))
       hist Map.empty"

text \<open>Every entry stems from an acceptance in the history, and expires five minutes after it.\<close>

definition cache_sound :: "(string \<Rightarrow> string) \<Rightarrow> string \<Rightarrow> (az_env \<times> request) list \<Rightarrow> authCache \<Rightarrow> bool" where
  "cache_sound sha socketPath hist cache \<longleftrightarrow>
     (\<forall>k en. cache k = Some en \<longrightarrow>
        (\<exists>(e, rq) \<in> set hist. \<exists>u p. accepts socketPath e rq u p (ce_role en) \<and> k = cacheKey sha u p \<and>
           ce_expires en = az_now_set e + az_cacheTTL))"

lemma cache_sound_step:
  assumes "cache_sound sha socketPath hist cache"
  shows "cache_sound sha socketPath (hist @ [(e, rq)])
    (fst (authorize sha socketPath e rq cache :: _ \<times> verdict \<times> 'x effect list))"
proof -
  obtain cache' v and effs :: "'x effect list" where a: "authorize sha socketPath e rq cache = (cache', v, effs)"
    by (cases "authorize sha socketPath e rq cache :: _ \<times> verdict \<times> 'x effect list") auto
  have old: "cache_sound sha socketPath (hist @ [(e, rq)]) cache"
    using assms unfolding cache_sound_def by fastforce
  show ?thesis
  proof (cases "\<exists>role. v = Grant role")
    case False
    then show ?thesis using authorize_keeps_cache [OF a] a old by simp
  next
    case True
    then obtain role where "authorize sha socketPath e rq cache = (cache', Grant role, effs)" using a by auto
    then show ?thesis
    proof (cases rule: authorize_grant)
      case (hit u p)
      then show ?thesis using a old by simp
    next
      case (miss u p)
      then show ?thesis
        using old unfolding a fst_conv cache_sound_def
        by (auto simp: cache_set_def time_add_def split: if_splits)
    qed
  qed
qed

lemma cache_sound_after: "cache_sound sha socketPath hist (az_cache_after sha socketPath hist)"
proof (induction hist rule: rev_induct)
  case (snoc x hist)
  obtain e rq where "x = (e, rq)" by (cases x)
  then show ?case
    using cache_sound_step [OF snoc, of e rq, where 'x = unit] by (simp add: az_cache_after_def)
qed (simp add: az_cache_after_def cache_sound_def)

lemma grants_vouched:
  assumes "authorize sha socketPath e rq (az_cache_after sha socketPath hist) = (cache', Grant role, effs)"
  shows "\<exists>u p. BasicAuth rq = Some (u, p) \<and>
    (accepts socketPath e rq u p role \<or>
     (\<exists>(e', rq') \<in> set hist. \<exists>p'. accepts socketPath e' rq' u p' role \<and> sha p' = sha p \<and>
        az_now_get e \<le> az_now_set e' + az_cacheTTL))"
  using assms
proof (cases rule: authorize_grant)
  case (hit u p)
  then obtain en where en: "az_cache_after sha socketPath hist (cacheKey sha u p) = Some en"
    "ce_role en = role" "az_now_get e \<le> ce_expires en"
    by (auto simp: cache_get_def time_after_def split: option.splits if_splits)
  then obtain e' rq' u' p' where src: "(e', rq') \<in> set hist" "accepts socketPath e' rq' u' p' role"
    "cacheKey sha u p = cacheKey sha u' p'" "ce_expires en = az_now_set e' + az_cacheTTL"
    using cache_sound_after [of sha socketPath hist] unfolding cache_sound_def by fastforce
  moreover have "u = u' \<and> sha p = sha p'"
    using src(2,3) hit(1) by (intro cacheKey_inj) (auto simp: accepts_def dest: BasicAuth_user)
  ultimately show ?thesis using hit(1) en(3) by fastforce
next
  case (miss u p)
  then show ?thesis by (auto simp: accepts_def)
qed

section \<open>Log lines\<close>

fun is_log :: "'x effect \<Rightarrow> bool" where
  "is_log (LogPrintf f args) \<longleftrightarrow> True"
| "is_log x \<longleftrightarrow> False"

text \<open>The log lines of an authorisation, without the password among the arguments.\<close>

definition authorize_log ::
  "(string \<Rightarrow> string) \<Rightarrow> string \<Rightarrow> string option \<Rightarrow> (go_error + authResponse) \<Rightarrow> 'x effect list" where
  "authorize_log quote username cached reply =
     (case cached of
        Some role \<Rightarrow> []
      | None \<Rightarrow>
          LogPrintf ''authz: cache miss for user=%q, calling helper'' [username] #
          [case reply of
             Inl err \<Rightarrow> LogPrintf ''authz: helper unavailable for user=%q: %v'' [username, err_text quote err]
           | Inr resp \<Rightarrow>
               if ar_Ok resp then LogPrintf ''authz: ok user=%q role=%s (cached for 5m)'' [username, ar_Role resp]
               else LogPrintf ''authz: denied user=%q: %s'' [username, ar_Error resp]])"

lemma callHelper_no_log: "filter is_log (snd (callHelper hp socketPath u p)) = []"
  by (simp add: callHelper_def Let_def split: helper_outcome.split)

lemma authorize_logs:
  assumes "rq_path rq \<noteq> ''/healthz''" and "BasicAuth rq = Some (u, p)" and "u \<noteq> []"
  shows "filter is_log (snd (snd (authorize sha socketPath e rq cache :: _ \<times> _ \<times> 'x effect list))) =
    authorize_log (hp_quote (az_helper e)) u (cache_get sha (az_now_get e) u p cache)
      (fst (callHelper (az_helper e) socketPath u p :: _ \<times> 'x effect list))"
  using assms callHelper_no_log [of "az_helper e" socketPath u p, where 'a = 'x]
  by (auto simp: authorize_def authorize_log_def Let_def split: option.split sum.split prod.split)

section \<open>Properties\<close>

text \<open>
  C6: the bytes sent for a request decode, at a peer with the same struct tags, to exactly
  the operation and the arguments, whatever bytes these contain (quotes, backslashes,
  control characters, another operation's JSON); only ill-formed UTF-8 is replaced.
\<close>

theorem authz_request_roundtrip:
  "decode_request (json_encode (authRequest_json r)) = Some (request_utf8 r)"
  by (rule decode_request_encode)

text \<open>
  A role that the middleware grants was given by the helper, for the same user and a
  password with the same digest: either in answer to this request or in answer to an
  earlier one of the history, at most five minutes before.
\<close>

theorem authz_grants_are_vouched:
  assumes "authorize sha socketPath e rq (az_cache_after sha socketPath hist) = (cache', Grant role, effs)"
  shows "\<exists>u p. BasicAuth rq = Some (u, p) \<and>
    (accepts socketPath e rq u p role \<or>
     (\<exists>(e', rq') \<in> set hist. \<exists>p'. accepts socketPath e' rq' u p' role \<and> sha p' = sha p \<and>
        az_now_get e \<le> az_now_set e' + az_cacheTTL))"
  using assms by (rule grants_vouched)

definition sample_reply :: string where
  "sample_reply = json_encode (JObj [(''ok'', JBool True), (''role'', JStr ''admin'')])"

definition sample_helper :: helper where
  "sample_helper = \<lparr>hp_call = (\<lambda>socketPath req. Replied sample_reply),
     hp_decode_error = (\<lambda>bytes. NewError ''EOF''), hp_quote = id\<rparr>"

definition sample_env :: "time \<Rightarrow> az_env" where
  "sample_env t = \<lparr>az_now_get = t, az_now_set = t, az_helper = sample_helper\<rparr>"

definition sample_request :: request where
  "sample_request = \<lparr>rq_method = ''GET'', rq_path = ''/api/stats'', rq_escaped = ''/api/stats'',
     rq_authorization = basic_header ''ann'' ''pw'',
     rq_body = [], rq_role = None, rq_header = (\<lambda>k. [])\<rparr>"

lemma sample_env_simps [simp]:
  "az_now_get (sample_env t) = t" "az_now_set (sample_env t) = t" "az_helper (sample_env t) = sample_helper"
  by (simp_all add: sample_env_def)

lemma sample_path: "rq_path sample_request \<noteq> ''/healthz''"
  by (simp add: sample_request_def)

lemma sample_credentials: "BasicAuth sample_request = Some (''ann'', ''pw'')"
  by (rule basic_auth_header) (simp_all add: sample_request_def)

lemma sample_response:
  "decode_response sample_reply =
     Some \<lparr>ar_Ok = True, ar_Username = [], ar_Role = ''admin'', ar_Error = [], ar_Networks = []\<rparr>"
  by code_simp

lemma sample_call:
  "fst (callHelper sample_helper socketPath u p) =
     Inr \<lparr>ar_Ok = True, ar_Username = [], ar_Role = ''admin'', ar_Error = [], ar_Networks = []\<rparr>"
  by (simp add: callHelper_def sample_helper_def sample_response Let_def)

lemma sample_authorize:
  "cache_get id t ''ann'' ''pw'' cache = None \<Longrightarrow> \<exists>effs :: 'x effect list.
     authorize id ''/s'' (sample_env t) sample_request cache =
       (cache_set id t ''ann'' ''pw'' ''admin'' cache, Grant ''admin'', effs)"
  using sample_call [of "''/s''" "''ann''" "''pw''", where 'a = 'x]
  by (cases "callHelper sample_helper ''/s'' ''ann'' ''pw'' :: _ \<times> 'x effect list")
    (auto simp: authorize_def sample_credentials sample_path Let_def)

lemma authz_grants_are_vouched_witness:
  "\<exists>effs :: unit effect list. \<exists>u p.
     authorize id ''/s'' (sample_env 5) sample_request (az_cache_after id ''/s'' []) =
       (cache_set id 5 ''ann'' ''pw'' ''admin'' Map.empty, Grant ''admin'', effs) \<and>
     accepts ''/s'' (sample_env 5) sample_request u p ''admin''"
proof -
  have "az_cache_after id ''/s'' [] = Map.empty" by (simp add: az_cache_after_def)
  moreover have "cache_get id 5 ''ann'' ''pw'' Map.empty = None" by (simp add: cache_get_def)
  ultimately obtain effs :: "unit effect list" where
    g: "authorize id ''/s'' (sample_env 5) sample_request (az_cache_after id ''/s'' []) =
      (cache_set id 5 ''ann'' ''pw'' ''admin'' Map.empty, Grant ''admin'', effs)"
    using sample_authorize by metis
  from authz_grants_are_vouched [OF g] g show ?thesis by auto
qed

text \<open>
  Once the helper has accepted credentials, requests with the same credentials are granted
  the same role without another call for five minutes; after that the entry counts for
  nothing and the helper is asked as with an empty cache.
\<close>

theorem authz_cached_for_five_minutes:
  assumes "authorize sha socketPath e rq cache = (cache', Grant role, effs)"
    and "BasicAuth rq = Some (u, p)" and "cache_get sha (az_now_get e) u p cache = None"
    and "BasicAuth rq2 = Some (u, p)" and "rq_path rq2 \<noteq> ''/healthz''"
  shows "if az_now_get e2 \<le> az_now_set e + 300 * second
    then authorize sha socketPath e2 rq2 cache' = (cache', Grant role, [])
    else snd (authorize sha socketPath e2 rq2 cache') = snd (authorize sha socketPath e2 rq2 Map.empty)"
  using assms(1)
proof (cases rule: authorize_grant)
  case (hit u' p')
  then show ?thesis using assms(2,3) by simp
next
  case (miss u' p')
  then have "u' = u" "p' = p" "u \<noteq> []" "cache' = cache_set sha (az_now_set e) u p role cache"
    using assms(2) by (auto simp: accepts_def)
  moreover have "cache_get sha t u p Map.empty = None" for t by (simp add: cache_get_def)
  ultimately show ?thesis
    using assms(4,5) by (auto simp: authorize_def cache_get_set az_cacheTTL_def Let_def split: sum.split prod.split)
qed

lemma authz_cached_for_five_minutes_witness:
  "\<exists>cache'. authorize id ''/s'' (sample_env (300 * second)) sample_request cache' =
       (cache', Grant ''admin'', [] :: unit effect list) \<and>
     snd (authorize id ''/s'' (sample_env (6 + 300 * second)) sample_request cache' :: _ \<times> _ \<times> unit effect list) =
       snd (authorize id ''/s'' (sample_env (6 + 300 * second)) sample_request Map.empty)"
proof -
  have n: "cache_get id 5 ''ann'' ''pw'' Map.empty = None" by (simp add: cache_get_def)
  obtain effs :: "unit effect list" where
    g: "authorize id ''/s'' (sample_env 5) sample_request Map.empty =
      (cache_set id 5 ''ann'' ''pw'' ''admin'' Map.empty, Grant ''admin'', effs)"
    using sample_authorize [OF n] by metis
  have miss: "cache_get id (az_now_get (sample_env 5)) ''ann'' ''pw'' Map.empty = None" using n by simp
  note r = authz_cached_for_five_minutes [OF g sample_credentials miss sample_credentials sample_path]
  show ?thesis
    using r [of "sample_env (300 * second)"] r [of "sample_env (6 + 300 * second)"] by auto
qed

text \<open>
  The log lines of an authorisation are a function of the user name, the cached role and
  the helper's reply: the password itself enters none of them.
\<close>

theorem authz_password_not_logged:
  assumes "rq_path rq \<noteq> ''/healthz''" and "BasicAuth rq = Some (u, p)" and "u \<noteq> []"
  shows "filter is_log (snd (snd (authorize sha socketPath e rq cache :: _ \<times> _ \<times> 'x effect list))) =
    authorize_log (hp_quote (az_helper e)) u (cache_get sha (az_now_get e) u p cache)
      (fst (callHelper (az_helper e) socketPath u p :: _ \<times> 'x effect list))"
  using assms by (rule authorize_logs)

lemma authz_password_not_logged_witness:
  "filter is_log (snd (snd (authorize id ''/s'' (sample_env 5) sample_request Map.empty :: _ \<times> _ \<times> unit effect list))) =
     [LogPrintf ''authz: cache miss for user=%q, calling helper'' [''ann''],
      LogPrintf ''authz: ok user=%q role=%s (cached for 5m)'' [''ann'', ''admin'']]"
proof -
  have "rq_path sample_request \<noteq> ''/healthz''" by (simp add: sample_request_def)
  from authz_password_not_logged [OF this sample_credentials, of id "''/s''" "sample_env 5" Map.empty, where 'x = unit]
  show ?thesis by (simp add: authorize_log_def cache_get_def sample_env_def sample_call)
qed

text \<open>
  With a socket configured, a request other than \<open>/healthz\<close> that is not granted a
  role never reaches the next handler: its state is untouched, the cache too, and the answer
  is 401 with a challenge, or 503 when the helper could not be asked.
\<close>

theorem authz_denied_never_reaches_next:
  assumes "socketPath \<noteq> []" and "rq_path rq \<noteq> ''/healthz''"
    and "authorize sha socketPath e rq cache = (cache', v, effs)" and "\<nexists>role. v = Grant role"
  shows "az_Middleware sha socketPath realm next_h e rq (cache, s) =
    ((cache, s), if v = Unavailable then unavailable_response
       else challenge_response (hp_quote (az_helper e)) realm, effs) \<and>
    rs_status unavailable_response = 503 \<and> rs_status (challenge_response quote realm) = 401 \<and>
    rs_headers (challenge_response quote realm) ''WWW-Authenticate'' = Some (''Basic realm='' @ quote realm)"
proof -
  have "v \<noteq> Pass"
    using assms(2,3) by (auto simp: authorize_def Let_def split: if_splits option.splits prod.splits sum.splits)
  then have "v = Challenge \<or> v = Unavailable" using assms(4) by (cases v) auto
  then show ?thesis
    using assms authorize_keeps_cache [OF assms(3,4)]
    by (auto simp: az_Middleware_def unavailable_response_def challenge_response_def)
qed

definition count_handler :: "(nat, unit) handler" where
  "count_handler rq n = (Suc n, new_response, [])"

lemma authz_denied_never_reaches_next_witness:
  "az_Middleware id ''/s'' ''R'' count_handler (sample_env 5) (sample_request\<lparr>rq_authorization := []\<rparr>)
     (Map.empty, 7) = ((Map.empty, 7), challenge_response id ''R'', [])"
proof -
  let ?rq = "sample_request\<lparr>rq_authorization := []\<rparr>"
  have a: "authorize id ''/s'' (sample_env 5) ?rq Map.empty = (Map.empty, Challenge, [] :: unit effect list)"
    by (simp add: authorize_def sample_request_def BasicAuth_def)
  have h: "''/s'' \<noteq> []" "rq_path ?rq \<noteq> ''/healthz''" "\<nexists>role. Challenge = Grant role"
    by (simp_all add: sample_request_def)
  show ?thesis
    using authz_denied_never_reaches_next [OF h(1,2) a h(3), of "''R''" count_handler 7]
    by (simp add: sample_helper_def)
qed

text \<open>
  Without a socket the middleware does nothing: every request reaches the next handler as
  it came, so without a role.
\<close>

theorem authz_disabled_is_transparent:
  "az_Middleware sha [] realm next_h e rq (cache, s) =
     (case next_h rq s of (s', resp, effs) \<Rightarrow> ((cache, s'), resp, effs))"
  by (simp add: az_Middleware_def Let_def)

end
