(* ===== verification/Concurrent_Auth.thy ===== *)
theory Concurrent_Auth
  imports Authz
begin

text \<open>
  The authentication under concurrency: any number of requests pass through the middleware
  at the same time, and share one cache whose methods lock a mutex. The look-up, the
  helper's reply and the update of the cache are separate steps of a request, between
  which other requests move. Facts: the cache behaves, in every interleaving, like the log
  of the acceptances, of which the newest one for the same credentials counts for five
  minutes; so a role is only ever granted that the helper gave.
\<close>

section \<open>The cache's contract\<close>

text \<open>
  What the middleware relies on: an empty cache knows nobody, and an update answers for
  the same credentials (equal as \<open>same\<close> says) for the time to live and changes nothing
  for others. User names are those that credentials can deliver.
\<close>

locale role_cache =
  fixes get :: "time \<Rightarrow> string \<Rightarrow> string \<Rightarrow> 'c \<Rightarrow> string option"
    and put :: "time \<Rightarrow> string \<Rightarrow> string \<Rightarrow> string \<Rightarrow> 'c \<Rightarrow> 'c"
    and empty :: 'c
    and ttl :: duration
    and same :: "string \<Rightarrow> string \<Rightarrow> bool"
    and user_ok :: "string \<Rightarrow> bool"
  assumes get_empty: "get t u p empty = None"
    and get_put: "user_ok u \<Longrightarrow> user_ok v \<Longrightarrow>
      get t u p (put t' v q role c) =
        (if v = u \<and> same q p then if t \<le> t' + ttl then Some role else None else get t u p c)"

text \<open>An acceptance: user, password, role, and the instant of its update of the cache.\<close>

type_synonym acceptance = "string \<times> string \<times> string \<times> time"

text \<open>The specification: a log, newest first, whose first entry for the credentials decides.\<close>

fun log_get :: "duration \<Rightarrow> (string \<Rightarrow> string \<Rightarrow> bool) \<Rightarrow> time \<Rightarrow> string \<Rightarrow> string \<Rightarrow> acceptance list \<Rightarrow> string option" where
  "log_get ttl same t u p [] = None"
| "log_get ttl same t u p ((v, q, role, t') # log) =
     (if v = u \<and> same q p then if t \<le> t' + ttl then Some role else None else log_get ttl same t u p log)"

lemma log_get_Some:
  "log_get ttl same t u p log = Some role \<Longrightarrow>
     \<exists>q t'. (u, q, role, t') \<in> set log \<and> same q p \<and> t \<le> t' + ttl"
  by (induction log) (fastforce split: if_splits)+

context role_cache
begin

definition refines :: "'c \<Rightarrow> acceptance list \<Rightarrow> bool" where
  "refines c log \<longleftrightarrow> (\<forall>t u p. user_ok u \<longrightarrow> get t u p c = log_get ttl same t u p log)"

lemma refines_empty: "refines empty []"
  by (simp add: refines_def get_empty)

lemma refines_put: "refines c log \<Longrightarrow> user_ok u \<Longrightarrow> refines (put t u p role c) ((u, p, role, t) # log)"
  by (simp add: refines_def get_put)

lemma refines_get: "refines c log \<Longrightarrow> user_ok u \<Longrightarrow> get t u p c = log_get ttl same t u p log"
  by (simp add: refines_def)

end

text \<open>The code's cache, for one digest.\<close>

definition same_digest :: "(string \<Rightarrow> string) \<Rightarrow> string \<Rightarrow> string \<Rightarrow> bool" where
  "same_digest sha p q \<longleftrightarrow> sha p = sha q"

definition user_name :: "string \<Rightarrow> bool" where
  "user_name u \<longleftrightarrow> CHR '':'' \<notin> set u"

lemma cache_get_set_any:
  assumes "user_name u" and "user_name v"
  shows "cache_get sha t u p (cache_set sha t' v q role c) =
    (if v = u \<and> same_digest sha q p then if t \<le> t' + az_cacheTTL then Some role else None
     else cache_get sha t u p c)"
proof -
  have "cacheKey sha v q = cacheKey sha u p \<longleftrightarrow> v = u \<and> same_digest sha q p"
    using assms cacheKey_inj [of sha v q u p] unfolding user_name_def same_digest_def
    by (auto simp: cacheKey_def)
  then show ?thesis
    by (auto simp: cache_get_def cache_set_def time_after_def time_add_def not_less split: option.split)
qed

interpretation ac: role_cache "cache_get sha" "cache_set sha" Map.empty az_cacheTTL "same_digest sha" user_name
  for sha
  by unfold_locales (simp_all add: cache_get_set_any, simp add: cache_get_def)

section \<open>Concurrent requests\<close>

text \<open>
  The phases of a request in the middleware: not there; the cache did not know the
  credentials and the helper is asked; the helper accepted, with the instant of its reply;
  granted a role, with the instant of the look-up or the update; refused.
\<close>

datatype auth_phase =
    AOutside
  | AAsking string string
  | AAccepted string string string time
  | AGranted time string string string
  | ARefused

record auth_world =
  aw_cache :: authCache
  aw_phase :: "nat \<Rightarrow> auth_phase"
  aw_clk :: time
  aw_stored :: "acceptance list"
  aw_replies :: "acceptance list"

definition auth_start :: "time \<Rightarrow> auth_world" where
  "auth_start t = \<lparr>aw_cache = Map.empty, aw_phase = (\<lambda>i. AOutside), aw_clk = t, aw_stored = [], aw_replies = []\<rparr>"

text \<open>
  \<open>aw_stored\<close> and \<open>aw_replies\<close> record the history: the updates of the cache, and the
  helper's acceptances with the instants of its replies. Requests without credentials and
  those for \<open>/healthz\<close> touch none of this.
\<close>

inductive auth_step :: "(string \<Rightarrow> string) \<Rightarrow> string \<Rightarrow> auth_world \<Rightarrow> auth_world \<Rightarrow> bool" for sha sp where
  hit: "aw_phase w i = AOutside \<Longrightarrow> aw_clk w \<le> t \<Longrightarrow> BasicAuth rq = Some (u, p) \<Longrightarrow> u \<noteq> [] \<Longrightarrow>
     cache_get sha t u p (aw_cache w) = Some role \<Longrightarrow>
     auth_step sha sp w (w\<lparr>aw_clk := t, aw_phase := (aw_phase w)(i := AGranted t u p role)\<rparr>)"
| miss: "aw_phase w i = AOutside \<Longrightarrow> aw_clk w \<le> t \<Longrightarrow> BasicAuth rq = Some (u, p) \<Longrightarrow> u \<noteq> [] \<Longrightarrow>
     cache_get sha t u p (aw_cache w) = None \<Longrightarrow>
     auth_step sha sp w (w\<lparr>aw_clk := t, aw_phase := (aw_phase w)(i := AAsking u p)\<rparr>)"
| refuse: "aw_phase w i = AAsking u p \<Longrightarrow> aw_clk w \<le> t \<Longrightarrow>
     \<nexists>resp. auth_reply hp sp u p = Some resp \<and> ar_Ok resp \<Longrightarrow>
     auth_step sha sp w (w\<lparr>aw_clk := t, aw_phase := (aw_phase w)(i := ARefused)\<rparr>)"
| accept: "aw_phase w i = AAsking u p \<Longrightarrow> aw_clk w \<le> t \<Longrightarrow>
     auth_reply hp sp u p = Some resp \<Longrightarrow> ar_Ok resp \<Longrightarrow>
     auth_step sha sp w (w\<lparr>aw_clk := t, aw_replies := (u, p, ar_Role resp, t) # aw_replies w,
       aw_phase := (aw_phase w)(i := AAccepted u p (ar_Role resp) t)\<rparr>)"
| store: "aw_phase w i = AAccepted u p role tr \<Longrightarrow> aw_clk w \<le> t \<Longrightarrow>
     auth_step sha sp w (w\<lparr>aw_clk := t, aw_cache := cache_set sha t u p role (aw_cache w),
       aw_stored := (u, p, role, t) # aw_stored w, aw_phase := (aw_phase w)(i := AGranted t u p role)\<rparr>)"
| leave: "aw_phase w i = AGranted t u p role \<or> aw_phase w i = ARefused \<Longrightarrow>
     auth_step sha sp w (w\<lparr>aw_phase := (aw_phase w)(i := AOutside)\<rparr>)"

text \<open>
  The invariant: the cache refines the log of its updates; each update follows a reply of
  the helper with the same role; and what each phase has seen.
\<close>

definition replied :: "acceptance list \<Rightarrow> string \<Rightarrow> string \<Rightarrow> string \<Rightarrow> time \<Rightarrow> bool" where
  "replied replies u p role t \<longleftrightarrow> (\<exists>tr \<le> t. (u, p, role, tr) \<in> set replies)"

definition vouched :: "(string \<Rightarrow> string) \<Rightarrow> auth_world \<Rightarrow> time \<Rightarrow> string \<Rightarrow> string \<Rightarrow> string \<Rightarrow> bool" where
  "vouched sha w t u p role \<longleftrightarrow>
     (\<exists>q ts. (u, q, role, ts) \<in> set (aw_stored w) \<and> same_digest sha q p \<and> ts \<le> t \<and> t \<le> ts + az_cacheTTL \<and>
        replied (aw_replies w) u q role ts)"

fun phase_fine :: "(string \<Rightarrow> string) \<Rightarrow> auth_world \<Rightarrow> auth_phase \<Rightarrow> bool" where
  "phase_fine sha w (AAsking u p) \<longleftrightarrow> user_name u"
| "phase_fine sha w (AAccepted u p role tr) \<longleftrightarrow> user_name u \<and> tr \<le> aw_clk w \<and> (u, p, role, tr) \<in> set (aw_replies w)"
| "phase_fine sha w (AGranted t u p role) \<longleftrightarrow> vouched sha w t u p role"
| "phase_fine sha w ph \<longleftrightarrow> True"

definition auth_inv :: "(string \<Rightarrow> string) \<Rightarrow> auth_world \<Rightarrow> bool" where
  "auth_inv sha w \<longleftrightarrow>
     ac.refines sha (aw_cache w) (aw_stored w) \<and>
     (\<forall>u p role t. (u, p, role, t) \<in> set (aw_stored w) \<longrightarrow> t \<le> aw_clk w \<and> replied (aw_replies w) u p role t) \<and>
     (\<forall>i. phase_fine sha w (aw_phase w i))"

lemma auth_invD:
  assumes "auth_inv sha w"
  shows "ac.refines sha (aw_cache w) (aw_stored w)"
    and "(u, p, role, t) \<in> set (aw_stored w) \<Longrightarrow> t \<le> aw_clk w"
    and "(u, p, role, t) \<in> set (aw_stored w) \<Longrightarrow> replied (aw_replies w) u p role t"
    and "phase_fine sha w (aw_phase w i)"
  using assms unfolding auth_inv_def by blast+

lemma replied_more: "replied rs u p role t \<Longrightarrow> replied (new @ rs) u p role t"
  by (auto simp: replied_def)

text \<open>What a phase has seen stays true when the clock and the history go on.\<close>

lemma phase_fine_later:
  assumes "phase_fine sha w ph" and "aw_clk w \<le> aw_clk w'"
    and "set (aw_stored w) \<subseteq> set (aw_stored w')" and "set (aw_replies w) \<subseteq> set (aw_replies w')"
  shows "phase_fine sha w' ph"
proof (cases ph)
  case (AGranted t u p role)
  then show ?thesis
    using assms(1,3,4) unfolding AGranted phase_fine.simps vouched_def replied_def by (meson subsetD)
qed (use assms in auto)

lemma auth_inv_start: "auth_inv sha (auth_start t)"
  by (simp add: auth_inv_def auth_start_def ac.refines_empty)

text \<open>A step that moves the clock on, adds to the history, and takes one request to a phase.\<close>

lemma auth_inv_update:
  assumes "auth_inv sha w" and "aw_clk w \<le> t"
    and "ac.refines sha c' (new @ aw_stored w)"
    and "\<And>u p role ts. (u, p, role, ts) \<in> set new \<Longrightarrow>
      ts \<le> t \<and> replied (rs @ aw_replies w) u p role ts"
    and "phase_fine sha (w\<lparr>aw_clk := t, aw_cache := c', aw_stored := new @ aw_stored w,
      aw_replies := rs @ aw_replies w\<rparr>) ph"
  shows "auth_inv sha (w\<lparr>aw_clk := t, aw_cache := c', aw_stored := new @ aw_stored w,
    aw_replies := rs @ aw_replies w, aw_phase := (aw_phase w)(i := ph)\<rparr>)"
proof -
  let ?w1 = "w\<lparr>aw_clk := t, aw_cache := c', aw_stored := new @ aw_stored w, aw_replies := rs @ aw_replies w\<rparr>"
  let ?w = "?w1\<lparr>aw_phase := (aw_phase w)(i := ph)\<rparr>"
  have "phase_fine sha ?w (aw_phase w j)" for j
    by (rule phase_fine_later [OF auth_invD(4) [OF assms(1)]]) (simp_all add: assms(2))
  moreover have "phase_fine sha ?w ph"
    by (rule phase_fine_later [OF assms(5)]) simp_all
  ultimately have phases: "phase_fine sha ?w (aw_phase ?w j)" for j by simp
  have stored: "ts \<le> t \<and> replied (rs @ aw_replies w) u p role ts"
    if "(u, p, role, ts) \<in> set (new @ aw_stored w)" for u p role ts
  proof (cases "(u, p, role, ts) \<in> set new")
    case True
    then show ?thesis by (rule assms(4))
  next
    case False
    with that have old: "(u, p, role, ts) \<in> set (aw_stored w)" by simp
    show ?thesis
      using auth_invD(2) [OF assms(1) old] replied_more [OF auth_invD(3) [OF assms(1) old]] assms(2) by simp
  qed
  show ?thesis
    unfolding auth_inv_def using assms(3) stored phases by simp
qed

lemma auth_step_inv:
  assumes "auth_step sha sp w w'" and "auth_inv sha w"
  shows "auth_inv sha w'"
  using assms
proof (induction rule: auth_step.induct)
  case (hit w i t rq u p role)
  note inv = auth_invD [OF hit.prems]
  have "user_name u" using BasicAuth_user [OF hit.hyps(3)] by (simp add: user_name_def)
  then have "log_get az_cacheTTL (same_digest sha) t u p (aw_stored w) = Some role"
    using ac.refines_get [OF inv(1)] hit.hyps(5) by simp
  from log_get_Some [OF this] obtain q ts where q: "(u, q, role, ts) \<in> set (aw_stored w)"
    "same_digest sha q p" "t \<le> ts + az_cacheTTL" by blast
  then have v: "vouched sha (w\<lparr>aw_clk := t\<rparr>) t u p role"
    using inv(2) [OF q(1)] inv(3) [OF q(1)] hit.hyps(2) unfolding vouched_def
    by (intro exI [of _ q] exI [of _ ts]) simp
  show ?case
    using auth_inv_update [OF hit.prems hit.hyps(2), of "aw_cache w" "[]" "[]" "AGranted t u p role" i] v inv(1)
    by simp
next
  case (miss w i t rq u p)
  have "user_name u" using BasicAuth_user [OF miss.hyps(3)] by (simp add: user_name_def)
  then show ?case
    using auth_inv_update [OF miss.prems miss.hyps(2), of "aw_cache w" "[]" "[]" "AAsking u p" i]
      auth_invD(1) [OF miss.prems] by simp
next
  case (refuse w i u p t hp)
  show ?case
    using auth_inv_update [OF refuse.prems refuse.hyps(2), of "aw_cache w" "[]" "[]" ARefused i]
      auth_invD(1) [OF refuse.prems] by simp
next
  case (accept w i u p t hp resp)
  have "user_name u" using auth_invD(4) [OF accept.prems, of i] accept.hyps(1) by simp
  then show ?case
    using auth_inv_update [OF accept.prems accept.hyps(2), of "aw_cache w" "[]" "[(u, p, ar_Role resp, t)]"
        "AAccepted u p (ar_Role resp) t" i] auth_invD(1) [OF accept.prems]
    by simp
next
  case (store w i u p role tr t)
  have *: "user_name u" "tr \<le> aw_clk w" "(u, p, role, tr) \<in> set (aw_replies w)"
    using auth_invD(4) [OF store.prems, of i] store.hyps(1) by simp_all
  then have rep: "replied (aw_replies w) u p role t" using store.hyps(2) unfolding replied_def
    by (intro exI [of _ tr] conjI) linarith+
  have ref: "ac.refines sha (cache_set sha t u p role (aw_cache w)) ((u, p, role, t) # aw_stored w)"
    using ac.refines_put [OF auth_invD(1) [OF store.prems] *(1)] .
  have "vouched sha (w\<lparr>aw_clk := t, aw_cache := cache_set sha t u p role (aw_cache w),
      aw_stored := (u, p, role, t) # aw_stored w\<rparr>) t u p role"
    using rep unfolding vouched_def by (intro exI [of _ p] exI [of _ t]) (simp add: same_digest_def az_cacheTTL_def second_def)
  then show ?case
    using auth_inv_update [OF store.prems store.hyps(2), of "cache_set sha t u p role (aw_cache w)"
        "[(u, p, role, t)]" "[]" "AGranted t u p role" i] ref rep by simp
next
  case (leave w i t u p role)
  show ?case
    using auth_inv_update [OF leave.prems order_refl, of "aw_cache w" "[]" "[]" AOutside i]
      auth_invD(1) [OF leave.prems] by simp
qed

lemma auth_reach_inv: "(auth_step sha sp)\<^sup>*\<^sup>* (auth_start t) w \<Longrightarrow> auth_inv sha w"
  by (induction rule: rtranclp_induct) (auto intro: auth_inv_start auth_step_inv)

section \<open>One request alone\<close>

text \<open>
  The handler of the sequential model is the steps of one request without others between
  them: its verdict is the phase it ends in.
\<close>

lemma authorize_solo:
  assumes "authorize sha sp e rq (aw_cache w) = (cache', Grant role, effs :: 'x effect list)"
    and "aw_phase w i = AOutside" and "aw_clk w \<le> az_now_get e" and "az_now_get e \<le> az_now_set e"
  shows "\<exists>w' t u p. (auth_step sha sp)\<^sup>*\<^sup>* w w' \<and> aw_cache w' = cache' \<and>
    BasicAuth rq = Some (u, p) \<and> aw_phase w' i = AGranted t u p role"
  using assms(1)
proof (cases rule: authorize_grant)
  case (hit u p)
  let ?w = "w\<lparr>aw_clk := az_now_get e, aw_phase := (aw_phase w)(i := AGranted (az_now_get e) u p role)\<rparr>"
  have "auth_step sha sp w ?w" using hit assms(2,3) by (intro auth_step.hit)
  then show ?thesis using hit by (intro exI [of _ ?w]) auto
next
  case (miss u p)
  then obtain resp where resp: "BasicAuth rq = Some (u, p)" "u \<noteq> []"
    "auth_reply (az_helper e) sp u p = Some resp" "ar_Ok resp" "ar_Role resp = role"
    by (auto simp: accepts_def split: option.splits)
  define t where "t = az_now_get e"
  define t' where "t' = az_now_set e"
  let ?w1 = "w\<lparr>aw_clk := t, aw_phase := (aw_phase w)(i := AAsking u p)\<rparr>"
  let ?w2 = "?w1\<lparr>aw_replies := (u, p, role, t) # aw_replies w, aw_phase := (aw_phase w)(i := AAccepted u p role t)\<rparr>"
  let ?w3 = "?w2\<lparr>aw_clk := t', aw_cache := cache', aw_stored := (u, p, role, t') # aw_stored w,
    aw_phase := (aw_phase w)(i := AGranted t' u p role)\<rparr>"
  have "auth_step sha sp w ?w1"
    using auth_step.miss [of w i t rq u p sha sp] miss(2) resp assms(2,3) by (simp add: t_def)
  moreover have "auth_step sha sp ?w1 ?w2"
    using auth_step.accept [of ?w1 i u p t "az_helper e" sp resp sha] resp by simp
  moreover have "auth_step sha sp ?w2 ?w3"
    using auth_step.store [of ?w2 i u p role t t' sha sp] assms(4) miss(3) by (simp add: t_def t'_def)
  ultimately have "(auth_step sha sp)\<^sup>*\<^sup>* w ?w3"
    by (meson converse_rtranclp_into_rtranclp rtranclp.rtrancl_refl)
  then show ?thesis using resp(1) by (intro exI [of _ ?w3]) auto
qed

section \<open>Properties\<close>

text \<open>
  C3: however the look-ups, replies and updates of concurrent requests interleave, the cache
  answers as the log of its updates does: by the newest update for the same user and a
  password with the same digest, if that is at most five minutes old.
\<close>

theorem concurrent_cache_refines_log:
  assumes "(auth_step sha sp)\<^sup>*\<^sup>* (auth_start t0) w" and "CHR '':'' \<notin> set u"
  shows "cache_get sha t u p (aw_cache w) =
    log_get (300 * second) (same_digest sha) t u p (aw_stored w)"
  using ac.refines_get [OF auth_invD(1) [OF auth_reach_inv [OF assms(1)]]] assms(2)
  by (simp add: user_name_def az_cacheTTL_def)

text \<open>
  C2: however they interleave, for a request that is granted a role the cache was updated with
  this role for the same user and a password of the same digest, at an instant not after the
  grant and at most five minutes before it; and that update followed a reply of the helper
  that gave this role to these credentials.
\<close>

theorem concurrent_grants_vouched:
  assumes "(auth_step sha sp)\<^sup>*\<^sup>* (auth_start t0) w" and "aw_phase w i = AGranted t u p role"
  shows "\<exists>q tr ts. (u, q, role, ts) \<in> set (aw_stored w) \<and> sha q = sha p \<and> ts \<le> t \<and> t \<le> ts + 300 * second \<and>
    (u, q, role, tr) \<in> set (aw_replies w) \<and> tr \<le> ts"
  using auth_invD(4) [OF auth_reach_inv [OF assms(1)], of i] assms(2)
  by (auto simp: vouched_def same_digest_def replied_def az_cacheTTL_def)

lemma sample_auth_run:
  "\<exists>w. (auth_step id ''/s'')\<^sup>*\<^sup>* (auth_start 0) w \<and> aw_phase w 0 = AGranted 5 ''ann'' ''pw'' ''admin'' \<and>
     aw_stored w = [(''ann'', ''pw'', ''admin'', 5)] \<and> aw_replies w = [(''ann'', ''pw'', ''admin'', 5)]"
proof -
  let ?w0 = "auth_start 0"
  let ?w1 = "?w0\<lparr>aw_clk := 5, aw_phase := (\<lambda>i. AOutside)(0 := AAsking ''ann'' ''pw'')\<rparr>"
  let ?w2 = "?w1\<lparr>aw_replies := [(''ann'', ''pw'', ''admin'', 5)],
    aw_phase := (\<lambda>i. AOutside)(0 := AAccepted ''ann'' ''pw'' ''admin'' 5)\<rparr>"
  let ?w3 = "?w2\<lparr>aw_cache := cache_set id 5 ''ann'' ''pw'' ''admin'' Map.empty,
    aw_stored := [(''ann'', ''pw'', ''admin'', 5)],
    aw_phase := (\<lambda>i. AOutside)(0 := AGranted 5 ''ann'' ''pw'' ''admin'')\<rparr>"
  have "auth_step id ''/s'' ?w0 ?w1"
    using auth_step.miss [of ?w0 0 5 sample_request "''ann''" "''pw''" id "''/s''"] sample_credentials
    by (simp add: auth_start_def cache_get_def)
  moreover have "auth_step id ''/s'' ?w1 ?w2"
    using auth_step.accept [of ?w1 0 "''ann''" "''pw''" 5 sample_helper "''/s''" _ id] sample_response
    by (simp add: auth_start_def auth_reply_def sample_helper_def)
  moreover have "auth_step id ''/s'' ?w2 ?w3"
    using auth_step.store [of ?w2 0 "''ann''" "''pw''" "''admin''" 5 5 id "''/s''"]
    by (simp add: auth_start_def)
  ultimately have "(auth_step id ''/s'')\<^sup>*\<^sup>* ?w0 ?w3"
    by (meson converse_rtranclp_into_rtranclp rtranclp.rtrancl_refl)
  then show ?thesis by (intro exI [of _ ?w3]) simp
qed

lemma concurrent_cache_refines_log_witness:
  "\<exists>w. (auth_step id ''/s'')\<^sup>*\<^sup>* (auth_start 0) w \<and> cache_get id 6 ''ann'' ''pw'' (aw_cache w) = Some ''admin'' \<and>
     cache_get id (6 + 300 * second) ''ann'' ''pw'' (aw_cache w) = None"
proof -
  obtain w where w: "(auth_step id ''/s'')\<^sup>*\<^sup>* (auth_start 0) w"
    "aw_stored w = [(''ann'', ''pw'', ''admin'', 5)]" using sample_auth_run by blast
  have "CHR '':'' \<notin> set ''ann''" by simp
  from concurrent_cache_refines_log [OF w(1) this] w show ?thesis
    by (intro exI [of _ w]) (simp add: same_digest_def second_def)
qed

lemma concurrent_grants_vouched_witness:
  "\<exists>w q tr ts. (auth_step id ''/s'')\<^sup>*\<^sup>* (auth_start 0) w \<and> (''ann'', q, ''admin'', ts) \<in> set (aw_stored w) \<and>
     ts \<le> 5 \<and> 5 \<le> ts + 300 * second \<and> (''ann'', q, ''admin'', tr) \<in> set (aw_replies w) \<and> tr \<le> ts"
proof -
  obtain w where w: "(auth_step id ''/s'')\<^sup>*\<^sup>* (auth_start 0) w" "aw_phase w 0 = AGranted 5 ''ann'' ''pw'' ''admin''"
    using sample_auth_run by blast
  from concurrent_grants_vouched [OF w] w(1) show ?thesis by blast
qed

text \<open>
  The order of replies is not the order of updates: from a world with two requests of the
  same credentials waiting for the helper, the interleaving exists in which the role of the
  earlier reply overwrites that of the later one, and is served for five minutes more.
\<close>

theorem concurrent_earlier_reply_can_win:
  assumes "aw_phase w i = AAsking u p" and "aw_phase w j = AAsking u p" and "i \<noteq> j" and "aw_clk w \<le> t"
    and "auth_reply hp1 sp u p = Some r1" and "ar_Ok r1" and "auth_reply hp2 sp u p = Some r2" and "ar_Ok r2"
  shows "\<exists>w'. (auth_step sha sp)\<^sup>*\<^sup>* w w' \<and>
    aw_replies w' = (u, p, ar_Role r2, t + 1) # (u, p, ar_Role r1, t) # aw_replies w \<and>
    aw_stored w' = (u, p, ar_Role r1, t + 3) # (u, p, ar_Role r2, t + 2) # aw_stored w \<and>
    cache_get sha (t + 3 + 300 * second) u p (aw_cache w') = Some (ar_Role r1)"
proof -
  let ?w1 = "w\<lparr>aw_clk := t, aw_replies := (u, p, ar_Role r1, t) # aw_replies w,
    aw_phase := (aw_phase w)(i := AAccepted u p (ar_Role r1) t)\<rparr>"
  let ?w2 = "?w1\<lparr>aw_clk := t + 1, aw_replies := (u, p, ar_Role r2, t + 1) # aw_replies ?w1,
    aw_phase := (aw_phase ?w1)(j := AAccepted u p (ar_Role r2) (t + 1))\<rparr>"
  let ?w3 = "?w2\<lparr>aw_clk := t + 2, aw_cache := cache_set sha (t + 2) u p (ar_Role r2) (aw_cache ?w2),
    aw_stored := (u, p, ar_Role r2, t + 2) # aw_stored ?w2,
    aw_phase := (aw_phase ?w2)(j := AGranted (t + 2) u p (ar_Role r2))\<rparr>"
  let ?w4 = "?w3\<lparr>aw_clk := t + 3, aw_cache := cache_set sha (t + 3) u p (ar_Role r1) (aw_cache ?w3),
    aw_stored := (u, p, ar_Role r1, t + 3) # aw_stored ?w3,
    aw_phase := (aw_phase ?w3)(i := AGranted (t + 3) u p (ar_Role r1))\<rparr>"
  have "auth_step sha sp w ?w1" using assms by (intro auth_step.accept)
  moreover have "auth_step sha sp ?w1 ?w2" using assms by (intro auth_step.accept [where hp = hp2]) simp_all
  moreover have "auth_step sha sp ?w2 ?w3" using assms(3) by (intro auth_step.store [where tr = "t + 1"]) simp_all
  moreover have "auth_step sha sp ?w3 ?w4" using assms(3) by (intro auth_step.store [where tr = t]) simp_all
  ultimately have "(auth_step sha sp)\<^sup>*\<^sup>* w ?w4"
    by (meson converse_rtranclp_into_rtranclp rtranclp.rtrancl_refl)
  then show ?thesis
    by (intro exI [of _ ?w4]) (simp add: cache_get_set az_cacheTTL_def)
qed

definition readonly_reply :: string where
  "readonly_reply = json_encode (JObj [(''ok'', JBool True), (''role'', JStr ''readonly'')])"

definition readonly_helper :: helper where
  "readonly_helper = sample_helper\<lparr>hp_call := (\<lambda>socketPath req. Replied readonly_reply)\<rparr>"

text \<open>Two requests of an administrator wait for the helper, who demotes her between its replies.\<close>

lemma concurrent_earlier_reply_can_win_witness:
  "\<exists>w. (auth_step id ''/s'')\<^sup>*\<^sup>* (auth_start 0) w \<and>
     aw_replies w = [(''ann'', ''pw'', ''readonly'', 1), (''ann'', ''pw'', ''admin'', 0)] \<and>
     cache_get id (3 + 300 * second) ''ann'' ''pw'' (aw_cache w) = Some ''admin''"
proof -
  let ?w0 = "auth_start 0"
  let ?w1 = "?w0\<lparr>aw_clk := 0, aw_phase := (aw_phase ?w0)(0 := AAsking ''ann'' ''pw'')\<rparr>"
  let ?v = "?w1\<lparr>aw_clk := 0, aw_phase := (aw_phase ?w1)(1 := AAsking ''ann'' ''pw'')\<rparr>"
  have "auth_step id ''/s'' ?w0 ?w1"
    by (rule auth_step.miss [where rq = sample_request]) (simp_all add: auth_start_def cache_get_def sample_credentials)
  moreover have "auth_step id ''/s'' ?w1 ?v"
    by (rule auth_step.miss [where rq = sample_request]) (simp_all add: auth_start_def cache_get_def sample_credentials)
  ultimately have run: "(auth_step id ''/s'')\<^sup>*\<^sup>* ?w0 ?v"
    by (meson converse_rtranclp_into_rtranclp rtranclp.rtrancl_refl)
  have r: "auth_reply sample_helper ''/s'' ''ann'' ''pw'' =
      Some \<lparr>ar_Ok = True, ar_Username = [], ar_Role = ''admin'', ar_Error = [], ar_Networks = []\<rparr>"
    by (simp add: auth_reply_def sample_helper_def sample_response)
  have "decode_response readonly_reply =
      Some \<lparr>ar_Ok = True, ar_Username = [], ar_Role = ''readonly'', ar_Error = [], ar_Networks = []\<rparr>"
    by code_simp
  then have r2: "auth_reply readonly_helper ''/s'' ''ann'' ''pw'' =
      Some \<lparr>ar_Ok = True, ar_Username = [], ar_Role = ''readonly'', ar_Error = [], ar_Networks = []\<rparr>"
    by (simp add: auth_reply_def readonly_helper_def sample_helper_def)
  have h: "aw_phase ?v 0 = AAsking ''ann'' ''pw''" "aw_phase ?v 1 = AAsking ''ann'' ''pw''" "(0 :: nat) \<noteq> 1"
    "aw_clk ?v \<le> 0" "aw_replies ?v = []"
    by (simp_all add: auth_start_def)
  from concurrent_earlier_reply_can_win [OF h(1-4) r _ r2, of id] obtain w' where
    "(auth_step id ''/s'')\<^sup>*\<^sup>* ?v w'" "aw_replies w' = [(''ann'', ''pw'', ''readonly'', 1), (''ann'', ''pw'', ''admin'', 0)]"
    "cache_get id (3 + 300 * second) ''ann'' ''pw'' (aw_cache w') = Some ''admin''"
    using h(5) by (simp; metis)
  then show ?thesis using rtranclp_trans [OF run] by metis
qed

end
