(* ===== verification/Go_Float.thy ===== *)
theory Go_Float
  imports Go_Numbers Complex_Main "HOL-Library.Log_Nat"
begin

text \<open>
  Go's \<open>float64\<close>: IEEE 754 binary64 with rounding to nearest, ties to even. A finite
  value is the rational number it denotes (the two zeros are one), and every operation
  is the exact rational result, rounded. The facts the components use: rounding is
  monotone, leaves representable numbers alone, keeps the sign, and stays finite on
  bounded inputs.
\<close>

section \<open>Values and rounding\<close>

datatype float64 = Fin rat | PosInf | NegInf | NaN

text \<open>The binary exponent of a positive rational: \<open>2 powi ilog2 x \<le> x < 2 powi (ilog2 x + 1)\<close>.\<close>

definition ilog2 :: "rat \<Rightarrow> int" where
  "ilog2 x = (case quotient_of x of (a, b) \<Rightarrow>
     let k = bitlen a - bitlen b in if 2 powi k \<le> x then k else k - 1)"

text \<open>Nearest integer, a tie going to the even neighbour.\<close>

definition rne :: "rat \<Rightarrow> int" where
  "rne x = (let f = \<lfloor>x\<rfloor>; d = x - of_int f in
     if d < 1 / 2 then f else if 1 / 2 < d then f + 1 else if even f then f else f + 1)"

text \<open>The exponent of the last place: 53 significant bits, and \<open>-1074\<close> for subnormal numbers.\<close>

definition ulp_exp :: "rat \<Rightarrow> int" where
  "ulp_exp x = max (ilog2 x - 52) (- 1074)"

definition round_pos :: "rat \<Rightarrow> rat" where
  "round_pos x = of_int (rne (x / 2 powi ulp_exp x)) * 2 powi ulp_exp x"

definition round_val :: "rat \<Rightarrow> rat" where
  "round_val x = (if x = 0 then 0 else if 0 < x then round_pos x else - round_pos (- x))"

text \<open>Results of magnitude \<open>2 ^ 1024\<close> and more overflow.\<close>

definition overflows :: "rat \<Rightarrow> bool" where
  "overflows r \<longleftrightarrow> r \<noteq> 0 \<and> 1024 \<le> ilog2 \<bar>r\<bar>"

definition f64_clip :: "rat \<Rightarrow> float64" where
  "f64_clip r = (if overflows r then if 0 < r then PosInf else NegInf else Fin r)"

definition f64_round :: "rat \<Rightarrow> float64" where
  "f64_round x = f64_clip (round_val x)"

section \<open>Operations\<close>

definition f64_of_int :: "int \<Rightarrow> float64" where
  "f64_of_int i = f64_round (of_int i)"

definition f64_of_u64 :: "u64 \<Rightarrow> float64" where
  "f64_of_u64 u = f64_round (of_nat (unat u))"

fun f64_neg :: "float64 \<Rightarrow> float64" where
  "f64_neg (Fin a) = Fin (- a)"
| "f64_neg PosInf = NegInf"
| "f64_neg NegInf = PosInf"
| "f64_neg NaN = NaN"

fun f64_add :: "float64 \<Rightarrow> float64 \<Rightarrow> float64" where
  "f64_add (Fin a) (Fin b) = f64_round (a + b)"
| "f64_add NaN y = NaN"
| "f64_add x NaN = NaN"
| "f64_add PosInf NegInf = NaN"
| "f64_add NegInf PosInf = NaN"
| "f64_add PosInf y = PosInf"
| "f64_add NegInf y = NegInf"
| "f64_add x y = y"

definition f64_inf :: "rat \<Rightarrow> float64" where
  "f64_inf s = (if 0 < s then PosInf else if s < 0 then NegInf else NaN)"

fun f64_sgn :: "float64 \<Rightarrow> rat" where
  "f64_sgn (Fin a) = sgn a"
| "f64_sgn PosInf = 1"
| "f64_sgn NegInf = - 1"
| "f64_sgn NaN = 0"

fun f64_mul :: "float64 \<Rightarrow> float64 \<Rightarrow> float64" where
  "f64_mul (Fin a) (Fin b) = f64_round (a * b)"
| "f64_mul x y = f64_inf (f64_sgn x * f64_sgn y)"

text \<open>
  Division; the divisors of the program are positive constants and positive elapsed
  times, so the sign of a zero divisor does not matter.
\<close>

fun f64_div :: "float64 \<Rightarrow> float64 \<Rightarrow> float64" where
  "f64_div (Fin a) (Fin b) = (if b = 0 then f64_inf a else f64_round (a / b))"
| "f64_div (Fin a) NaN = NaN"
| "f64_div (Fin a) y = Fin 0"
| "f64_div x (Fin b) = f64_inf (f64_sgn x * (if b < 0 then - 1 else 1))"
| "f64_div x y = NaN"

fun f64_le :: "float64 \<Rightarrow> float64 \<Rightarrow> bool" where
  "f64_le (Fin a) (Fin b) \<longleftrightarrow> a \<le> b"
| "f64_le NaN y \<longleftrightarrow> False"
| "f64_le x NaN \<longleftrightarrow> False"
| "f64_le NegInf y \<longleftrightarrow> True"
| "f64_le x PosInf \<longleftrightarrow> True"
| "f64_le x y \<longleftrightarrow> False"

text \<open>
  \<open>int(f)\<close> truncates towards zero. For a value out of range (and for NaN) the language
  leaves the result to the implementation, which is the argument \<open>oor\<close>.
\<close>

definition trunc_rat :: "rat \<Rightarrow> int" where
  "trunc_rat a = (if 0 \<le> a then \<lfloor>a\<rfloor> else \<lceil>a\<rceil>)"

definition f64_to_int :: "(float64 \<Rightarrow> int) \<Rightarrow> float64 \<Rightarrow> int" where
  "f64_to_int oor x =
     (case x of
        Fin a \<Rightarrow> (let t = trunc_rat a in if - (2 ^ 63) \<le> t \<and> t < 2 ^ 63 then t else oor x)
      | _ \<Rightarrow> oor x)"

text \<open>\<open>Duration.Seconds\<close>: whole seconds plus the remaining nanoseconds over \<open>1e9\<close>.\<close>

definition trunc_div :: "int \<Rightarrow> int \<Rightarrow> int" where
  "trunc_div a b = sgn a * sgn b * (\<bar>a\<bar> div \<bar>b\<bar>)"

definition duration_seconds :: "duration \<Rightarrow> float64" where
  "duration_seconds d =
     (let sec = trunc_div d second; nsec = d - sec * second in
      f64_add (f64_of_int sec) (f64_div (f64_of_int nsec) (Fin 1000000000)))"

definition f64_finite :: "float64 \<Rightarrow> bool" where
  "f64_finite x \<longleftrightarrow> (\<exists>a. x = Fin a)"

section \<open>Rounding to an integer\<close>

lemma rne_of_int [simp]: "rne (of_int n) = n"
  by (simp add: rne_def)

lemma rne_bounds: "\<lfloor>x\<rfloor> \<le> rne x \<and> rne x \<le> \<lfloor>x\<rfloor> + 1"
  by (simp add: rne_def Let_def)

lemma rne_mono: "x \<le> y \<Longrightarrow> rne x \<le> rne y"
proof -
  assume le: "x \<le> y"
  then have fl: "\<lfloor>x\<rfloor> \<le> \<lfloor>y\<rfloor>" by (rule floor_mono)
  show ?thesis
  proof (cases "\<lfloor>x\<rfloor> = \<lfloor>y\<rfloor>")
    case True
    with le show ?thesis by (auto simp: rne_def Let_def)
  next
    case False
    with fl rne_bounds [of x] rne_bounds [of y] show ?thesis by linarith
  qed
qed

lemma rne_ge: "of_int n \<le> x \<Longrightarrow> n \<le> rne x"
  using rne_mono [of "of_int n" x] by simp

lemma rne_le: "x \<le> of_int n \<Longrightarrow> rne x \<le> n"
  using rne_mono [of x "of_int n"] by simp

section \<open>The binary exponent\<close>

lemma bitlen_rat_bounds:
  assumes "0 < a"
  shows "(2 :: rat) powi (bitlen a - 1) \<le> of_int a" and "of_int a < (2 :: rat) powi (bitlen a)"
proof -
  have pos: "1 \<le> bitlen a" using assms by (auto simp: bitlen_alt_def)
  then have n: "bitlen a = int (nat (bitlen a))" "bitlen a - 1 = int (nat (bitlen a - 1))"
    by simp_all
  have b: "2 ^ nat (bitlen a - 1) \<le> a" "a < 2 ^ nat (bitlen a)"
    using bitlen_bounds [OF assms] by auto
  have "(2 :: rat) ^ nat (bitlen a - 1) = of_int (2 ^ nat (bitlen a - 1))" by simp
  also have "\<dots> \<le> of_int a" using b(1) by (simp only: of_int_le_iff)
  finally show "(2 :: rat) powi (bitlen a - 1) \<le> of_int a"
    by (subst n(2)) (simp only: power_int_of_nat)
  have "(of_int a :: rat) < of_int (2 ^ nat (bitlen a))" using b(2) by (simp only: of_int_less_iff)
  then show "of_int a < (2 :: rat) powi (bitlen a)"
    by (subst n(1)) (simp only: power_int_of_nat of_int_power of_int_numeral)
qed

lemma ilog2_bounds:
  assumes "0 < x"
  shows "2 powi ilog2 x \<le> x" and "x < 2 powi (ilog2 x + 1)"
proof -
  obtain a b where q: "quotient_of x = (a, b)" by (cases "quotient_of x")
  then have x: "x = of_int a / of_int b" and b: "0 < b"
    using quotient_of_div quotient_of_denom_pos by blast+
  then have a: "0 < a" using assms by (simp add: zero_less_divide_iff)
  define k where "k = bitlen a - bitlen b"
  note ba = bitlen_rat_bounds [OF a] and bb = bitlen_rat_bounds [OF b]
  have pos: "(0 :: rat) < of_int a" "(0 :: rat) < of_int b" using a b by simp_all
  have "of_int a / of_int b < (2 :: rat) powi bitlen a / 2 powi (bitlen b - 1)"
    using ba bb pos by (intro frac_less) auto
  also have "\<dots> = 2 powi (bitlen a - (bitlen b - 1))"
    by (simp add: power_int_diff [symmetric])
  also have "bitlen a - (bitlen b - 1) = k + 1"
    by (simp add: k_def)
  finally have up: "x < 2 powi (k + 1)" by (simp add: x)
  have "k - 1 = bitlen a - 1 - bitlen b" by (simp add: k_def)
  then have "(2 :: rat) powi (k - 1) = 2 powi (bitlen a - 1) / 2 powi bitlen b"
    by (simp only: power_int_diff [symmetric]) (simp add: power_int_diff)
  also have "\<dots> \<le> of_int a / of_int b"
    using ba bb pos by (intro frac_le) auto
  finally have low: "2 powi (k - 1) \<le> x" by (simp add: x)
  show "2 powi ilog2 x \<le> x" and "x < 2 powi (ilog2 x + 1)"
    using up low by (auto simp: ilog2_def q k_def [symmetric] Let_def)
qed

lemma powi2_le_iff: "(2 :: rat) powi i \<le> 2 powi j \<longleftrightarrow> i \<le> j"
  by (metis linorder_not_le one_less_numeral_iff power_int_increasing power_int_strict_increasing
      semiring_norm(76) less_imp_le)

lemma powi2_less_iff: "(2 :: rat) powi i < 2 powi j \<longleftrightarrow> i < j"
  using powi2_le_iff [of j i] by linarith

lemma ilog2_unique:
  assumes "2 powi e \<le> x" and "x < 2 powi (e + 1)"
  shows "ilog2 x = e"
proof -
  have "0 < x" using assms(1) by (rule less_le_trans [rotated]) simp
  note b = ilog2_bounds [OF this]
  have "2 powi e < (2 :: rat) powi (ilog2 x + 1)" "2 powi ilog2 x < (2 :: rat) powi (e + 1)"
    using assms b by (auto intro: le_less_trans)
  then show ?thesis by (simp add: powi2_less_iff)
qed

lemma ilog2_mono: "0 < x \<Longrightarrow> x \<le> y \<Longrightarrow> ilog2 x \<le> ilog2 y"
proof -
  assume "0 < x" "x \<le> y"
  then have "2 powi ilog2 x < (2 :: rat) powi (ilog2 y + 1)"
    using ilog2_bounds [of x] ilog2_bounds [of y] by linarith
  then show ?thesis by (simp add: powi2_less_iff)
qed


section \<open>Rounding is monotone and exact on representable numbers\<close>

lemma ulp_pos [simp]: "(0 :: rat) < 2 powi ulp_exp x"
  by simp

lemma powi2_split: "i \<le> j \<Longrightarrow> (2 :: rat) powi i * of_int (2 ^ nat (j - i)) = 2 powi j"
proof -
  assume "i \<le> j"
  define n where "n = nat (j - i)"
  have "(2 :: rat) powi (i + int n) = 2 powi i * 2 ^ n" by (simp add: power_int_add)
  moreover have "i + int n = j" using \<open>i \<le> j\<close> by (simp add: n_def)
  ultimately show ?thesis by (simp add: n_def)
qed

text \<open>A multiple of a power of two that is no finer than the last place is left alone.\<close>

lemma round_pos_exact:
  assumes "x = of_int k * 2 powi e" and "ulp_exp x \<le> e"
  shows "round_pos x = x"
proof -
  have split: "x = of_int (k * 2 ^ nat (e - ulp_exp x)) * 2 powi ulp_exp x"
    using assms(1) powi2_split [OF assms(2)] by (simp add: mult.assoc mult.commute)
  then have "x / 2 powi ulp_exp x = of_int (k * 2 ^ nat (e - ulp_exp x))"
    by (metis nonzero_mult_div_cancel_right power_int_eq_0_iff zero_neq_numeral)
  then have "rne (x / 2 powi ulp_exp x) = k * 2 ^ nat (e - ulp_exp x)"
    by (simp only: rne_of_int)
  then show ?thesis unfolding round_pos_def using split by simp
qed

lemma round_pos_ge:
  assumes "2 powi ulp_exp x * of_int k \<le> x"
  shows "2 powi ulp_exp x * of_int k \<le> round_pos x"
proof -
  have "of_int k \<le> x / 2 powi ulp_exp x"
    using assms by (simp add: field_simps)
  then have "k \<le> rne (x / 2 powi ulp_exp x)" by (rule rne_ge)
  then show ?thesis by (simp add: round_pos_def mult.commute)
qed

lemma round_pos_le:
  assumes "x \<le> 2 powi ulp_exp x * of_int k"
  shows "round_pos x \<le> 2 powi ulp_exp x * of_int k"
proof -
  have "x / 2 powi ulp_exp x \<le> of_int k"
    using assms by (simp add: field_simps)
  then have "rne (x / 2 powi ulp_exp x) \<le> k" by (rule rne_le)
  then show ?thesis by (simp add: round_pos_def mult.commute)
qed

lemma round_pos_nonneg: "0 < x \<Longrightarrow> 0 \<le> round_pos x"
  using round_pos_ge [of x 0] by simp

lemma round_pos_mono:
  assumes "0 < x" and "x \<le> y"
  shows "round_pos x \<le> round_pos y"
proof (cases "ulp_exp x = ulp_exp y")
  case True
  with assms show ?thesis
    by (simp add: round_pos_def rne_mono divide_right_mono)
next
  case False
  define B where "B = (2 :: rat) powi ilog2 y"
  have log: "ilog2 x \<le> ilog2 y" using assms by (rule ilog2_mono)
  with False have lt: "ilog2 x < ilog2 y" and uy: "ulp_exp y = ilog2 y - 52"
    and ux: "ulp_exp x \<le> ilog2 y"
    by (auto simp: ulp_exp_def max_def split: if_splits)
  have "x < 2 powi (ilog2 x + 1)" using ilog2_bounds assms by blast
  also have "\<dots> \<le> B" using lt by (simp add: B_def powi2_le_iff)
  finally have "x \<le> 2 powi ulp_exp x * of_int (2 ^ nat (ilog2 y - ulp_exp x))"
    by (simp only: powi2_split [OF ux] B_def less_imp_le)
  then have "round_pos x \<le> 2 powi ulp_exp x * of_int (2 ^ nat (ilog2 y - ulp_exp x))"
    by (rule round_pos_le)
  then have upper: "round_pos x \<le> B" by (simp only: powi2_split [OF ux] B_def)
  have uy': "ulp_exp y \<le> ilog2 y" using uy by simp
  have "0 < y" using assms by simp
  then have "2 powi ulp_exp y * of_int (2 ^ nat (ilog2 y - ulp_exp y)) \<le> y"
    using ilog2_bounds(1) by (simp only: powi2_split [OF uy'])
  then have "2 powi ulp_exp y * of_int (2 ^ nat (ilog2 y - ulp_exp y)) \<le> round_pos y"
    by (rule round_pos_ge)
  then have "B \<le> round_pos y" by (simp only: powi2_split [OF uy'] B_def)
  with upper show ?thesis by simp
qed

lemma round_val_mono: "x \<le> y \<Longrightarrow> round_val x \<le> round_val y"
  using round_pos_nonneg [of y] round_pos_nonneg [of "- x"] round_pos_mono [of x y]
    round_pos_mono [of "- y" "- x"]
  by (auto simp: round_val_def)

lemma round_val_0 [simp]: "round_val 0 = 0"
  by (simp add: round_val_def)

lemma round_val_nonneg: "0 \<le> x \<Longrightarrow> 0 \<le> round_val x"
  using round_val_mono [of 0 x] by simp

lemma round_val_exact:
  assumes "0 < x" and "x = of_int k * 2 powi e" and "ulp_exp x \<le> e"
  shows "round_val x = x"
  using assms round_pos_exact by (simp add: round_val_def)

text \<open>Integers of at most 53 bits are representable.\<close>

lemma round_val_of_int:
  assumes "0 \<le> i" and "i < 2 ^ 53"
  shows "round_val (of_int i) = of_int i"
proof (cases "i = 0")
  case False
  have "(of_int i :: rat) < of_int (2 ^ 53)" using assms(2) by (simp only: of_int_less_iff)
  then have lt: "(of_int i :: rat) < 2 powi 53" by simp
  have "2 powi ilog2 (of_int i) \<le> (of_int i :: rat)"
    using ilog2_bounds(1) [of "of_int i"] assms False by simp
  with lt have "(2 :: rat) powi ilog2 (of_int i) < 2 powi 53" by linarith
  then have "ilog2 (of_int i) < 53" by (simp only: powi2_less_iff)
  then have "ulp_exp (of_int i) \<le> 0" by (simp add: ulp_exp_def)
  with assms False show ?thesis
    by (intro round_val_exact [of _ i 0]) auto
qed simp

text \<open>Powers of two in the exponent range are representable.\<close>

lemma round_val_pow2:
  assumes "- 1074 \<le> e"
  shows "round_val (2 powi e) = 2 powi e"
proof -
  have "ilog2 (2 powi e) = e" by (rule ilog2_unique) (simp_all add: powi2_less_iff)
  with assms show ?thesis
    by (intro round_val_exact [of _ 1 e]) (auto simp: ulp_exp_def)
qed

lemma round_val_less_overflow:
  assumes "\<bar>x\<bar> \<le> 2 powi 1023"
  shows "\<bar>round_val x\<bar> < 2 powi 1024"
proof -
  have "round_val \<bar>x\<bar> \<le> 2 powi 1023"
    using round_val_mono [OF assms] round_val_pow2 [of 1023] by simp
  also have "\<dots> < (2 :: rat) powi 1024" by (simp only: powi2_less_iff)
  finally have "round_val \<bar>x\<bar> < 2 powi 1024" .
  moreover have "\<bar>round_val x\<bar> = round_val \<bar>x\<bar>"
    using round_pos_nonneg [of x] round_pos_nonneg [of "- x"] by (auto simp: round_val_def)
  ultimately show ?thesis by (simp only:)
qed

text \<open>The overflow test is a comparison with \<open>2 ^ 1024\<close>.\<close>

lemma overflows_iff: "overflows r \<longleftrightarrow> 2 powi 1024 \<le> \<bar>r\<bar>"
proof (cases "r = 0")
  case False
  then have pos: "0 < \<bar>r\<bar>" by simp
  have "1024 \<le> ilog2 \<bar>r\<bar> \<longleftrightarrow> 2 powi 1024 \<le> \<bar>r\<bar>"
  proof
    assume "1024 \<le> ilog2 \<bar>r\<bar>"
    then have "(2 :: rat) powi 1024 \<le> 2 powi ilog2 \<bar>r\<bar>" by (simp only: powi2_le_iff)
    then show "2 powi 1024 \<le> \<bar>r\<bar>" using ilog2_bounds(1) [OF pos] by (rule order_trans)
  next
    assume "2 powi 1024 \<le> \<bar>r\<bar>"
    then have "(2 :: rat) powi 1024 < 2 powi (ilog2 \<bar>r\<bar> + 1)"
      using ilog2_bounds(2) [OF pos] by (rule le_less_trans)
    then have "1024 < ilog2 \<bar>r\<bar> + 1" by (simp only: powi2_less_iff)
    then show "1024 \<le> ilog2 \<bar>r\<bar>" by simp
  qed
  with False show ?thesis by (simp only: overflows_def simp_thms)
next
  case True
  have "\<not> (2 :: rat) powi 1024 \<le> 0"
    using zero_less_power_int [of "2 :: rat" 1024] by linarith
  with True show ?thesis by (simp only: overflows_def abs_zero simp_thms)
qed

lemma f64_round_Fin:
  assumes "\<bar>x\<bar> \<le> 2 powi 1023"
  shows "f64_round x = Fin (round_val x)"
proof -
  have "\<bar>round_val x\<bar> < 2 powi 1024" using assms by (rule round_val_less_overflow)
  then have "\<not> overflows (round_val x)" by (simp only: overflows_iff not_le)
  then show ?thesis by (simp add: f64_round_def f64_clip_def)
qed

lemma f64_round_cases: "f64_round x = Fin (round_val x) \<or> f64_round x = PosInf \<or> f64_round x = NegInf"
  by (simp add: f64_round_def f64_clip_def)

lemma f64_round_0 [simp]: "f64_round 0 = Fin 0"
  by (simp add: f64_round_def f64_clip_def overflows_def)

lemma f64_round_mono: "x \<le> y \<Longrightarrow> f64_le (f64_round x) (f64_round y)"
proof -
  assume "x \<le> y"
  then have le: "round_val x \<le> round_val y" by (rule round_val_mono)
  have big: "(0 :: rat) < 2 powi 1024" by simp
  then show ?thesis
    using le by (auto simp add: f64_round_def f64_clip_def overflows_iff simp del: power_int_numeral)
qed

end
