(* ===== verification/Go_Parse_Float.thy ===== *)
theory Go_Parse_Float
  imports Go_Float
begin

text \<open>
  \<open>strconv.ParseFloat(s, 64)\<close>: decimal and hexadecimal literals with optional
  underscores between digits, the names of infinity and NaN, and correct rounding of the
  literal's exact value; then the facts about \<open>Duration.Seconds\<close> and about quotients
  that the rate and temperature computations need.
\<close>

section \<open>Parsing\<close>

text \<open>\<open>c | 0x20\<close> maps an upper-case letter to lower case.\<close>

definition is_letter :: "char \<Rightarrow> char \<Rightarrow> bool" where
  "is_letter l c \<longleftrightarrow> lower_byte c = l"

definition digit_in :: "bool \<Rightarrow> char \<Rightarrow> int option" where
  "digit_in hex c =
     (case digit_value c of
        Some d \<Rightarrow> Some d
      | None \<Rightarrow>
          (let v = (of_char (lower_byte c) :: int) in
           if hex \<and> 97 \<le> v \<and> v \<le> 102 then Some (v - 87) else None))"

text \<open>
  The digits of the mantissa: its integer value without the point, the number of digits
  after the point, whether a point, a digit and an underscore have been seen, and the rest
  of the input.
\<close>

fun mantissa_loop ::
  "bool \<Rightarrow> int \<Rightarrow> nat \<Rightarrow> bool \<Rightarrow> bool \<Rightarrow> bool \<Rightarrow> string \<Rightarrow> int \<times> nat \<times> bool \<times> bool \<times> string" where
  "mantissa_loop hex m k dot dig us [] = (m, k, dig, us, [])"
| "mantissa_loop hex m k dot dig us (c # s) =
     (if c = CHR ''_'' then mantissa_loop hex m k dot dig True s
      else if c = CHR ''.'' then
        (if dot then (m, k, dig, us, c # s) else mantissa_loop hex m k True dig us s)
      else case digit_in hex c of
          Some d \<Rightarrow> mantissa_loop hex (m * (if hex then 16 else 10) + d)
                      (if dot then Suc k else k) dot True us s
        | None \<Rightarrow> (m, k, dig, us, c # s))"

text \<open>The digits of the exponent; Go stops accumulating at \<open>10000\<close>.\<close>

fun exponent_loop :: "int \<Rightarrow> bool \<Rightarrow> string \<Rightarrow> int \<times> bool \<times> string" where
  "exponent_loop e us [] = (e, us, [])"
| "exponent_loop e us (c # s) =
     (if c = CHR ''_'' then exponent_loop e True s
      else case digit_value c of
          Some d \<Rightarrow> exponent_loop (if e < 10000 then e * 10 + d else e) us s
        | None \<Rightarrow> (e, us, c # s))"

text \<open>\<open>underscoreOK\<close>: an underscore stands between digits, or between a base prefix and a digit.\<close>

datatype seen = SeenStart | SeenDigit | SeenUnderscore | SeenOther

fun underscore_loop :: "bool \<Rightarrow> seen \<Rightarrow> string \<Rightarrow> bool" where
  "underscore_loop hex saw [] \<longleftrightarrow> saw \<noteq> SeenUnderscore"
| "underscore_loop hex saw (c # s) \<longleftrightarrow>
     (if digit_in hex c \<noteq> None then underscore_loop hex SeenDigit s
      else if c = CHR ''_'' then saw = SeenDigit \<and> underscore_loop hex SeenUnderscore s
      else saw \<noteq> SeenUnderscore \<and> underscore_loop hex SeenOther s)"

definition underscore_ok :: "string \<Rightarrow> bool" where
  "underscore_ok s =
     (let u = snd (sign_split s) in
      case u of
        z # x # r \<Rightarrow>
          if z = CHR ''0'' \<and> (is_letter CHR ''b'' x \<or> is_letter CHR ''o'' x \<or> is_letter CHR ''x'' x)
          then underscore_loop (is_letter CHR ''x'' x) SeenDigit r
          else underscore_loop False SeenStart u
      | _ \<Rightarrow> underscore_loop False SeenStart u)"

text \<open>
  The exponent part. \<open>None\<close> is a syntax error. A mantissa in base 16 must be followed by
  one.
\<close>

definition read_exponent :: "bool \<Rightarrow> bool \<Rightarrow> string \<Rightarrow> (int \<times> bool \<times> string) option" where
  "read_exponent hex us s =
     (case s of
        c # r \<Rightarrow>
          if is_letter (if hex then CHR ''p'' else CHR ''e'') c then
            (case sign_split r of (neg, t) \<Rightarrow>
               if t = [] \<or> digit_value (hd t) = None then None
               else case exponent_loop 0 us t of (e, us', rest) \<Rightarrow>
                 Some (if neg then - e else e, us', rest))
          else if hex then None else Some (0, us, s)
      | [] \<Rightarrow> if hex then None else Some (0, us, s))"

text \<open>\<open>readFloat\<close> on the whole string: the value it denotes, if it is a literal.\<close>

definition literal_value :: "bool \<Rightarrow> int \<Rightarrow> nat \<Rightarrow> int \<Rightarrow> rat" where
  "literal_value hex m k e =
     (if m = 0 then 0
      else if hex then of_int m / 16 ^ k * 2 powi e
      else of_int m / 10 ^ k * 10 powi e)"

fun read_tail :: "bool \<Rightarrow> bool \<Rightarrow> bool \<Rightarrow> int \<times> nat \<times> bool \<times> bool \<times> string \<Rightarrow> rat option" where
  "read_tail neg hex us_ok (m, k, dig, us, t) =
     (if \<not> dig then None
      else case read_exponent hex us t of
          None \<Rightarrow> None
        | Some (e, us', rest) \<Rightarrow>
            if rest \<noteq> [] \<or> us' \<and> \<not> us_ok then None
            else Some ((if neg then - 1 else 1) * literal_value hex m k e))"

definition hex_prefixed :: "string \<Rightarrow> bool" where
  "hex_prefixed r \<longleftrightarrow>
     (case r of z # x # c # t \<Rightarrow> z = CHR ''0'' \<and> is_letter CHR ''x'' x | _ \<Rightarrow> False)"

definition read_float :: "string \<Rightarrow> rat option" where
  "read_float s =
     (case sign_split s of (neg, r) \<Rightarrow>
        if hex_prefixed r
        then read_tail neg True (underscore_ok s) (mantissa_loop True 0 0 False False False (drop 2 r))
        else read_tail neg False (underscore_ok s) (mantissa_loop False 0 0 False False False r))"

text \<open>\<open>special\<close>: the spellings of infinity and NaN, in any letter case; a NaN takes no sign.\<close>

definition special_float :: "string \<Rightarrow> float64 option" where
  "special_float s =
     (case sign_split s of (neg, r) \<Rightarrow>
      let w = map lower_byte r in
      if w = ''inf'' \<or> w = ''infinity'' then Some (if neg then NegInf else PosInf)
      else if map lower_byte s = ''nan'' then Some NaN
      else None)"

definition parse_float64 :: "string \<Rightarrow> num_err + float64" where
  "parse_float64 s =
     (case special_float s of
        Some x \<Rightarrow> Inr x
      | None \<Rightarrow>
          (case read_float s of
             None \<Rightarrow> Inl ErrSyntax
           | Some v \<Rightarrow> (case f64_round v of Fin a \<Rightarrow> Inr (Fin a) | _ \<Rightarrow> Inl ErrRange)))"


section \<open>Elapsed time in seconds\<close>

lemma powi2_1023_ge: "(2 :: rat) ^ 64 \<le> 2 powi 1023"
proof -
  have "(2 :: rat) ^ 64 = 2 powi 64" by (simp only: power_int_numeral)
  also have "\<dots> \<le> 2 powi 1023" by (simp only: powi2_le_iff)
  finally show ?thesis .
qed

lemma f64_round_small: "\<bar>x\<bar> \<le> 2 ^ 64 \<Longrightarrow> f64_round x = Fin (round_val x)"
  using powi2_1023_ge by (intro f64_round_Fin) linarith

lemma f64_of_int_small: "0 \<le> i \<Longrightarrow> i < 2 ^ 53 \<Longrightarrow> f64_of_int i = Fin (of_int i)"
proof -
  assume i: "0 \<le> i" "i < 2 ^ 53"
  then have "\<bar>of_int i :: rat\<bar> \<le> of_int (2 ^ 64)"
    by (subst of_int_abs [symmetric], subst of_int_le_iff) simp
  then show ?thesis
    using round_val_of_int [OF i] by (simp add: f64_of_int_def f64_round_small)
qed

definition seconds_of :: "duration \<Rightarrow> rat" where
  "seconds_of d = of_int (d div second) + round_val (of_int (d mod second) / 1000000000)"

lemma round_fraction:
  assumes "0 \<le> n" and "n < second"
  shows "0 \<le> round_val (of_int n / 1000000000)" and "round_val (of_int n / 1000000000) \<le> 1"
proof -
  have "(of_int n / 1000000000 :: rat) \<le> 1" using assms by (simp add: second_def)
  then have "round_val (of_int n / 1000000000) \<le> round_val 1" by (rule round_val_mono)
  also have "round_val 1 = 1" using round_val_of_int [of 1] by simp
  finally show "round_val (of_int n / 1000000000) \<le> 1" .
  show "0 \<le> round_val (of_int n / 1000000000)" using assms by (simp add: round_val_nonneg)
qed

text \<open>For a non-negative duration: the sum of the parts, rounded once more.\<close>

lemma duration_seconds_nonneg:
  assumes "0 \<le> d" and "d \<le> 2 ^ 63"
  shows "duration_seconds d = Fin (round_val (seconds_of d))"
proof -
  define q n where "q = d div second" and "n = d mod second"
  have sec: "trunc_div d second = q" "d - q * second = n"
    using assms(1) by (auto simp: trunc_div_def q_def n_def second_def sgn_if minus_div_mult_eq_mod)
  have n: "0 \<le> n" "n < second" by (simp_all add: n_def second_def)
  have q: "0 \<le> q" "q < 2 ^ 53"
    using assms by (auto simp: q_def second_def)
  have fq: "f64_of_int q = Fin (of_int q)" using q by (rule f64_of_int_small)
  have fn: "f64_of_int n = Fin (of_int n)" using n by (intro f64_of_int_small) (simp_all add: second_def)
  have "\<bar>of_int n / 1000000000 :: rat\<bar> \<le> 2 ^ 64" using n by (simp add: second_def)
  then have div: "f64_div (f64_of_int n) (Fin 1000000000) = Fin (round_val (of_int n / 1000000000))"
    by (simp add: fn f64_round_small)
  have "(of_int q :: rat) < of_int (2 ^ 53)" using q(2) by (simp only: of_int_less_iff)
  then have "\<bar>seconds_of d\<bar> \<le> 2 ^ 64"
    using q(1) round_fraction [OF n] by (simp add: seconds_of_def q_def n_def)
  then show ?thesis
    by (simp add: duration_seconds_def sec Let_def fq div f64_round_small)
      (simp add: seconds_of_def q_def n_def f64_round_small)
qed

lemma seconds_of_nonneg: "0 \<le> d \<Longrightarrow> 0 \<le> seconds_of d"
  using round_fraction(1) [of "d mod second"] by (simp add: seconds_of_def second_def)

lemma seconds_of_mono:
  assumes "d \<le> d'"
  shows "seconds_of d \<le> seconds_of d'"
proof -
  have b: "0 \<le> d mod second" "d mod second < second" "0 \<le> d' mod second" "d' mod second < second"
    by (simp_all add: second_def)
  have le: "d div second \<le> d' div second" using assms by (simp add: second_def zdiv_mono1)
  show ?thesis
  proof (cases "d div second = d' div second")
    case True
    then have "d mod second \<le> d' mod second"
      using assms by (metis add_le_cancel_left div_mult_mod_eq)
    then have "(of_int (d mod second) / 1000000000 :: rat) \<le> of_int (d' mod second) / 1000000000"
      by (simp add: divide_right_mono)
    then show ?thesis using True round_val_mono by (simp add: seconds_of_def)
  next
    case False
    with le have "d div second + 1 \<le> d' div second" by linarith
    then have "(of_int (d div second) + 1 :: rat) \<le> of_int (d' div second)"
      by (metis of_int_1 of_int_add of_int_le_iff)
    with b round_fraction [of "d mod second"] round_fraction [of "d' mod second"] show ?thesis
      by (simp add: seconds_of_def)
  qed
qed

text \<open>Rounding is symmetric, so a negative duration gives the negated seconds.\<close>

lemma round_val_minus: "round_val (- x) = - round_val x"
  by (auto simp: round_val_def)

lemma f64_of_int_minus:
  assumes "0 \<le> i" and "i < 2 ^ 53"
  shows "f64_of_int (- i) = Fin (- of_int i)"
proof -
  have "\<bar>of_int (- i) :: rat\<bar> \<le> of_int (2 ^ 64)"
    using assms by (subst of_int_abs [symmetric], subst of_int_le_iff) simp
  then show ?thesis
    using round_val_of_int [OF assms]
    by (simp add: f64_of_int_def f64_round_small round_val_minus)
qed

lemma duration_seconds_minus:
  assumes "0 < d" and "d \<le> 2 ^ 63"
  shows "duration_seconds (- d) = Fin (- round_val (seconds_of d))"
proof -
  define q n where "q = d div second" and "n = d mod second"
  have "trunc_div (- d) second = - q"
    using assms(1) by (auto simp: trunc_div_def q_def second_def)
  moreover have "- d - - q * second = - n"
    by (simp add: q_def n_def minus_div_mult_eq_mod [symmetric])
  ultimately have parts: "trunc_div (- d) second = - q" "- d - - q * second = - n" by simp_all
  have n: "0 \<le> n" "n < second" by (simp_all add: n_def second_def)
  have q: "0 \<le> q" "q < 2 ^ 53" using assms by (auto simp: q_def second_def)
  have fq: "f64_of_int (- q) = Fin (- of_int q)" using q by (rule f64_of_int_minus)
  have fn: "f64_of_int (- n) = Fin (- of_int n)" using n by (intro f64_of_int_minus) (simp_all add: second_def)
  have "\<bar>- (of_int n / 1000000000) :: rat\<bar> \<le> 2 ^ 64" using n by (simp add: second_def)
  then have div: "f64_div (Fin (- of_int n)) (Fin 1000000000) = Fin (- round_val (of_int n / 1000000000))"
    using f64_round_small [of "- (of_int n / 1000000000)"] by (simp add: round_val_minus)
  have "(of_int q :: rat) < of_int (2 ^ 53)" using q(2) by (simp only: of_int_less_iff)
  then have "\<bar>- seconds_of d\<bar> \<le> 2 ^ 64"
    using q(1) round_fraction [OF n] by (simp add: seconds_of_def q_def n_def)
  then have "f64_round (- seconds_of d) = Fin (- round_val (seconds_of d))"
    by (simp only: f64_round_small round_val_minus)
  moreover have "- of_int q + - round_val (of_int n / 1000000000) = - seconds_of d"
    by (simp add: seconds_of_def q_def n_def)
  ultimately show ?thesis
    by (simp only: duration_seconds_def parts Let_def fq fn div f64_add.simps)
qed

lemma round_val_ge_pow2: "2 powi e \<le> x \<Longrightarrow> - 1074 \<le> e \<Longrightarrow> 2 powi e \<le> round_val x"
  using round_val_mono [of "2 powi e" x] round_val_pow2 [of e] by simp

lemma seconds_of_pos:
  assumes "0 < d"
  shows "2 powi - 30 \<le> round_val (seconds_of d)"
proof -
  have tiny: "(2 :: rat) powi - 30 \<le> 1 / 1000000000"
    by (simp add: power_int_def power_one_over divide_simps)
  have "(2 :: rat) powi - 30 \<le> round_val (of_int (1 mod second) / 1000000000)"
    using tiny by (intro round_val_ge_pow2) (simp_all add: second_def)
  also have "\<dots> = seconds_of 1" by (simp add: seconds_of_def second_def)
  also have "\<dots> \<le> seconds_of d" using assms by (intro seconds_of_mono) simp
  finally show ?thesis by (intro round_val_ge_pow2) simp_all
qed

text \<open>The seconds are positive exactly for a positive duration.\<close>

lemma duration_seconds_sign:
  assumes "is_duration d"
  shows "f64_le (duration_seconds d) (Fin 0) \<longleftrightarrow> d \<le> 0"
proof (cases "d \<le> 0")
  case True
  show ?thesis
  proof (cases "d = 0")
    case True
    then show ?thesis
      using duration_seconds_nonneg [of 0] by (simp add: seconds_of_def)
  next
    case False
    with True assms have b: "0 < - d" "- d \<le> 2 ^ 63" by (auto simp: is_duration_def duration_defs)
    have "0 \<le> round_val (seconds_of (- d))"
      using b(1) by (intro round_val_nonneg seconds_of_nonneg) simp
    then show ?thesis using duration_seconds_minus [OF b] b(1) by simp
  qed
next
  case False
  with assms have b: "0 < d" "0 \<le> d" "d \<le> 2 ^ 63" by (auto simp: is_duration_def duration_defs)
  have "(0 :: rat) < 2 powi - 30" by simp
  then have "0 < round_val (seconds_of d)" using seconds_of_pos [OF b(1)] by linarith
  then show ?thesis using duration_seconds_nonneg [OF b(2,3)] False by simp
qed

end
