(* ===== verification/Go_Path.thy ===== *)
theory Go_Path
  imports Go_Strings
begin

text \<open>
  \<open>filepath.Join\<close> and \<open>filepath.Clean\<close> on Unix, and reading a file through a file
  system that is a function from paths to contents or errors.
\<close>

section \<open>Paths\<close>

definition slash :: char where
  "slash = CHR ''/''"

function split_on :: "char \<Rightarrow> string \<Rightarrow> string list" where
  "split_on c s =
     (let w = takeWhile (\<lambda>x. x \<noteq> c) s in
      if length w = length s then [w] else w # split_on c (drop (Suc (length w)) s))"
  by pat_completeness auto
termination
proof (relation "measure (\<lambda>(c, s). length s)", goal_cases)
  case (2 c s w)
  then have "length w < length s"
    using length_takeWhile_le [of "\<lambda>x. x \<noteq> c" s] by simp
  then show ?case by simp
qed simp

declare split_on.simps [simp del]

text \<open>
  \<open>Clean\<close> on the elements between slashes: empty and \<open>.\<close> elements vanish, \<open>..\<close>
  removes the element before it, or stays at the front of a relative path and vanishes at
  the root. The stack holds the elements so far, last first.
\<close>

fun clean_elems :: "bool \<Rightarrow> string list \<Rightarrow> string list \<Rightarrow> string list" where
  "clean_elems rooted st [] = rev st"
| "clean_elems rooted st (e # es) =
     (if e = [] \<or> e = ''.'' then clean_elems rooted st es
      else if e = ''..'' then
        (case st of
           [] \<Rightarrow> clean_elems rooted (if rooted then [] else [''..'']) es
         | t # ts \<Rightarrow> if t = ''..'' then clean_elems rooted (''..'' # st) es else clean_elems rooted ts es)
      else clean_elems rooted (e # st) es)"

definition path_clean :: "string \<Rightarrow> string" where
  "path_clean p =
     (let rooted = has_prefix p [slash];
          body = join_with [slash] (clean_elems rooted [] (split_on slash p)) in
      if rooted then slash # body else if body = [] then ''.'' else body)"

definition path_join :: "string list \<Rightarrow> string" where
  "path_join es =
     (let ne = filter (\<lambda>e. e \<noteq> []) es in
      if ne = [] then [] else path_clean (join_with [slash] ne))"

definition path_dir :: "string \<Rightarrow> string" where
  "path_dir p = path_clean (rev (dropWhile (\<lambda>c. c \<noteq> slash) (rev p)))"

section \<open>Files\<close>

type_synonym files = "string \<Rightarrow> go_error + string"

text \<open>\<open>operstate\<close> and \<open>exists\<close> as \<open>New\<close> of the collectors builds them from \<open>SysPath\<close>.\<close>

definition operstate_path :: "string \<Rightarrow> string \<Rightarrow> string" where
  "operstate_path sys name = path_join [sys, ''class'', ''net'', name, ''operstate'']"

definition read_operstate :: "files \<Rightarrow> string \<Rightarrow> string \<Rightarrow> go_error + string" where
  "read_operstate fs sys name =
     (case fs (operstate_path sys name) of Inl e \<Rightarrow> Inl e | Inr b \<Rightarrow> Inr (trim_space b))"

end
