(* ===== verification/Configuration.thy ===== *)
theory Configuration
  imports Go_Strings
begin

text \<open>
  \<open>internal/config/config.go\<close>: the configuration record and its loading from the
  environment, which is a partial map from names to values (\<open>os.LookupEnv\<close>); and
  \<open>internal/buildinfo/buildinfo.go\<close>, whose three link-time variables are a record.
\<close>

section \<open>Model\<close>

record config =
  ListenAddr :: string
  HotspotIf :: string
  WANIf :: string
  AdminIf :: string
  ProcPath :: string
  SysPath :: string
  LeasesPath :: string
  TLSCertFile :: string
  TLSKeyFile :: string
  RequireTLS :: bool
  AuthSocket :: string
  AuthRealm :: string

type_synonym environ = "string \<rightharpoonup> string"

definition getenv :: "environ \<Rightarrow> string \<Rightarrow> string \<Rightarrow> string" where
  "getenv env key def_val =
     (case env key of Some v \<Rightarrow> if v \<noteq> [] then v else def_val | None \<Rightarrow> def_val)"

definition getenvBool :: "(string \<Rightarrow> string) \<Rightarrow> environ \<Rightarrow> string \<Rightarrow> bool \<Rightarrow> bool" where
  "getenvBool uni env key def_val =
     (case env key of
        None \<Rightarrow> def_val
      | Some v \<Rightarrow>
          if v = [] then def_val
          else if to_lower uni (trim_space v) \<in> {''1'', ''true'', ''yes'', ''on''} then True
          else if to_lower uni (trim_space v) \<in> {''0'', ''false'', ''no'', ''off''} then False
          else def_val)"

definition Load :: "(string \<Rightarrow> string) \<Rightarrow> environ \<Rightarrow> config" where
  "Load uni env =
     \<lparr> ListenAddr = getenv env ''LISTEN_ADDR'' '':8080'',
       HotspotIf = getenv env ''HOTSPOT_IF'' ''wlan0'',
       WANIf = getenv env ''WAN_IF'' ''wlan1'',
       AdminIf = getenv env ''ADMIN_IF'' ''eth0'',
       ProcPath = getenv env ''PROC_PATH'' ''/proc'',
       SysPath = getenv env ''SYS_PATH'' ''/sys'',
       LeasesPath = getenv env ''LEASES_PATH'' ''/var/lib/misc/dnsmasq.leases'',
       TLSCertFile = getenv env ''TLS_CERT_FILE'' [],
       TLSKeyFile = getenv env ''TLS_KEY_FILE'' [],
       RequireTLS = getenvBool uni env ''REQUIRE_TLS'' False,
       AuthSocket = getenv env ''AUTH_SOCKET'' [],
       AuthRealm = getenv env ''AUTH_REALM'' ''N1QZS Radio Hotspot'' \<rparr>"

text \<open>The variables that \<open>-ldflags -X\<close> sets, and their defaults.\<close>

record build_info =
  Commit :: string
  Dirty :: string
  BuildTime :: string

definition default_build_info :: build_info where
  "default_build_info = \<lparr>Commit = ''unknown'', Dirty = ''false'', BuildTime = ''unknown''\<rparr>"

definition IsDirty :: "build_info \<Rightarrow> bool" where
  "IsDirty b \<longleftrightarrow> Dirty b = ''true''"

section \<open>Facts\<close>

lemma getenv_cases:
  "getenv env k d = (if env k = None \<or> env k = Some [] then d else the (env k))"
  by (auto simp: getenv_def split: option.splits)

lemma getenv_nonempty: "d \<noteq> [] \<Longrightarrow> getenv env k d \<noteq> []"
  by (auto simp: getenv_def split: option.splits)

lemma getenvBool_default:
  "env k = None \<or> env k = Some [] \<Longrightarrow> getenvBool uni env k d = d"
  by (auto simp: getenvBool_def)

text \<open>
  A boolean variable departs from its default only on one of the four spellings of the
  opposite value; everything else, a misspelt value included, leaves the default.
\<close>

lemma getenvBool_changes_iff:
  "getenvBool uni env k d \<noteq> d \<longleftrightarrow>
     (\<exists>v. env k = Some v \<and> v \<noteq> [] \<and>
        to_lower uni (trim_space v) \<in>
          (if d then {''0'', ''false'', ''no'', ''off''} else {''1'', ''true'', ''yes'', ''on''}))"
  by (cases d; cases "env k") (auto simp: getenvBool_def)

end
