(* ===== verification/Netstats.thy ===== *)
theory Netstats
  imports Go_Parse_Float Go_Path Configuration
begin

text \<open>
  \<open>internal/netstats/throughput.go\<close>: the parser of \<open>/proc/net/dev\<close>, the rate of a byte
  counter, and the collector whose \<open>tick\<close> turns two successive samples into a snapshot.
  Facts: parsing undoes printing; rates are finite and never negative; a snapshot always
  has exactly the configured interfaces; a rate needs two samples that both saw the
  interface.
\<close>

section \<open>Parsing /proc/net/dev\<close>

record parsedLine =
  pl_rxBytes :: u64
  pl_txBytes :: u64

definition parse_dev_line :: "string \<Rightarrow> (string \<times> parsedLine) option" where
  "parse_dev_line line =
     (case index_byte line CHR '':'' of
        None \<Rightarrow> None
      | Some colon \<Rightarrow>
          (let name = trim_space (take colon line); fs = str_fields (drop (Suc colon) line) in
           if name = [] then None
           else if length fs < 16 then None
           else case sscanf_uint64 (fs ! 0) of
               None \<Rightarrow> None
             | Some rx \<Rightarrow>
                 (case sscanf_uint64 (fs ! 8) of
                    None \<Rightarrow> None
                  | Some tx \<Rightarrow> Some (name, \<lparr>pl_rxBytes = rx, pl_txBytes = tx\<rparr>))))"

definition dev_step :: "string \<Rightarrow> (string \<rightharpoonup> parsedLine) \<Rightarrow> (string \<rightharpoonup> parsedLine)" where
  "dev_step line out =
     (case parse_dev_line line of None \<Rightarrow> out | Some (name, p) \<Rightarrow> out(name \<mapsto> p))"

definition parseProcNetDev :: "string \<Rightarrow> (string \<rightharpoonup> parsedLine)" where
  "parseProcNetDev raw = fold dev_step (scan_lines default_token_limit raw) Map.empty"

section \<open>Rates\<close>

definition computeMbps :: "u64 \<Rightarrow> u64 \<Rightarrow> time \<Rightarrow> time \<Rightarrow> float64" where
  "computeMbps prevBytes curBytes prevAt curAt =
     (let elapsed = duration_seconds (time_sub curAt prevAt) in
      if f64_le elapsed (Fin 0) then Fin 0
      else if curBytes < prevBytes then Fin 0
      else f64_div (f64_div (f64_mul (f64_of_u64 (curBytes - prevBytes)) (Fin 8)) (Fin 1000000)) elapsed)"

section \<open>The collector\<close>

record InterfaceStats =
  is_Name :: string
  is_Up :: bool
  is_RxMbps :: float64
  is_TxMbps :: float64
  is_RxTotalBytes :: u64
  is_TxTotalBytes :: u64

record ns_Snapshot =
  ns_At :: time
  ns_Interfaces :: "string \<rightharpoonup> InterfaceStats"

record sample =
  sm_rxBytes :: u64
  sm_txBytes :: u64
  sm_at :: time
  sm_present :: bool

text \<open>The zero value that a missing key of \<open>map[string]sample\<close> yields.\<close>

definition zero_sample :: sample where
  "zero_sample = \<lparr>sm_rxBytes = 0, sm_txBytes = 0, sm_at = 0, sm_present = False\<rparr>"

record ns_Collector =
  ns_ifaces :: "string list"
  ns_interval :: duration
  ns_prev :: "string \<rightharpoonup> sample"
  ns_snap :: ns_Snapshot

text \<open>What one tick sees of the world: the clock, the file, the operstates.\<close>

record ns_env =
  ne_now :: time
  ne_source :: "go_error + string"
  ne_operstate :: "string \<Rightarrow> go_error + string"

definition filterEmpty :: "string list \<Rightarrow> string list" where
  "filterEmpty s = filter (\<lambda>v. v \<noteq> []) s"

definition empty_stats :: "string \<Rightarrow> InterfaceStats" where
  "empty_stats name = \<lparr>is_Name = name, is_Up = False, is_RxMbps = Fin 0, is_TxMbps = Fin 0,
     is_RxTotalBytes = 0, is_TxTotalBytes = 0\<rparr>"

definition initialInterfaces :: "string list \<Rightarrow> (string \<rightharpoonup> InterfaceStats)" where
  "initialInterfaces ifaces = fold (\<lambda>name out. out(name \<mapsto> empty_stats name)) ifaces Map.empty"

definition ns_newWithDeps :: "string list \<Rightarrow> time \<Rightarrow> duration \<Rightarrow> ns_Collector" where
  "ns_newWithDeps ifaces t interval =
     \<lparr>ns_ifaces = ifaces, ns_interval = interval, ns_prev = Map.empty,
      ns_snap = \<lparr>ns_At = t, ns_Interfaces = initialInterfaces ifaces\<rparr>\<rparr>"

definition ns_New :: "config \<Rightarrow> time \<Rightarrow> ns_Collector" where
  "ns_New cfg t = ns_newWithDeps (filterEmpty [HotspotIf cfg, WANIf cfg, AdminIf cfg]) t second"

text \<open>The environment that \<open>New\<close> wires in: files under \<open>ProcPath\<close> and \<open>SysPath\<close>.\<close>

definition ns_production_env :: "config \<Rightarrow> files \<Rightarrow> time \<Rightarrow> ns_env" where
  "ns_production_env cfg fs t =
     \<lparr>ne_now = t, ne_source = fs (path_join [ProcPath cfg, ''net'', ''dev'']),
      ne_operstate = read_operstate fs (SysPath cfg)\<rparr>"

definition ns_isUp :: "ns_env \<Rightarrow> string \<Rightarrow> bool" where
  "ns_isUp e name = (case ne_operstate e name of Inl err \<Rightarrow> False | Inr state \<Rightarrow> state = ''up'')"

text \<open>The samples of this tick; a read error marks every interface as absent.\<close>

definition current_sample :: "ns_env \<Rightarrow> string \<Rightarrow> sample" where
  "current_sample e name =
     (case ne_source e of
        Inl err \<Rightarrow> zero_sample\<lparr>sm_at := ne_now e\<rparr>
      | Inr raw \<Rightarrow>
          (case parseProcNetDev raw name of
             Some s \<Rightarrow> \<lparr>sm_rxBytes = pl_rxBytes s, sm_txBytes = pl_txBytes s,
                        sm_at = ne_now e, sm_present = True\<rparr>
           | None \<Rightarrow> zero_sample\<lparr>sm_at := ne_now e\<rparr>))"

definition current_samples :: "ns_env \<Rightarrow> string list \<Rightarrow> (string \<rightharpoonup> sample)" where
  "current_samples e ifaces = fold (\<lambda>name m. m(name \<mapsto> current_sample e name)) ifaces Map.empty"

definition lookup_sample :: "(string \<rightharpoonup> sample) \<Rightarrow> string \<Rightarrow> sample" where
  "lookup_sample m name = (case m name of None \<Rightarrow> zero_sample | Some s \<Rightarrow> s)"

definition iface_stats :: "ns_env \<Rightarrow> (string \<rightharpoonup> sample) \<Rightarrow> (string \<rightharpoonup> sample) \<Rightarrow> string \<Rightarrow> InterfaceStats" where
  "iface_stats e prevs currents name =
     (let cur = lookup_sample currents name;
          stats = (empty_stats name)\<lparr>is_Up := ns_isUp e name, is_RxTotalBytes := sm_rxBytes cur,
                    is_TxTotalBytes := sm_txBytes cur\<rparr> in
      case prevs name of
        None \<Rightarrow> stats
      | Some prev \<Rightarrow>
          if sm_present cur \<and> sm_present prev then
            stats\<lparr>is_RxMbps := computeMbps (sm_rxBytes prev) (sm_rxBytes cur) (sm_at prev) (sm_at cur),
                  is_TxMbps := computeMbps (sm_txBytes prev) (sm_txBytes cur) (sm_at prev) (sm_at cur)\<rparr>
          else stats)"

definition ns_tick :: "ns_env \<Rightarrow> ns_Collector \<Rightarrow> ns_Collector" where
  "ns_tick e c =
     (let current = current_samples e (ns_ifaces c);
          ifaces = fold (\<lambda>name m. m(name \<mapsto> iface_stats e (ns_prev c) current name)) (ns_ifaces c) Map.empty in
      c\<lparr>ns_prev := current, ns_snap := \<lparr>ns_At = ne_now e, ns_Interfaces = ifaces\<rparr>\<rparr>)"

text \<open>
  \<open>Run\<close>: a tick at once, then one per ticker event until the context is done; the list
  holds what the ticks up to then see.
\<close>

definition ns_Run :: "ns_env \<Rightarrow> ns_env list \<Rightarrow> ns_Collector \<Rightarrow> ns_Collector" where
  "ns_Run e es c = fold ns_tick es (ns_tick e c)"

definition ns_Snapshot_of :: "ns_Collector \<Rightarrow> ns_Snapshot" where
  "ns_Snapshot_of c = ns_snap c"


section \<open>Parsing undoes printing\<close>

text \<open>
  A row of the file as the kernel prints it: padding, the name, a colon, then the 16
  columns, of which the first and the ninth are the byte counters.
\<close>

record dev_row =
  dr_pad :: nat
  dr_name :: string
  dr_rx :: u64
  dr_mid :: "string list"
  dr_tx :: u64
  dr_rest :: "string list"

definition dev_row_ok :: "dev_row \<Rightarrow> bool" where
  "dev_row_ok r \<longleftrightarrow> plain_word (dr_name r) \<and> CHR '':'' \<notin> set (dr_name r) \<and>
     list_all plain_word (dr_mid r) \<and> list_all plain_word (dr_rest r) \<and>
     length (dr_mid r) = 7 \<and> length (dr_rest r) = 7"

definition show_dev_row :: "dev_row \<Rightarrow> string" where
  "show_dev_row r =
     (replicate (dr_pad r) CHR '' '' @ dr_name r) @ CHR '':'' # CHR '' '' #
     join_with '' '' (show_nat (unat (dr_rx r)) # dr_mid r @ show_nat (unat (dr_tx r)) # dr_rest r)"

lemma parse_dev_line_show:
  assumes "dev_row_ok r"
  shows "parse_dev_line (show_dev_row r) = Some (dr_name r, \<lparr>pl_rxBytes = dr_rx r, pl_txBytes = dr_tx r\<rparr>)"
proof -
  let ?ws = "show_nat (unat (dr_rx r)) # dr_mid r @ show_nat (unat (dr_tx r)) # dr_rest r"
  let ?pre = "replicate (dr_pad r) CHR '' '' @ dr_name r"
  have colon: "index_byte (show_dev_row r) CHR '':'' = Some (length ?pre)"
    using assms unfolding show_dev_row_def
    by (intro index_byte_append) (auto simp: dev_row_ok_def)
  have name: "trim_space ?pre = dr_name r" "dr_name r \<noteq> []"
    using assms by (auto simp: dev_row_ok_def string_facts plain_word_def)
  have words: "str_fields (CHR '' '' # join_with '' '' ?ws) = ?ws"
    using assms fields_join [of ?ws] by (auto simp: dev_row_ok_def fields_skip_space)
  have parts: "take (length ?pre) (show_dev_row r) = ?pre"
    "drop (Suc (length ?pre)) (show_dev_row r) = CHR '' '' # join_with '' '' ?ws"
    by (simp_all add: show_dev_row_def)
  have cols: "?ws ! 0 = show_nat (unat (dr_rx r))" "?ws ! 8 = show_nat (unat (dr_tx r))" "length ?ws = 16"
    using assms by (auto simp: dev_row_ok_def nth_append)
  show ?thesis
    unfolding parse_dev_line_def colon option.case parts words name(1) Let_def cols
    using name(2) by simp
qed

lemma parse_dev_line_header: "CHR '':'' \<notin> set l \<Longrightarrow> parse_dev_line l = None"
  by (simp add: parse_dev_line_def index_byte_None [THEN iffD2])

lemma fold_dev_step_headers:
  "list_all (\<lambda>l. CHR '':'' \<notin> set l) hs \<Longrightarrow> fold dev_step hs m = m"
  by (induction hs arbitrary: m) (auto simp: dev_step_def parse_dev_line_header)

lemma fold_dev_step_rows:
  "list_all dev_row_ok rs \<Longrightarrow>
   fold dev_step (map show_dev_row rs) m =
     fold (\<lambda>r m. m(dr_name r \<mapsto> \<lparr>pl_rxBytes = dr_rx r, pl_txBytes = dr_tx r\<rparr>)) rs m"
  by (induction rs arbitrary: m) (auto simp: dev_step_def parse_dev_line_show)

lemma parseProcNetDev_show:
  assumes "list_all (\<lambda>l. CHR '':'' \<notin> set l) hs" and "list_all dev_row_ok rs"
    and "list_all (clean_line default_token_limit) (hs @ map show_dev_row rs)"
  shows "parseProcNetDev (unlines (hs @ map show_dev_row rs)) =
    map_of (rev (map (\<lambda>r. (dr_name r, \<lparr>pl_rxBytes = dr_rx r, pl_txBytes = dr_tx r\<rparr>)) rs))"
  unfolding parseProcNetDev_def scan_lines_unlines [OF assms(3)]
  by (simp add: fold_dev_step_headers [OF assms(1)] fold_dev_step_rows [OF assms(2)] fold_upd_pairs)

section \<open>The rate\<close>

lemma round_val_bounds:
  assumes "0 \<le> x" and "x \<le> 2 powi e" and "- 1074 \<le> e"
  shows "0 \<le> round_val x" and "round_val x \<le> 2 powi e"
  using assms round_val_mono [OF assms(2)] round_val_pow2 [OF assms(3)] round_val_nonneg by auto

definition rate_val :: "nat \<Rightarrow> rat \<Rightarrow> rat" where
  "rate_val delta s =
     round_val (round_val (round_val (round_val (of_nat delta) * 8) / 1000000) / s)"

text \<open>The intermediate results never leave the finite range.\<close>

lemma computeMbps_value:
  assumes "pa < ca" and "\<not> cur < prev"
  shows "computeMbps prev cur pa ca =
    Fin (rate_val (unat (cur - prev)) (round_val (seconds_of (time_sub ca pa))))"
proof -
  define d where "d = time_sub ca pa"
  define s where "s = round_val (seconds_of d)"
  have d: "0 < d" "d \<le> 2 ^ 63"
    using assms(1) is_duration_time_sub [of ca pa] by (auto simp: d_def time_facts is_duration_def duration_defs)
  have s: "duration_seconds d = Fin s" using d by (simp add: s_def duration_seconds_nonneg)
  have s_ge: "2 powi - 30 \<le> s" unfolding s_def using d(1) by (rule seconds_of_pos)
  then have s_pos: "0 < s" using zero_less_power_int [of "2 :: rat" "- 30"] by linarith
  have sign: "\<not> f64_le (duration_seconds d) (Fin 0)" using s s_pos by simp
  define a where "a = round_val (of_nat (unat (cur - prev)))"
  define b where "b = round_val (a * 8)"
  define m where "m = round_val (b / 1000000)"
  have "unat (cur - prev) < 2 ^ 64" using unsigned_less [of "cur - prev"] by simp
  then have "(of_nat (unat (cur - prev)) :: rat) < of_nat (2 ^ 64)" by (simp only: of_nat_less_iff)
  then have x: "(of_nat (unat (cur - prev)) :: rat) \<le> 2 powi 64" by simp
  have p: "(2 :: rat) powi 64 * 8 = 2 powi 67" "(2 :: rat) powi 67 / 2 powi - 30 = 2 powi 97"
    by (simp_all add: power_int_def divide_simps)
  have a: "0 \<le> a" "a \<le> 2 powi 64" unfolding a_def by (rule round_val_bounds [OF of_nat_0_le_iff x]; simp)+
  have a8: "0 \<le> a * 8" "a * 8 \<le> 2 powi 67" using a p(1) by linarith+
  then have b: "0 \<le> b" "b \<le> 2 powi 67" unfolding b_def by (rule round_val_bounds; simp)+
  have b6: "0 \<le> b / 1000000" "b / 1000000 \<le> 2 powi 67" using b by (simp_all add: divide_simps)
  then have m: "0 \<le> m" "m \<le> 2 powi 67" unfolding m_def by (rule round_val_bounds; simp)+
  have "m / s \<le> 2 powi 67 / 2 powi - 30" using m s_ge by (intro frac_le) simp_all
  then have ms: "0 \<le> m / s" "m / s \<le> 2 powi 97" using m(1) s_pos p(2) by simp_all
  have fin: "f64_round y = Fin (round_val y)" if "0 \<le> y" "y \<le> 2 powi e" "e \<le> 1023" for y e
  proof (rule f64_round_Fin)
    have "(2 :: rat) powi e \<le> 2 powi 1023" using that(3) by (simp only: powi2_le_iff)
    with that show "\<bar>y\<bar> \<le> 2 powi 1023" by linarith
  qed
  have "f64_of_u64 (cur - prev) = Fin a"
    unfolding f64_of_u64_def a_def by (rule fin [OF of_nat_0_le_iff x]) simp
  moreover have "f64_mul (Fin a) (Fin 8) = Fin b"
    unfolding f64_mul.simps b_def by (rule fin [OF a8]) simp
  moreover have "f64_div (Fin b) (Fin 1000000) = Fin m"
    unfolding f64_div.simps m_def using fin [OF b6] by simp
  moreover have "f64_div (Fin m) (Fin s) = Fin (round_val (m / s))"
    using fin [OF ms] s_pos by simp
  ultimately have "computeMbps prev cur pa ca = Fin (round_val (m / s))"
    unfolding computeMbps_def Let_def d_def [symmetric] using sign assms(2) s by simp
  then show ?thesis by (simp add: rate_val_def m_def b_def a_def s_def d_def)
qed

lemma computeMbps_zero:
  "ca \<le> pa \<or> cur < prev \<Longrightarrow> computeMbps prev cur pa ca = Fin 0"
  using duration_seconds_sign [OF is_duration_time_sub [of ca pa]] time_sub_pos_iff [of ca pa]
  by (auto simp: computeMbps_def Let_def not_less)

lemma rate_val_nonneg: "0 \<le> s \<Longrightarrow> 0 \<le> rate_val n s"
  by (simp add: rate_val_def round_val_nonneg)

lemma rate_val_mono: "n \<le> n' \<Longrightarrow> 0 < s \<Longrightarrow> rate_val n s \<le> rate_val n' s"
  unfolding rate_val_def
  by (intro round_val_mono divide_right_mono mult_right_mono) simp_all

lemma rate_val_antimono: "0 < s \<Longrightarrow> s \<le> s' \<Longrightarrow> rate_val n s' \<le> rate_val n s"
  unfolding rate_val_def
  by (intro round_val_mono divide_left_mono round_val_nonneg) (simp_all add: round_val_nonneg)

text \<open>A rate is a finite, non-negative number.\<close>

definition is_rate :: "float64 \<Rightarrow> bool" where
  "is_rate x \<longleftrightarrow> (\<exists>r. x = Fin r \<and> 0 \<le> r)"

lemma computeMbps_is_rate: "is_rate (computeMbps prev cur pa ca)"
proof (cases "ca \<le> pa \<or> cur < prev")
  case True
  then show ?thesis by (simp add: computeMbps_zero is_rate_def)
next
  case False
  have "0 \<le> round_val (seconds_of (time_sub ca pa))"
    using False by (intro round_val_nonneg seconds_of_nonneg) (simp add: time_sub_pos_iff less_imp_le)
  with False show ?thesis
    by (simp add: computeMbps_value is_rate_def rate_val_nonneg)
qed


section \<open>Ticks\<close>

text \<open>The counters a tick's file shows for an interface, if it could be read and lists it.\<close>

definition seen_counters :: "ns_env \<Rightarrow> string \<Rightarrow> parsedLine option" where
  "seen_counters e name =
     (case ne_source e of Inl err \<Rightarrow> None | Inr raw \<Rightarrow> parseProcNetDev raw name)"

lemma current_sample_seen:
  "current_sample e name =
     (case seen_counters e name of
        None \<Rightarrow> zero_sample\<lparr>sm_at := ne_now e\<rparr>
      | Some p \<Rightarrow> \<lparr>sm_rxBytes = pl_rxBytes p, sm_txBytes = pl_txBytes p, sm_at = ne_now e,
                  sm_present = True\<rparr>)"
  by (auto simp: current_sample_def seen_counters_def split: sum.split option.split)

lemma current_samples_apply:
  "current_samples e ns = (\<lambda>name. if name \<in> set ns then Some (current_sample e name) else None)"
  by (simp add: current_samples_def fold_upd)

lemma ns_tick_fields [simp]:
  "ns_ifaces (ns_tick e c) = ns_ifaces c"
  "ns_interval (ns_tick e c) = ns_interval c"
  "ns_prev (ns_tick e c) = current_samples e (ns_ifaces c)"
  "ns_At (ns_snap (ns_tick e c)) = ne_now e"
  by (simp_all add: ns_tick_def Let_def)

lemma ns_tick_interfaces:
  "ns_Interfaces (ns_snap (ns_tick e c)) =
     (\<lambda>name. if name \<in> set (ns_ifaces c)
        then Some (iface_stats e (ns_prev c) (current_samples e (ns_ifaces c)) name) else None)"
  by (simp add: ns_tick_def Let_def fold_upd)

lemma ns_Run_last: "ns_Run e (es @ [e']) c = ns_tick e' (ns_Run e es c)"
  by (simp add: ns_Run_def)

lemma fold_ns_tick_ifaces: "ns_ifaces (fold ns_tick es c) = ns_ifaces c"
  by (induction es arbitrary: c) simp_all

lemma ns_Run_ifaces [simp]: "ns_ifaces (ns_Run e es c) = ns_ifaces c"
  by (simp add: ns_Run_def fold_ns_tick_ifaces)

text \<open>Every run ends with a tick, on a collector with the same interfaces.\<close>

lemma ns_Run_ends_in_tick: "\<exists>e' c'. ns_Run e es c = ns_tick e' c' \<and> ns_ifaces c' = ns_ifaces c"
proof (cases es rule: rev_cases)
  case Nil
  then show ?thesis by (auto simp: ns_Run_def)
next
  case (snoc es' e')
  then show ?thesis using ns_Run_last ns_Run_ifaces by metis
qed

lemma dom_tick: "dom (ns_Interfaces (ns_snap (ns_tick e c))) = set (ns_ifaces c)"
  by (auto simp: ns_tick_interfaces dom_def)

lemma dom_initialInterfaces: "dom (initialInterfaces ns) = set ns"
  by (auto simp: initialInterfaces_def fold_upd dom_def)

lemma set_filterEmpty: "set (filterEmpty xs) = set xs - {[]}"
  by (auto simp: filterEmpty_def)

lemma ns_New_fields:
  "set (ns_ifaces (ns_New cfg t)) = {HotspotIf cfg, WANIf cfg, AdminIf cfg} - {[]}"
  "ns_Interfaces (ns_snap (ns_New cfg t)) = initialInterfaces (ns_ifaces (ns_New cfg t))"
  by (simp_all only: ns_New_def ns_newWithDeps_def ns_Collector.simps ns_Snapshot.simps set_filterEmpty
      list.set)

lemma is_rate_0 [simp]: "is_rate (Fin 0)"
  by (simp add: is_rate_def)

lemma iface_stats_rates:
  "is_rate (is_RxMbps (iface_stats e ps cs name)) \<and> is_rate (is_TxMbps (iface_stats e ps cs name))"
  by (simp add: iface_stats_def Let_def empty_stats_def computeMbps_is_rate split: option.split)

section \<open>Properties\<close>

text \<open>
  C25: parsing a \<open>/proc/net/dev\<close> text made of header lines (no colon) and interface rows
  gives exactly the rows' receive and transmit counters by name, the last row of a name
  winning.
\<close>

theorem netstats_parse_roundtrip:
  assumes "list_all (\<lambda>l. CHR '':'' \<notin> set l) hs" and "list_all dev_row_ok rs"
    and "list_all (clean_line default_token_limit) (hs @ map show_dev_row rs)"
  shows "parseProcNetDev (unlines (hs @ map show_dev_row rs)) =
    map_of (rev (map (\<lambda>r. (dr_name r, \<lparr>pl_rxBytes = dr_rx r, pl_txBytes = dr_tx r\<rparr>)) rs))"
  using assms by (rule parseProcNetDev_show)

definition row_wlan0 :: dev_row where
  "row_wlan0 = \<lparr>dr_pad = 1, dr_name = ''wlan0'', dr_rx = 7,
     dr_mid = [''0'', ''0'', ''0'', ''0'', ''0'', ''0'', ''0''], dr_tx = 5,
     dr_rest = [''0'', ''0'', ''0'', ''0'', ''0'', ''0'', ''0'']\<rparr>"

lemma row_wlan0_ok: "dev_row_ok row_wlan0"
  by code_simp

lemma row_wlan0_line: "show_dev_row row_wlan0 = '' wlan0: 7 0 0 0 0 0 0 0 5 0 0 0 0 0 0 0''"
  by (simp add: row_wlan0_def show_dev_row_def)

lemma netstats_parse_roundtrip_witness:
  "parseProcNetDev (unlines ([''face''] @ map show_dev_row [row_wlan0])) ''wlan0'' =
     Some \<lparr>pl_rxBytes = 7, pl_txBytes = 5\<rparr>"
proof -
  have "list_all (clean_line default_token_limit) ([''face''] @ map show_dev_row [row_wlan0])"
    by (simp add: row_wlan0_line clean_line_def newline_def drop_cr_def default_token_limit_def)
  moreover have "list_all (\<lambda>l. CHR '':'' \<notin> set l) [''face'']" by simp
  moreover have "list_all dev_row_ok [row_wlan0]" by (simp add: row_wlan0_ok)
  ultimately show ?thesis
    by (subst netstats_parse_roundtrip) (simp_all add: row_wlan0_def)
qed

text \<open>
  C17: \<open>computeMbps\<close> is zero when no time has passed or the counter went back, and
  otherwise the four correctly rounded operations on the counter's increase, with no
  overflow on the way, for all 64-bit counters and all instants.
\<close>

theorem computeMbps_spec:
  "computeMbps prev cur pa ca =
     (if pa < ca \<and> prev \<le> cur
      then Fin (rate_val (unat (cur - prev)) (round_val (seconds_of (time_sub ca pa))))
      else Fin 0)"
  using computeMbps_value [of pa ca cur prev] computeMbps_zero [of ca pa cur prev]
  by (auto simp: not_less not_le)

text \<open>
  Over the same interval a larger counter increase never gives a smaller rate, in spite
  of the four roundings.
\<close>

theorem computeMbps_mono:
  assumes "prev \<le> cur" and "cur \<le> cur'"
  shows "f64_le (computeMbps prev cur pa ca) (computeMbps prev cur' pa ca)"
proof (cases "pa < ca")
  case True
  have "2 powi - 30 \<le> round_val (seconds_of (time_sub ca pa))"
    using True by (intro seconds_of_pos) (simp add: time_sub_pos_iff)
  then have "0 < round_val (seconds_of (time_sub ca pa))"
    using zero_less_power_int [of "2 :: rat" "- 30"] by linarith
  moreover have "unat (cur - prev) \<le> unat (cur' - prev)"
    using assms by (simp add: unat_sub word_le_nat_alt)
  ultimately show ?thesis
    using True assms by (simp add: computeMbps_value not_less order_trans rate_val_mono)
next
  case False
  then show ?thesis by (simp add: computeMbps_zero)
qed

lemma computeMbps_mono_witness:
  "(0 :: u64) \<le> 8 \<and> (8 :: u64) \<le> 9 \<and> f64_le (computeMbps 0 8 0 second) (computeMbps 0 9 0 second)"
proof -
  have "(0 :: u64) \<le> 8" "(8 :: u64) \<le> 9" by simp_all
  then show ?thesis using computeMbps_mono by blast
qed

text \<open>
  After any run the published snapshot has an entry for each configured, non-empty
  interface name and no other, as it has before the first tick.
\<close>

theorem netstats_interfaces_always_present:
  "dom (ns_Interfaces (ns_Snapshot_of (ns_New cfg t))) =
     {HotspotIf cfg, WANIf cfg, AdminIf cfg} - {[]} \<and>
   dom (ns_Interfaces (ns_Snapshot_of (ns_Run e es (ns_New cfg t)))) =
     {HotspotIf cfg, WANIf cfg, AdminIf cfg} - {[]}"
proof -
  obtain e' c' where "ns_Run e es (ns_New cfg t) = ns_tick e' c'" "ns_ifaces c' = ns_ifaces (ns_New cfg t)"
    using ns_Run_ends_in_tick by blast
  then show ?thesis
    by (simp only: ns_Snapshot_of_def dom_tick dom_initialInterfaces ns_New_fields simp_thms)
qed

text \<open>
  Every rate the collector publishes, in whatever run, is a finite and non-negative
  number, so the JSON encoder never meets an infinity or a NaN in this section.
\<close>

theorem netstats_rates_finite:
  assumes "ns_Interfaces (ns_Snapshot_of (ns_Run e es c)) name = Some st"
  shows "is_rate (is_RxMbps st) \<and> is_rate (is_TxMbps st)"
proof -
  obtain e' c' where "ns_Run e es c = ns_tick e' c'" using ns_Run_ends_in_tick by blast
  with assms show ?thesis
    using iface_stats_rates by (auto simp: ns_Snapshot_of_def ns_tick_interfaces split: if_splits)
qed

definition env_none :: ns_env where
  "env_none = \<lparr>ne_now = 0, ne_source = Inl (External True ''no such file''),
     ne_operstate = (\<lambda>_. Inr ''up'')\<rparr>"

lemma netstats_rates_finite_witness:
  "\<exists>st. ns_Interfaces (ns_Snapshot_of (ns_Run env_none [env_none] (ns_newWithDeps [''eth0''] 0 second))) ''eth0''
      = Some st \<and> is_rate (is_RxMbps st)"
proof -
  have "\<exists>st. ns_Interfaces (ns_Snapshot_of (ns_Run env_none [env_none] (ns_newWithDeps [''eth0''] 0 second)))
      ''eth0'' = Some st"
    by (simp add: ns_Snapshot_of_def ns_Run_def ns_tick_interfaces ns_newWithDeps_def)
  then show ?thesis using netstats_rates_finite by blast
qed

text \<open>The entry that two ticks in a row leave for an interface.\<close>

definition two_tick_stats :: "ns_env \<Rightarrow> ns_env \<Rightarrow> string \<Rightarrow> InterfaceStats" where
  "two_tick_stats e1 e2 name =
     (let rate = (\<lambda>f. case (seen_counters e1 name, seen_counters e2 name) of
            (Some p1, Some p2) \<Rightarrow> computeMbps (f p1) (f p2) (ne_now e1) (ne_now e2)
          | _ \<Rightarrow> Fin 0);
          total = (\<lambda>f. case seen_counters e2 name of Some p2 \<Rightarrow> f p2 | None \<Rightarrow> 0) in
      \<lparr>is_Name = name, is_Up = (ne_operstate e2 name = Inr ''up''),
       is_RxMbps = rate pl_rxBytes, is_TxMbps = rate pl_txBytes,
       is_RxTotalBytes = total pl_rxBytes, is_TxTotalBytes = total pl_txBytes\<rparr>)"

text \<open>
  C18: two successive ticks determine the snapshot: its instant, and for each interface the
  operstate flag, the totals of the second tick, and rates that are computed from the two
  ticks' counters and instants when both files list the interface and are zero otherwise.
\<close>

theorem netstats_two_ticks:
  "ns_snap (ns_tick e2 (ns_tick e1 c)) =
     \<lparr>ns_At = ne_now e2,
      ns_Interfaces = (\<lambda>name. if name \<in> set (ns_ifaces c) then Some (two_tick_stats e1 e2 name) else None)\<rparr>"
proof (rule ns_Snapshot.equality)
  show "ns_Interfaces (ns_snap (ns_tick e2 (ns_tick e1 c))) = ns_Interfaces \<lparr>ns_At = ne_now e2,
      ns_Interfaces = (\<lambda>name. if name \<in> set (ns_ifaces c) then Some (two_tick_stats e1 e2 name) else None)\<rparr>"
    by (auto simp: ns_tick_interfaces current_samples_apply fun_eq_iff iface_stats_def two_tick_stats_def
        lookup_sample_def Let_def current_sample_seen zero_sample_def empty_stats_def ns_isUp_def
        split: option.split sum.split)
qed simp_all

end
