(* ===== verification/System_Stats.thy ===== *)
theory System_Stats
  imports Go_Parse_Float Go_Path Configuration
begin

text \<open>
  \<open>internal/system/info.go\<close>: load averages, memory, the temperature of the selected
  thermal zone and the inferred throttle flag. Facts: a failed reader costs only its own
  fields and is named in the composite error; the throttle flag is exact in millidegrees in
  spite of the floating-point division; which thermal zone is selected; the throttle log
  alternates.
\<close>

section \<open>Parsers\<close>

definition throttle_celsius :: float64 where
  "throttle_celsius = Fin 80"

definition parse_float_named :: "string \<Rightarrow> string \<Rightarrow> go_error + float64" where
  "parse_float_named pre s =
     (case parse_float64 s of Inl r \<Rightarrow> Inl (Wrap pre (NumError ''ParseFloat'' s r)) | Inr x \<Rightarrow> Inr x)"

definition parseLoadavg :: "string \<Rightarrow> go_error + float64 \<times> float64 \<times> float64" where
  "parseLoadavg raw =
     (let fs = str_fields raw in
      if length fs < 3 then Inl (NewError (''expected 3+ fields, got '' @ show_nat (length fs)))
      else case parse_float_named ''1m: '' (fs ! 0) of
          Inl e \<Rightarrow> Inl e
        | Inr l1 \<Rightarrow>
            (case parse_float_named ''5m: '' (fs ! 1) of
               Inl e \<Rightarrow> Inl e
             | Inr l5 \<Rightarrow>
                 (case parse_float_named ''15m: '' (fs ! 2) of
                    Inl e \<Rightarrow> Inl e
                  | Inr l15 \<Rightarrow> Inr (l1, l5, l15))))"

definition parseMeminfoValue :: "string \<Rightarrow> u64 option" where
  "parseMeminfoValue line =
     (case index_byte line CHR '':'' of
        None \<Rightarrow> None
      | Some colon \<Rightarrow>
          (case str_fields (drop (Suc colon) line) of
             [] \<Rightarrow> None
           | f # fs \<Rightarrow> (case parse_uint64 f of Inl e \<Rightarrow> None | Inr v \<Rightarrow> Some v)))"

text \<open>
  The scan for the two lines: a value and its \<open>have\<close> flag are an option; the loop breaks
  once it has both.
\<close>

fun meminfo_loop :: "u64 option \<Rightarrow> u64 option \<Rightarrow> string list \<Rightarrow> u64 option \<times> u64 option" where
  "meminfo_loop tot avail [] = (tot, avail)"
| "meminfo_loop tot avail (line # lines) =
     (let tot' = (if has_prefix line ''MemTotal:'' then
            (case parseMeminfoValue line of Some v \<Rightarrow> Some v | None \<Rightarrow> tot) else tot);
          avail' = (if \<not> has_prefix line ''MemTotal:'' \<and> has_prefix line ''MemAvailable:'' then
            (case parseMeminfoValue line of Some v \<Rightarrow> Some v | None \<Rightarrow> avail) else avail) in
      if tot' \<noteq> None \<and> avail' \<noteq> None then (tot', avail') else meminfo_loop tot' avail' lines)"

definition parseMeminfo :: "string \<Rightarrow> go_error + u64 \<times> u64" where
  "parseMeminfo raw =
     (case meminfo_loop None None (scan_lines default_token_limit raw) of
        (None, a) \<Rightarrow> Inl (NewError ''MemTotal not found'')
      | (Some t, None) \<Rightarrow> Inl (NewError ''MemAvailable not found'')
      | (Some totalKB, Some a) \<Rightarrow>
          (let availKB = (if totalKB < a then totalKB else a) in
           Inr (totalKB * 1024, (totalKB - availKB) * 1024)))"

definition parseTempMillideg :: "string \<Rightarrow> go_error + float64" where
  "parseTempMillideg raw =
     (let s = trim_space raw in
      if s = [] then Inl (NewError ''empty temperature reading'')
      else case parse_int64 s of
          Inl r \<Rightarrow> Inl (NumError ''ParseInt'' s r)
        | Inr n \<Rightarrow> Inr (f64_div (f64_of_int n) (Fin 1000)))"

section \<open>The thermal zone\<close>

text \<open>The calls on the file system: reading, globbing, and \<open>os.Stat\<close> for existence.\<close>

record file_system =
  fsys_read :: files
  fsys_glob :: "string \<Rightarrow> go_error + string list"
  fsys_stat :: "string \<Rightarrow> go_error option"

text \<open>The loop over the matches: \<open>Inl\<close> is its early return, \<open>Inr\<close> the variable \<open>cpuContains\<close>.\<close>

fun zone_loop :: "(string \<Rightarrow> string) \<Rightarrow> files \<Rightarrow> string \<Rightarrow> string list \<Rightarrow> string + string" where
  "zone_loop uni fs cpuContains [] = Inr cpuContains"
| "zone_loop uni fs cpuContains (m # ms) =
     (case fs m of
        Inl e \<Rightarrow> zone_loop uni fs cpuContains ms
      | Inr b \<Rightarrow>
          (let t = trim_space b; temp = path_join [path_dir m, ''temp''] in
           if t = ''cpu-thermal'' then Inl temp
           else if t = ''bcm2712_thermal'' then
             zone_loop uni fs (if cpuContains = [] then temp else cpuContains) ms
           else if contains (to_lower uni t) ''cpu'' then
             zone_loop uni fs (if cpuContains = [] then temp else cpuContains) ms
           else zone_loop uni fs cpuContains ms))"

definition zone_fallback :: "file_system \<Rightarrow> string \<Rightarrow> go_error + string" where
  "zone_fallback fsys thermalRoot =
     (let fallback = path_join [thermalRoot, ''thermal_zone0'', ''temp''] in
      case fsys_stat fsys fallback of
        Some err \<Rightarrow> Inl (Wrap (''no usable thermal zone under '' @ thermalRoot @ '': '') err)
      | None \<Rightarrow> Inr fallback)"

definition selectThermalZone :: "(string \<Rightarrow> string) \<Rightarrow> file_system \<Rightarrow> string \<Rightarrow> go_error + string" where
  "selectThermalZone uni fsys thermalRoot =
     (case fsys_glob fsys (path_join [thermalRoot, ''thermal_zone*'', ''type'']) of
        Inl e \<Rightarrow> zone_fallback fsys thermalRoot
      | Inr matches \<Rightarrow>
          (case zone_loop uni (fsys_read fsys) [] matches of
             Inl temp \<Rightarrow> Inr temp
           | Inr cpuContains \<Rightarrow>
               if cpuContains \<noteq> [] then Inr cpuContains else zone_fallback fsys thermalRoot))"

section \<open>The collector\<close>

record Info =
  Load1m :: float64
  Load5m :: float64
  Load15m :: float64
  MemTotalBytes :: u64
  MemUsedBytes :: u64
  TempCelsius :: float64
  Throttled :: bool

definition zero_Info :: Info where
  "zero_Info = \<lparr>Load1m = Fin 0, Load5m = Fin 0, Load15m = Fin 0, MemTotalBytes = 0,
     MemUsedBytes = 0, TempCelsius = Fin 0, Throttled = False\<rparr>"

record sy_Snapshot =
  sy_At :: time
  sy_Info :: Info
  sy_Err :: "go_error option"

record sy_Collector =
  sy_interval :: duration
  sy_snap :: sy_Snapshot

text \<open>What one tick reads: the clock, then the three readers.\<close>

record sy_env =
  ye_now :: time
  ye_load :: "go_error + string"
  ye_mem :: "go_error + string"
  ye_temp :: "go_error + string"

definition sy_newWithDeps :: "time \<Rightarrow> duration \<Rightarrow> sy_Collector" where
  "sy_newWithDeps t interval =
     \<lparr>sy_interval = interval, sy_snap = \<lparr>sy_At = t, sy_Info = zero_Info, sy_Err = None\<rparr>\<rparr>"

definition sy_New :: "time \<Rightarrow> sy_Collector" where
  "sy_New t = sy_newWithDeps t second"

definition readTemp :: "(string \<Rightarrow> string) \<Rightarrow> config \<Rightarrow> file_system \<Rightarrow> go_error + string" where
  "readTemp uni cfg fsys =
     (case selectThermalZone uni fsys (path_join [SysPath cfg, ''class'', ''thermal'']) of
        Inl e \<Rightarrow> Inl e
      | Inr path \<Rightarrow> fsys_read fsys path)"

definition sy_production_env :: "(string \<Rightarrow> string) \<Rightarrow> config \<Rightarrow> file_system \<Rightarrow> time \<Rightarrow> sy_env" where
  "sy_production_env uni cfg fsys t =
     \<lparr>ye_now = t, ye_load = fsys_read fsys (path_join [ProcPath cfg, ''loadavg'']),
      ye_mem = fsys_read fsys (path_join [ProcPath cfg, ''meminfo'']),
      ye_temp = readTemp uni cfg fsys\<rparr>"

text \<open>A reader's outcome: its error, or what its parser makes of the text.\<close>

definition read_with :: "(string \<Rightarrow> go_error + 'a) \<Rightarrow> go_error + string \<Rightarrow> go_error + 'a" where
  "read_with parse r = (case r of Inl err \<Rightarrow> Inl err | Inr raw \<Rightarrow> parse raw)"

definition sy_tick :: "sy_env \<Rightarrow> sy_Collector \<Rightarrow> sy_Collector" where
  "sy_tick e c =
     (let (info, errs) =
            (case read_with parseLoadavg (ye_load e) of
               Inl err \<Rightarrow> (zero_Info, [(''loadavg'', err)])
             | Inr (l1, l5, l15) \<Rightarrow> (zero_Info\<lparr>Load1m := l1, Load5m := l5, Load15m := l15\<rparr>, []));
          (info, errs) =
            (case read_with parseMeminfo (ye_mem e) of
               Inl err \<Rightarrow> (info, errs @ [(''meminfo'', err)])
             | Inr (tot, used) \<Rightarrow> (info\<lparr>MemTotalBytes := tot, MemUsedBytes := used\<rparr>, errs));
          (info, errs) =
            (case read_with parseTempMillideg (ye_temp e) of
               Inl err \<Rightarrow> (info, errs @ [(''temp'', err)])
             | Inr temp \<Rightarrow> (info\<lparr>TempCelsius := temp, Throttled := f64_le throttle_celsius temp\<rparr>, errs)) in
      c\<lparr>sy_snap := \<lparr>sy_At = ye_now e, sy_Info = info, sy_Err = (if errs = [] then None else Some (Flat errs))\<rparr>\<rparr>)"

text \<open>
  \<open>Run\<close>: a tick at once, then one per ticker event; a change of the throttle flag since
  the last logged one is logged with the temperature.
\<close>

datatype throttle_event = ThrottledAt float64 | ThrottleCleared float64

definition throttle_log :: "bool \<Rightarrow> Info \<Rightarrow> bool \<times> throttle_event list" where
  "throttle_log prevThrottled i =
     (if Throttled i \<noteq> prevThrottled
      then (Throttled i, [if Throttled i then ThrottledAt (TempCelsius i) else ThrottleCleared (TempCelsius i)])
      else (prevThrottled, []))"

fun sy_loop :: "bool \<Rightarrow> sy_env list \<Rightarrow> sy_Collector \<Rightarrow> sy_Collector \<times> throttle_event list" where
  "sy_loop prev [] c = (c, [])"
| "sy_loop prev (e # es) c =
     (let c' = sy_tick e c; (prev', evs) = throttle_log prev (sy_Info (sy_snap c'));
          (c'', evs') = sy_loop prev' es c' in (c'', evs @ evs'))"

definition sy_Run :: "sy_env \<Rightarrow> sy_env list \<Rightarrow> sy_Collector \<Rightarrow> sy_Collector \<times> throttle_event list" where
  "sy_Run e es c = sy_loop False es (sy_tick e c)"

definition sy_Snapshot_of :: "sy_Collector \<Rightarrow> sy_Snapshot" where
  "sy_Snapshot_of c = sy_snap c"

section \<open>The temperature\<close>

text \<open>80 - 2^-10 is representable and lies between 79.999 and 80.\<close>

lemma round_below_80:
  assumes "x \<le> 79999 / 1000"
  shows "round_val x < 80"
proof -
  have "ilog2 (81919 / 1024) = 6"
    by (rule ilog2_unique) (simp_all add: power_int_def)
  then have "ulp_exp (81919 / 1024) \<le> - 10" by (simp add: ulp_exp_def)
  then have "round_val (81919 / 1024) = 81919 / 1024"
    by (intro round_val_exact [of _ 81919 "- 10"]) (simp_all add: power_int_def power_one_over)
  moreover have "round_val x \<le> round_val (81919 / 1024)"
    using assms by (intro round_val_mono) linarith
  ultimately show ?thesis by simp
qed

lemma round_val_numeral:
  "round_val 80 = 80" "round_val 80000 = 80000" "round_val 79999 = 79999"
  using round_val_of_int [of 80] round_val_of_int [of 80000] round_val_of_int [of 79999] by simp_all

lemma celsius_value:
  assumes "- (2 ^ 63) \<le> n" and "n < 2 ^ 63"
  shows "f64_div (f64_of_int n) (Fin 1000) = Fin (round_val (round_val (of_int n) / 1000))"
proof -
  have p: "(2 :: rat) powi 63 \<le> 2 powi 1023" by (simp only: powi2_le_iff)
  have "(of_int n :: rat) < of_int (2 ^ 63)" "of_int (- (2 ^ 63)) \<le> (of_int n :: rat)"
    using assms by (simp_all only: of_int_less_iff of_int_le_iff)
  then have b: "\<bar>of_int n :: rat\<bar> \<le> 2 powi 63" by simp
  have r: "\<bar>round_val (of_int n)\<bar> \<le> 2 powi 63"
  proof -
    have "round_val (of_int n) \<le> round_val (2 powi 63)" "round_val (- (2 powi 63)) \<le> round_val (of_int n)"
      using b by (intro round_val_mono; linarith)+
    then show ?thesis using round_val_pow2 [of 63] by (simp add: round_val_minus abs_le_iff)
  qed
  then have "\<bar>round_val (of_int n) / 1000\<bar> \<le> 2 powi 63" by simp
  then have "f64_round (round_val (of_int n) / 1000) = Fin (round_val (round_val (of_int n) / 1000))"
    using p by (intro f64_round_Fin) linarith
  moreover have "f64_of_int n = Fin (round_val (of_int n))"
    unfolding f64_of_int_def using b p by (intro f64_round_Fin) linarith
  ultimately show ?thesis by simp
qed

lemma celsius_ge_80_iff:
  assumes "- (2 ^ 63) \<le> n" and "n < 2 ^ 63"
  shows "f64_le throttle_celsius (f64_div (f64_of_int n) (Fin 1000)) \<longleftrightarrow> 80000 \<le> n"
proof (cases "80000 \<le> n")
  case True
  then have "round_val 80000 \<le> round_val (of_int n)" by (intro round_val_mono) linarith
  then have "round_val 80 \<le> round_val (round_val (of_int n) / 1000)"
    by (intro round_val_mono) (simp add: round_val_numeral)
  with True show ?thesis by (simp add: celsius_value [OF assms] throttle_celsius_def round_val_numeral)
next
  case False
  then have "of_int n \<le> (79999 :: rat)" by linarith
  then have "round_val (of_int n) \<le> round_val 79999" by (rule round_val_mono)
  then have "round_val (round_val (of_int n) / 1000) < 80"
    by (intro round_below_80) (simp add: round_val_numeral)
  with False show ?thesis by (simp add: celsius_value [OF assms] throttle_celsius_def)
qed

lemma parseTempMillideg_cases:
  "parseTempMillideg raw = Inr x \<Longrightarrow>
     \<exists>n. parse_int64 (trim_space raw) = Inr n \<and> x = f64_div (f64_of_int n) (Fin 1000)"
  by (auto simp: parseTempMillideg_def Let_def split: if_splits sum.splits)

section \<open>Memory\<close>

definition mem_line :: "string \<Rightarrow> nat \<Rightarrow> u64 \<Rightarrow> string" where
  "mem_line name pad v =
     (name @ CHR '':'' # replicate pad CHR '' '') @ show_nat (unat v) @ '' kB''"

lemma fields_blanks: "str_fields (replicate k CHR '' '' @ s) = str_fields s"
  by (induction k) (simp_all add: fields_skip_space)

lemma parseMeminfoValue_line:
  "CHR '':'' \<notin> set name \<Longrightarrow> parseMeminfoValue (mem_line name pad v) = Some v"
proof -
  assume "CHR '':'' \<notin> set name"
  then have "index_byte (mem_line name pad v) CHR '':'' = Some (length name)"
    by (simp add: mem_line_def index_byte_append)
  moreover have "str_fields (drop (Suc (length name)) (mem_line name pad v)) =
      show_nat (unat v) # str_fields ''kB''"
    using plain_word_show_nat [of "unat v"] by (simp add: mem_line_def fields_blanks fields_word_space)
  moreover have "parse_uint64 (show_nat (unat v)) = Inr v"
    using parse_uint64_show [of v] by simp
  ultimately show ?thesis by (simp add: parseMeminfoValue_def)
qed

text \<open>A line of another entry leaves the loop's state as it is.\<close>

definition other_line :: "string \<Rightarrow> bool" where
  "other_line l \<longleftrightarrow> \<not> has_prefix l ''MemTotal:'' \<and> \<not> has_prefix l ''MemAvailable:''"

lemma meminfo_loop_others:
  "list_all other_line ls \<Longrightarrow> t = None \<or> a = None \<Longrightarrow>
     meminfo_loop t a (ls @ rest) = meminfo_loop t a rest"
  by (induction ls) (auto simp: other_line_def)

lemma mem_line_prefix: "has_prefix (mem_line name pad v) (name @ '':'')"
  using has_prefix_append [of "name @ '':''" "replicate pad CHR '' '' @ show_nat (unat v) @ '' kB''"]
  by (simp add: mem_line_def del: has_prefix_append)

lemma meminfo_loop_total:
  "meminfo_loop t None (mem_line ''MemTotal'' pad v # rest) = meminfo_loop (Some v) None rest"
  using mem_line_prefix [of "''MemTotal''"] by (simp add: parseMeminfoValue_line)

lemma avail_not_total: "\<not> has_prefix (mem_line ''MemAvailable'' pad v) ''MemTotal:''"
  by (simp add: mem_line_def has_prefix_def)

lemma meminfo_loop_avail:
  "meminfo_loop (Some t) a (mem_line ''MemAvailable'' pad v # rest) = (Some t, Some v)"
  using mem_line_prefix [of "''MemAvailable''"] by (simp add: parseMeminfoValue_line avail_not_total)

lemma parseMeminfo_bounds:
  assumes "parseMeminfo raw = Inr (tot, used)"
  shows "\<exists>t a. tot = t * 1024 \<and> a \<le> t \<and> used = (t - a) * 1024"
  using assms
proof -
  obtain t a where "meminfo_loop None None (scan_lines default_token_limit raw) = (Some t, Some a)"
    using assms by (auto simp: parseMeminfo_def split: prod.splits option.splits)
  with assms have "tot = t * 1024 \<and> (if t < a then t else a) \<le> t \<and> used = (t - (if t < a then t else a)) * 1024"
    by (auto simp: parseMeminfo_def Let_def split: if_splits)
  then show ?thesis by blast
qed

section \<open>Ticks and the throttle log\<close>

text \<open>What one tick publishes does not depend on what was published before.\<close>

definition tick_snap :: "sy_env \<Rightarrow> sy_Snapshot" where
  "tick_snap e = sy_snap (sy_tick e (sy_New 0))"

definition tick_info :: "sy_env \<Rightarrow> Info" where
  "tick_info e = sy_Info (tick_snap e)"

lemma sy_tick_eq: "sy_tick e c = c\<lparr>sy_snap := tick_snap e\<rparr>"
  by (simp add: tick_snap_def sy_tick_def case_prod_beta' Let_def)

lemma sy_At_tick_snap [simp]: "sy_At (tick_snap e) = ye_now e"
  by (simp add: tick_snap_def sy_tick_def case_prod_beta' Let_def)

lemma sy_Info_tick_snap [simp]: "sy_Info (tick_snap e) = tick_info e"
  by (simp add: tick_info_def)

text \<open>Each group of fields, and each part of the error, from its own reader.\<close>

definition left_tag :: "string \<Rightarrow> go_error + 'a \<Rightarrow> (string \<times> go_error) list" where
  "left_tag tag r = (case r of Inl err \<Rightarrow> [(tag, err)] | Inr x \<Rightarrow> [])"

lemma tick_parts:
  "Load1m (tick_info e) = (case read_with parseLoadavg (ye_load e) of Inl err \<Rightarrow> Fin 0 | Inr l \<Rightarrow> fst l)"
  "Load5m (tick_info e) = (case read_with parseLoadavg (ye_load e) of Inl err \<Rightarrow> Fin 0 | Inr l \<Rightarrow> fst (snd l))"
  "Load15m (tick_info e) = (case read_with parseLoadavg (ye_load e) of Inl err \<Rightarrow> Fin 0 | Inr l \<Rightarrow> snd (snd l))"
  "MemTotalBytes (tick_info e) = (case read_with parseMeminfo (ye_mem e) of Inl err \<Rightarrow> 0 | Inr m \<Rightarrow> fst m)"
  "MemUsedBytes (tick_info e) = (case read_with parseMeminfo (ye_mem e) of Inl err \<Rightarrow> 0 | Inr m \<Rightarrow> snd m)"
  "TempCelsius (tick_info e) = (case read_with parseTempMillideg (ye_temp e) of Inl err \<Rightarrow> Fin 0 | Inr x \<Rightarrow> x)"
  "Throttled (tick_info e) =
     (case read_with parseTempMillideg (ye_temp e) of Inl err \<Rightarrow> False | Inr x \<Rightarrow> f64_le throttle_celsius x)"
  "sy_Err (tick_snap e) =
     (let errs = left_tag ''loadavg'' (read_with parseLoadavg (ye_load e)) @
        left_tag ''meminfo'' (read_with parseMeminfo (ye_mem e)) @ left_tag ''temp'' (read_with parseTempMillideg (ye_temp e)) in
      if errs = [] then None else Some (Flat errs))"
  unfolding tick_info_def tick_snap_def sy_tick_def
  by (cases "read_with parseLoadavg (ye_load e)"; cases "read_with parseMeminfo (ye_mem e)";
      cases "read_with parseTempMillideg (ye_temp e)"; simp add: left_tag_def zero_Info_def case_prod_beta' Let_def)+

text \<open>The events alternate, starting with the given polarity.\<close>

fun is_throttled_event :: "throttle_event \<Rightarrow> bool" where
  "is_throttled_event (ThrottledAt t) \<longleftrightarrow> True"
| "is_throttled_event (ThrottleCleared t) \<longleftrightarrow> False"

fun alternates :: "bool \<Rightarrow> throttle_event list \<Rightarrow> bool" where
  "alternates prev [] \<longleftrightarrow> True"
| "alternates prev (ev # evs) \<longleftrightarrow> is_throttled_event ev = (\<not> prev) \<and> alternates (\<not> prev) evs"

text \<open>The flag after the events: that of the last one.\<close>

definition logged_flag :: "bool \<Rightarrow> throttle_event list \<Rightarrow> bool" where
  "logged_flag prev evs = (if evs = [] then prev else is_throttled_event (last evs))"

lemma sy_loop_Cons:
  "fst (sy_loop prev (e # es) c) = fst (sy_loop (fst (throttle_log prev (tick_info e))) es (sy_tick e c))"
  "snd (sy_loop prev (e # es) c) = snd (throttle_log prev (tick_info e)) @
     snd (sy_loop (fst (throttle_log prev (tick_info e))) es (sy_tick e c))"
  by (simp_all add: Let_def sy_tick_eq split: prod.split)

lemma throttle_log_cases:
  "throttle_log (Throttled i) i = (Throttled i, [])"
  "Throttled i \<noteq> prev \<Longrightarrow> \<exists>ev. throttle_log prev i = (Throttled i, [ev]) \<and> is_throttled_event ev = Throttled i"
  by (auto simp: throttle_log_def)

lemma sy_loop_log:
  "alternates prev (snd (sy_loop prev es c)) \<and>
   logged_flag prev (snd (sy_loop prev es c)) =
     (if es = [] then prev else Throttled (tick_info (last es)))"
proof (induction es arbitrary: prev c)
  case (Cons e es)
  let ?th = "Throttled (tick_info e)"
  have IH: "alternates ?th (snd (sy_loop ?th es (sy_tick e c)))"
    "logged_flag ?th (snd (sy_loop ?th es (sy_tick e c))) = (if es = [] then ?th else Throttled (tick_info (last es)))"
    using Cons [of ?th "sy_tick e c"] by auto
  show ?case
  proof (cases "?th = prev")
    case True
    then have "throttle_log prev (tick_info e) = (?th, [])"
      using throttle_log_cases(1) [of "tick_info e"] by simp
    then show ?thesis
      unfolding sy_loop_Cons using IH True by simp
  next
    case False
    then obtain ev where "throttle_log prev (tick_info e) = (?th, [ev])" "is_throttled_event ev = ?th"
      using throttle_log_cases(2) by blast
    then show ?thesis
      using IH False by (auto simp: sy_loop_Cons logged_flag_def simp del: sy_loop.simps split: if_splits)
  qed
qed (simp add: logged_flag_def)

lemma sy_loop_state: "fst (sy_loop prev es c) = fold sy_tick es c"
  by (induction es arbitrary: prev c) (auto simp: sy_loop_Cons simp del: sy_loop.simps(2))

lemma sy_loop_snap:
  "es \<noteq> [] \<Longrightarrow> sy_snap (fst (sy_loop prev es c)) = sy_snap (sy_tick (last es) c)"
  by (cases es rule: rev_cases) (auto simp: sy_loop_state sy_tick_eq)

section \<open>The thermal zone that is selected\<close>

definition zone_type :: "files \<Rightarrow> string \<Rightarrow> string option" where
  "zone_type fs m = (case fs m of Inl e \<Rightarrow> None | Inr b \<Rightarrow> Some (trim_space b))"

definition cpu_like :: "(string \<Rightarrow> string) \<Rightarrow> string option \<Rightarrow> bool" where
  "cpu_like uni z = (case z of None \<Rightarrow> False | Some t \<Rightarrow> t = ''bcm2712_thermal'' \<or> contains (to_lower uni t) ''cpu'')"

definition zone_temp :: "string \<Rightarrow> string" where
  "zone_temp m = path_join [path_dir m, ''temp'']"

lemma path_clean_nonempty: "path_clean p \<noteq> []"
  by (simp add: path_clean_def Let_def)

lemma zone_temp_nonempty: "zone_temp m \<noteq> []"
  by (simp add: zone_temp_def path_join_def path_clean_nonempty)

lemma zone_loop_find:
  "zone_loop uni fs c ms =
     (case find (\<lambda>m. zone_type fs m = Some ''cpu-thermal'') ms of
        Some m \<Rightarrow> Inl (zone_temp m)
      | None \<Rightarrow> Inr (if c \<noteq> [] then c else
          (case find (\<lambda>m. cpu_like uni (zone_type fs m)) ms of Some m \<Rightarrow> zone_temp m | None \<Rightarrow> [])))"
proof (induction ms arbitrary: c)
  case (Cons m ms)
  show ?case
  proof (cases "fs m")
    case (Inl e)
    then have "zone_type fs m = None" by (simp add: zone_type_def)
    moreover have "\<not> cpu_like uni None" by (simp add: cpu_like_def)
    ultimately show ?thesis using Inl Cons by (auto split: option.split)
  next
    case (Inr b)
    have zt: "zone_type fs m = Some (trim_space b)" by (simp add: zone_type_def Inr)
    show ?thesis
      unfolding zone_loop.simps Inr sum.case Let_def Cons zone_temp_def [symmetric]
      using zone_temp_nonempty [of m] by (auto simp: zt cpu_like_def split: option.split)
  qed
qed simp

text \<open>The zones of a Glob that succeeded, none when it failed.\<close>

definition zones :: "file_system \<Rightarrow> string \<Rightarrow> string list" where
  "zones fsys thermalRoot =
     (case fsys_glob fsys (path_join [thermalRoot, ''thermal_zone*'', ''type'']) of
        Inl e \<Rightarrow> [] | Inr ms \<Rightarrow> ms)"

section \<open>Properties\<close>

text \<open>
  C34: the published throttle flag says exactly whether the temperature file of this tick was
  read and holds an integer of at least 80000 millidegrees; the two floating-point
  roundings (of the integer and of the quotient) never move a reading across the threshold,
  for the whole 64-bit range.
\<close>

theorem system_throttled_iff:
  "Throttled (sy_Info (sy_Snapshot_of (sy_tick e c))) \<longleftrightarrow>
     (\<exists>raw n. ye_temp e = Inr raw \<and> parse_int64 (trim_space raw) = Inr n \<and> 80000 \<le> n)"
proof -
  have nil: "parse_int64 [] = Inl ErrSyntax" by code_simp
  show ?thesis
    by (cases "ye_temp e")
      (auto simp: sy_Snapshot_of_def sy_tick_eq tick_parts read_with_def parseTempMillideg_def Let_def
        celsius_ge_80_iff nil split: sum.split dest: parse_int64_bound)
qed

text \<open>
  C35: from a meminfo text with a MemTotal and, later, a MemAvailable line, among lines of
  other entries and followed by anything, \<open>parseMeminfo\<close> computes the byte counts of
  the total and of total minus available (zero when available exceeds the total), without
  wrap-around for totals below 2^54 kB.
\<close>

theorem system_meminfo_roundtrip:
  assumes "list_all other_line xs" and "list_all other_line ys"
    and "list_all (clean_line default_token_limit)
      (xs @ mem_line ''MemTotal'' p t # ys @ [mem_line ''MemAvailable'' q a])"
    and "unat t < 2 ^ 54"
  shows "\<exists>tot used. parseMeminfo (unlines (xs @ mem_line ''MemTotal'' p t # ys @
      [mem_line ''MemAvailable'' q a]) @ rest) = Inr (tot, used) \<and>
    unat tot = unat t * 1024 \<and> unat used = (unat t - unat a) * 1024"
proof -
  have loop: "meminfo_loop None None (xs @ mem_line ''MemTotal'' p t # ys @
      mem_line ''MemAvailable'' q a # ls) = (Some t, Some a)" for ls
    using meminfo_loop_others [OF assms(1), of None None]
      meminfo_loop_others [OF assms(2), of "Some t" None]
    by (simp add: meminfo_loop_total meminfo_loop_avail del: meminfo_loop.simps)
  have scale: "unat (u * 1024) = unat u * 1024" if "unat u \<le> unat t" for u :: u64
    using that assms(4) by (subst unat_mult_lem [THEN iffD1]) simp_all
  show ?thesis
    unfolding parseMeminfo_def scan_lines_prefix [OF assms(3)]
    using loop [of "scan_lines default_token_limit rest"]
    by (auto simp: Let_def scale word_less_nat_alt unat_sub word_le_nat_alt)
qed

lemma system_meminfo_roundtrip_witness:
  "\<exists>tot used. parseMeminfo (unlines ([] @ mem_line ''MemTotal'' 1 4 # [''Buffers: 3 kB''] @
      [mem_line ''MemAvailable'' 1 3]) @ ''rest'') = Inr (tot, used) \<and>
    unat tot = unat (4 :: u64) * 1024 \<and> unat used = (unat (4 :: u64) - unat (3 :: u64)) * 1024"
proof (rule system_meminfo_roundtrip)
  show "list_all other_line []" by simp
  show "list_all other_line [''Buffers: 3 kB'']" by (simp add: other_line_def has_prefix_def)
  show "list_all (clean_line default_token_limit)
      ([] @ mem_line ''MemTotal'' 1 4 # [''Buffers: 3 kB''] @ [mem_line ''MemAvailable'' 1 3])"
    by (simp add: mem_line_def clean_line_def newline_def drop_cr_def default_token_limit_def)
qed simp

definition failing :: "sy_env \<Rightarrow> string \<Rightarrow> bool" where
  "failing e tag \<longleftrightarrow>
     (tag = ''loadavg'' \<and> (\<exists>err. read_with parseLoadavg (ye_load e) = Inl err)) \<or>
     (tag = ''meminfo'' \<and> (\<exists>err. read_with parseMeminfo (ye_mem e) = Inl err)) \<or>
     (tag = ''temp'' \<and> (\<exists>err. read_with parseTempMillideg (ye_temp e) = Inl err))"

text \<open>
  The error of a tick names the sources that failed, in order. One that fails changes nothing
  of what the tick makes of the others: of two environments that differ in the memory's file
  only, the one in which it fails gives the same fields except those two, which are zero.
\<close>

theorem system_failures_isolated:
  assumes "failing (e\<lparr>ye_mem := src\<rparr>) ''meminfo''"
  shows "sy_Info (sy_Snapshot_of (sy_tick (e\<lparr>ye_mem := src\<rparr>) c)) =
      (sy_Info (sy_Snapshot_of (sy_tick e c)))\<lparr>MemTotalBytes := 0, MemUsedBytes := 0\<rparr> \<and>
    (\<exists>errs. sy_Err (sy_Snapshot_of (sy_tick e c)) = (if errs = [] then None else Some (Flat errs)) \<and>
       map fst errs = filter (failing e) [''loadavg'', ''meminfo'', ''temp''])"
proof (intro conjI exI)
  show "sy_Info (sy_Snapshot_of (sy_tick (e\<lparr>ye_mem := src\<rparr>) c)) =
      (sy_Info (sy_Snapshot_of (sy_tick e c)))\<lparr>MemTotalBytes := 0, MemUsedBytes := 0\<rparr>"
    using assms by (auto simp: failing_def sy_Snapshot_of_def sy_tick_eq tick_parts intro!: Info.equality)
  let ?errs = "left_tag ''loadavg'' (read_with parseLoadavg (ye_load e)) @
    left_tag ''meminfo'' (read_with parseMeminfo (ye_mem e)) @ left_tag ''temp'' (read_with parseTempMillideg (ye_temp e))"
  show "sy_Err (sy_Snapshot_of (sy_tick e c)) = (if ?errs = [] then None else Some (Flat ?errs))"
    by (simp add: sy_Snapshot_of_def sy_tick_eq tick_parts Let_def)
  show "map fst ?errs = filter (failing e) [''loadavg'', ''meminfo'', ''temp'']"
    by (simp add: failing_def left_tag_def split: sum.split)
qed

lemma system_failures_isolated_witness:
  "MemTotalBytes (sy_Info (sy_Snapshot_of (sy_tick
     (\<lparr>ye_now = 0, ye_load = Inr [], ye_mem = Inr [], ye_temp = Inr []\<rparr>\<lparr>ye_mem := Inl (NewError ''x'')\<rparr>) (sy_New 0)))) = 0"
proof -
  let ?e = "\<lparr>ye_now = 0, ye_load = Inr [], ye_mem = Inr [], ye_temp = Inr []\<rparr>"
  have "failing (?e\<lparr>ye_mem := Inl (NewError ''x'')\<rparr>) ''meminfo''" by (simp add: failing_def read_with_def)
  from system_failures_isolated [OF this, of "sy_New 0"] show ?thesis by simp
qed

text \<open>
  The selected zone is the first whose type is \<open>cpu-thermal\<close>; without one, the
  first whose type is \<open>bcm2712_thermal\<close> or contains \<open>cpu\<close>, whichever of these
  comes first; without one, zone 0 if its file exists.
\<close>

theorem system_zone_selection:
  "selectThermalZone uni fsys thermalRoot =
     (case find (\<lambda>m. zone_type (fsys_read fsys) m = Some ''cpu-thermal'') (zones fsys thermalRoot) of
        Some m \<Rightarrow> Inr (zone_temp m)
      | None \<Rightarrow>
          (case find (\<lambda>m. cpu_like uni (zone_type (fsys_read fsys) m)) (zones fsys thermalRoot) of
             Some m \<Rightarrow> Inr (zone_temp m)
           | None \<Rightarrow> zone_fallback fsys thermalRoot))"
  by (auto simp: selectThermalZone_def zones_def zone_loop_find zone_temp_nonempty split: sum.split option.split)

text \<open>
  The events that \<open>Run\<close> logs alternate between throttled and cleared, starting
  with throttled, and the last one agrees with the published snapshot (no event meaning not
  throttled) once a ticker event has been handled; before that there is none.
\<close>

theorem system_throttle_log_alternates:
  "alternates False (snd (sy_Run e es c)) \<and>
   (if es = [] then snd (sy_Run e es c) = []
    else logged_flag False (snd (sy_Run e es c)) = Throttled (sy_Info (sy_Snapshot_of (fst (sy_Run e es c)))))"
  using sy_loop_log [of False es "sy_tick e c"] sy_loop_snap [of es False "sy_tick e c"]
  by (auto simp: sy_Run_def sy_Snapshot_of_def sy_tick_eq)

end
