(* ===== verification/Lazy_Cache.thy ===== *)
theory Lazy_Cache
  imports Prelude
begin

text \<open>
  The contract shared by the three lazily refreshed collectors (\<open>hotspot\<close>, \<open>wan\<close>,
  \<open>admin\<close>) and the interleavings of concurrent \<open>Snapshot\<close> calls. A call locks the
  mutex to compare the clock with \<open>lastAt\<close>, unlocks it, then, if the cache was stale,
  calls \<open>refresh\<close>, which locks it again and re-checks; last it loads the published
  snapshot without a lock. Each locked region and the load are one step, and the steps of
  any number of calls interleave freely; the clock never goes back.
\<close>

section \<open>Steps of concurrent calls\<close>

text \<open>
  The phases of one goroutine: no call, found stale at a given instant, about to load
  (with the instant of its check), finished with a snapshot.
\<close>

datatype 's phase = Idle | Stale time | Ready time | Done time 's

record ('c, 's) world =
  coll :: 'c
  phase_of :: "nat \<Rightarrow> 's phase"
  clk :: time
  refreshed :: "time list"

definition start_world :: "'c \<Rightarrow> time \<Rightarrow> ('c, 's) world" where
  "start_world c t = \<lparr>coll = c, phase_of = (\<lambda>_. Idle), clk = t, refreshed = []\<rparr>"

text \<open>
  The relation takes the collector's parts as arguments: the fields \<open>lastAt\<close> and
  \<open>ttl\<close>, the published snapshot, the method \<open>refresh\<close> with an environment that
  holds its two clock readings, and those readings.
\<close>

inductive snap_step ::
  "('c \<Rightarrow> time) \<Rightarrow> ('c \<Rightarrow> duration) \<Rightarrow> ('c \<Rightarrow> 's) \<Rightarrow> ('e \<Rightarrow> 'c \<Rightarrow> 'c \<times> 'o list) \<Rightarrow>
   ('e \<Rightarrow> time) \<Rightarrow> ('e \<Rightarrow> time) \<Rightarrow> ('c, 's) world \<Rightarrow> ('c, 's) world \<Rightarrow> bool"
  for lastAt ttl load refresh recheck now where
  call: "phase_of w i = Done t s \<Longrightarrow>
     snap_step lastAt ttl load refresh recheck now w (w\<lparr>phase_of := (phase_of w)(i := Idle)\<rparr>)"
| check: "phase_of w i = Idle \<Longrightarrow> clk w \<le> t \<Longrightarrow>
     snap_step lastAt ttl load refresh recheck now w
       (w\<lparr>clk := t, phase_of := (phase_of w)(i :=
          if ttl (coll w) \<le> time_sub t (lastAt (coll w)) then Stale t else Ready t)\<rparr>)"
| refresh_fresh: "phase_of w i = Stale t \<Longrightarrow> clk w \<le> recheck e \<Longrightarrow>
     time_sub (recheck e) (lastAt (coll w)) < ttl (coll w) \<Longrightarrow>
     snap_step lastAt ttl load refresh recheck now w
       (w\<lparr>clk := recheck e, coll := fst (refresh e (coll w)), phase_of := (phase_of w)(i := Ready t)\<rparr>)"
| refresh_stale: "phase_of w i = Stale t \<Longrightarrow> clk w \<le> recheck e \<Longrightarrow> recheck e \<le> now e \<Longrightarrow>
     \<not> time_sub (recheck e) (lastAt (coll w)) < ttl (coll w) \<Longrightarrow>
     snap_step lastAt ttl load refresh recheck now w
       (w\<lparr>clk := now e, coll := fst (refresh e (coll w)), refreshed := now e # refreshed w,
          phase_of := (phase_of w)(i := Ready t)\<rparr>)"
| load: "phase_of w i = Ready t \<Longrightarrow>
     snap_step lastAt ttl load refresh recheck now w
       (w\<lparr>phase_of := (phase_of w)(i := Done t (load (coll w)))\<rparr>)"

text \<open>Refresh instants, newest first, at least \<open>d\<close> apart.\<close>

fun spaced :: "duration \<Rightarrow> time list \<Rightarrow> bool" where
  "spaced d (t # u # us) \<longleftrightarrow> d \<le> t - u \<and> spaced d (u # us)"
| "spaced d us \<longleftrightarrow> True"

lemma spaced_length:
  "spaced d (t # us) \<Longrightarrow> int (length us) * d \<le> t - last (t # us)"
  by (induction us arbitrary: t) (fastforce simp: algebra_simps)+

section \<open>The contract\<close>

locale lazy_collector =
  fixes lastAt :: "'c \<Rightarrow> time"
    and ttl :: "'c \<Rightarrow> duration"
    and load :: "'c \<Rightarrow> 's"
    and at :: "'s \<Rightarrow> time"
    and refresh :: "'e \<Rightarrow> 'c \<Rightarrow> 'c \<times> 'o list"
    and recheck :: "'e \<Rightarrow> time"
    and now :: "'e \<Rightarrow> time"
  assumes fresh: "time_sub (recheck e) (lastAt c) < ttl c \<Longrightarrow> refresh e c = (c, [])"
    and stale_lastAt: "\<not> time_sub (recheck e) (lastAt c) < ttl c \<Longrightarrow> lastAt (fst (refresh e c)) = now e"
    and stale_at: "\<not> time_sub (recheck e) (lastAt c) < ttl c \<Longrightarrow> at (load (fst (refresh e c))) = now e"
    and ttl_kept: "ttl (fst (refresh e c)) = ttl c"
begin

abbreviation step :: "('c, 's) world \<Rightarrow> ('c, 's) world \<Rightarrow> bool" where
  "step \<equiv> snap_step lastAt ttl load refresh recheck now"

text \<open>
  What every step keeps: the TTL, the refresh instants are spaced and the newest is
  \<open>lastAt\<close>, the snapshot is no older than \<open>lastAt\<close>, and what each call was promised.
\<close>

definition phase_ok :: "duration \<Rightarrow> time \<Rightarrow> time \<Rightarrow> 's phase \<Rightarrow> bool" where
  "phase_ok d t_clk t_snap p =
     (case p of
        Idle \<Rightarrow> True
      | Stale t \<Rightarrow> t \<le> t_clk
      | Ready t \<Rightarrow> t - t_snap < d
      | Done t s \<Rightarrow> t - at s < d)"

definition cache_inv :: "duration \<Rightarrow> ('c, 's) world \<Rightarrow> bool" where
  "cache_inv d w \<longleftrightarrow>
     ttl (coll w) = d \<and> spaced d (refreshed w) \<and>
     (\<forall>t us. refreshed w = t # us \<longrightarrow> lastAt (coll w) = t) \<and>
     lastAt (coll w) \<le> at (load (coll w)) \<and> at (load (coll w)) \<le> clk w \<and>
     (\<forall>i. phase_ok d (clk w) (at (load (coll w))) (phase_of w i))"

lemma phase_ok_mono:
  "phase_ok d t a p \<Longrightarrow> t \<le> t' \<Longrightarrow> a \<le> a' \<Longrightarrow> phase_ok d t' a' p"
  by (auto simp: phase_ok_def split: phase.splits)

lemma phase_ok_simps [simp]:
  "phase_ok d t a Idle" "phase_ok d t a (Stale u) \<longleftrightarrow> u \<le> t"
  "phase_ok d t a (Ready u) \<longleftrightarrow> u - a < d" "phase_ok d t a (Done u s) \<longleftrightarrow> u - at s < d"
  by (simp_all add: phase_ok_def)

lemma cache_inv_phase: "cache_inv d w \<Longrightarrow> phase_ok d (clk w) (at (load (coll w))) (phase_of w i)"
  by (simp add: cache_inv_def)

lemma start_inv:
  "lastAt c \<le> at (load c) \<Longrightarrow> at (load c) \<le> t \<Longrightarrow> cache_inv (ttl c) (start_world c t)"
  by (simp add: cache_inv_def start_world_def)

text \<open>A step that only moves the clock on and one call to a new phase.\<close>

lemma phase_step_inv:
  assumes "cache_inv d w" and "clk w \<le> t" and "phase_ok d t (at (load (coll w))) p"
  shows "cache_inv d (w\<lparr>clk := t, phase_of := (phase_of w)(i := p)\<rparr>)"
  using assms by (auto simp: cache_inv_def intro: phase_ok_mono)

lemma step_inv:
  assumes "step w w'" and "cache_inv d w" and d: "is_duration d" "0 < d"
  shows "cache_inv d w'"
  using assms(1,2)
proof (induction rule: snap_step.induct)
  case (call w i t s)
  then show ?case by (auto simp: cache_inv_def)
next
  case (check w i t)
  have "min_duration < d" using d(2) by (simp add: duration_defs)
  then have "time_sub t (lastAt (coll w)) < d \<longleftrightarrow> t - lastAt (coll w) < d"
    using time_sub_less_iff [OF d(1)] by blast
  then show ?case
    using check by (intro phase_step_inv) (auto simp: cache_inv_def)
next
  case (refresh_fresh w i t e)
  have "min_duration < d" using d(2) by (simp add: duration_defs)
  with refresh_fresh have "recheck e - lastAt (coll w) < d"
    using time_sub_less_iff [OF d(1)] by (simp add: cache_inv_def)
  moreover have "fst (refresh e (coll w)) = coll w" using fresh refresh_fresh by simp
  moreover have "t \<le> clk w"
    using cache_inv_phase [OF refresh_fresh.prems, of i] refresh_fresh(1) by simp
  moreover have "lastAt (coll w) \<le> at (load (coll w))"
    using refresh_fresh.prems by (simp add: cache_inv_def)
  ultimately show ?case
    using phase_step_inv [OF refresh_fresh.prems refresh_fresh(2), of "Ready t" i] refresh_fresh(2)
    by simp
next
  case (refresh_stale w i t e)
  have "min_duration < d" using d(2) by (simp add: duration_defs)
  with refresh_stale have gap: "d \<le> recheck e - lastAt (coll w)"
    by (simp add: cache_inv_def not_less time_sub_ge_iff [OF d(1)])
  note new = stale_lastAt [OF refresh_stale(4)] stale_at [OF refresh_stale(4)] ttl_kept
  have spaced': "spaced d (now e # refreshed w)"
    using refresh_stale gap by (cases "refreshed w") (auto simp: cache_inv_def)
  have le: "clk w \<le> now e" "at (load (coll w)) \<le> now e"
    using refresh_stale by (auto simp: cache_inv_def)
  have phases: "phase_ok d (now e) (now e) (phase_of w j)" for j
    using cache_inv_phase [OF refresh_stale.prems] le by (rule phase_ok_mono)
  have "t \<le> now e"
    using cache_inv_phase [OF refresh_stale.prems, of i] refresh_stale(1) le by simp
  then show ?case
    using refresh_stale.prems d(2) new spaced' phases by (auto simp: cache_inv_def)
next
  case (load w i t)
  then have "phase_ok d (clk w) (at (load (coll w))) (Ready t)"
    using cache_inv_phase [OF load.prems, of i] by simp
  then show ?case
    using load.prems phase_step_inv [OF load.prems order_refl, of "Done t (load (coll w))" i]
    by simp
qed

lemma run_inv:
  assumes "step\<^sup>*\<^sup>* w w'" and "cache_inv d w" and "is_duration d" "0 < d"
  shows "cache_inv d w'"
  using assms by (induction rule: rtranclp_induct) (auto intro: step_inv)

lemma reach_inv:
  assumes "step\<^sup>*\<^sup>* (start_world c t) w" and "lastAt c \<le> at (load c)" and "at (load c) \<le> t"
    and "is_duration (ttl c)" "0 < ttl c"
  shows "cache_inv (ttl c) w"
  using assms run_inv start_inv by blast

text \<open>Refreshes are at least the TTL apart, however the calls interleave.\<close>

lemma refreshes_spaced:
  assumes "step\<^sup>*\<^sup>* (start_world c t) w" and "lastAt c \<le> at (load c)" and "at (load c) \<le> t"
    and "is_duration (ttl c)" "0 < ttl c"
  shows "spaced (ttl c) (refreshed w)"
  using reach_inv [OF assms] by (simp add: cache_inv_def)

text \<open>A finished call holds a snapshot younger than the TTL, counted from its check.\<close>

lemma result_fresh:
  assumes "step\<^sup>*\<^sup>* (start_world c t) w" and "lastAt c \<le> at (load c)" and "at (load c) \<le> t"
    and "is_duration (ttl c)" "0 < ttl c" and "phase_of w i = Done u s"
  shows "u - at s < ttl c"
proof -
  have "cache_inv (ttl c) w" using assms(1-5) by (rule reach_inv)
  from cache_inv_phase [OF this, of i] assms(6) show ?thesis by simp
qed

end

text \<open>The method \<open>Snapshot\<close> itself, run without interference.\<close>

locale lazy_snapshot = lazy_collector lastAt ttl load at refresh recheck now
  for lastAt :: "'c \<Rightarrow> time"
    and ttl :: "'c \<Rightarrow> duration"
    and load :: "'c \<Rightarrow> 's"
    and at :: "'s \<Rightarrow> time"
    and refresh :: "'e \<Rightarrow> 'c \<Rightarrow> 'c \<times> 'o list"
    and recheck :: "'e \<Rightarrow> time"
    and now :: "'e \<Rightarrow> time" +
  fixes snapshot :: "time \<Rightarrow> 'e \<Rightarrow> 'c \<Rightarrow> ('c \<times> 'o list) \<times> 's"
  assumes snapshot_stale: "ttl c \<le> time_sub t (lastAt c) \<Longrightarrow>
      snapshot t e c = (refresh e c, load (fst (refresh e c)))"
    and snapshot_fresh: "\<not> ttl c \<le> time_sub t (lastAt c) \<Longrightarrow> snapshot t e c = ((c, []), load c)"
begin

lemma snapshot_within_ttl:
  "time_sub t (lastAt c) < ttl c \<Longrightarrow> snapshot t e c = ((c, []), load c)"
  by (simp add: snapshot_fresh)

text \<open>After a refresh, a second call within the TTL changes nothing and returns the same snapshot.\<close>

lemma snapshot_again:
  assumes "ttl c \<le> time_sub t (lastAt c)" and "\<not> time_sub (recheck e) (lastAt c) < ttl c"
    and "time_sub u (now e) < ttl c"
  shows "snapshot u e' (fst (fst (snapshot t e c))) =
    ((fst (fst (snapshot t e c)), []), snd (snapshot t e c))"
  using assms by (simp add: snapshot_stale snapshot_fresh stale_lastAt ttl_kept)

text \<open>What every refresh keeps, every call keeps; and a call returns what is then published.\<close>

lemma snapshot_keeps:
  assumes "I c" and "\<And>e c. I c \<Longrightarrow> I (fst (refresh e c))"
  shows "I (fst (fst (snapshot t e c)))"
  using assms by (cases "ttl c \<le> time_sub t (lastAt c)") (simp_all add: snapshot_stale snapshot_fresh)

lemma snapshot_loads: "snd (snapshot t e c) = load (fst (fst (snapshot t e c)))"
  by (cases "ttl c \<le> time_sub t (lastAt c)") (simp_all add: snapshot_stale snapshot_fresh)

text \<open>A lone call on a stale cache: check, refresh, load.\<close>

lemma solo_run:
  assumes "ttl c \<le> time_sub t (lastAt c)" and "\<not> time_sub (recheck e) (lastAt c) < ttl c"
    and "t0 \<le> t" and "t \<le> recheck e" and "recheck e \<le> now e"
  shows "\<exists>w. (snap_step lastAt ttl load refresh recheck now)\<^sup>*\<^sup>* (start_world c t0) w \<and>
    phase_of w 0 = Done t (load (fst (refresh e c))) \<and> refreshed w = [now e]"
proof -
  let ?w1 = "start_world c t0\<lparr>clk := t, phase_of := (\<lambda>_. Idle)(0 := Stale t)\<rparr>"
  let ?w2 = "?w1\<lparr>clk := now e, coll := fst (refresh e c), refreshed := [now e],
    phase_of := (\<lambda>_. Idle)(0 := Ready t)\<rparr>"
  let ?w3 = "?w2\<lparr>phase_of := (\<lambda>_. Idle)(0 := Done t (load (fst (refresh e c))))\<rparr>"
  have "step (start_world c t0) ?w1"
    using snap_step.check [of "start_world c t0" 0 t lastAt ttl load refresh recheck now] assms(1,3)
    by (simp add: start_world_def)
  moreover have "step ?w1 ?w2"
    using snap_step.refresh_stale [of ?w1 0 t recheck e now lastAt ttl load refresh] assms(2,4,5)
    by (simp add: start_world_def)
  moreover have "step ?w2 ?w3"
    using snap_step.load [of ?w2 0 t lastAt ttl load refresh recheck now] by simp
  ultimately have "step\<^sup>*\<^sup>* (start_world c t0) ?w3"
    by (meson converse_rtranclp_into_rtranclp rtranclp.rtrancl_refl)
  then show ?thesis by (intro exI [of _ ?w3]) simp
qed

end

end
