(* ===== verification/Key_Value.thy ===== *)
theory Key_Value
  imports Go_Strings
begin

text \<open>
  The indented \<open>key: value\<close> lines that \<open>iw\<close> prints, for the round trips of the two
  packages that parse them: what trimming and splitting at the first colon make of a
  printed line, and why it is not taken for a header.
\<close>

text \<open>Text that trimming leaves alone: its first and last bytes are plain.\<close>

definition trimmed_text :: "string \<Rightarrow> bool" where
  "trimmed_text s \<longleftrightarrow> s \<noteq> [] \<and> plain_byte (hd s) \<and> plain_byte (last s)"

lemma trimmed_text_trim [string_facts]: "trimmed_text s \<Longrightarrow> trim_space s = s"
proof -
  assume t: "trimmed_text s"
  then obtain c u d v where "s = c # u" "plain_byte c" "rev s = d # v" "plain_byte d"
    by (cases s; cases "rev s") (auto simp: trimmed_text_def hd_rev [symmetric])
  then have "space_len s = 0" "space_len_rev (rev s) = 0" by (simp_all del: space_len.simps space_len_rev.simps)
  then show ?thesis by (rule trim_space_id)
qed

lemma trimmed_text_append: "trimmed_text a \<Longrightarrow> trimmed_text b \<Longrightarrow> trimmed_text (a @ s @ b)"
  by (simp add: trimmed_text_def)

lemma plain_word_trimmed: "plain_word w \<Longrightarrow> trimmed_text w"
  by (auto simp: trimmed_text_def plain_word_def list_all_iff)

lemma trimmed_text_nonempty: "trimmed_text s \<Longrightarrow> s \<noteq> []"
  by (simp add: trimmed_text_def)

lemma plain_words [simp]: "plain_word ''Station''" "plain_word '')''" "plain_word ''dBm''"
  "plain_word ''Connected''" "plain_word ''to''"
  by code_simp+

definition tab :: char where
  "tab = CHR 0x09"

lemma tab_space [simp]: "ascii_space tab"
  by (simp add: tab_def)

text \<open>A line with the key, the colon, a separator and the value; its key is no header's.\<close>

definition kv_text :: "char \<Rightarrow> string \<times> string \<Rightarrow> string" where
  "kv_text sep kv = tab # fst kv @ '':'' @ sep # snd kv"

definition key_ok :: "string list \<Rightarrow> string \<Rightarrow> bool" where
  "key_ok headers k \<longleftrightarrow> trimmed_text k \<and> CHR '':'' \<notin> set k \<and> list_all (\<lambda>h. \<not> has_prefix k h) headers"

text \<open>A prefix without a colon does not reach past the key.\<close>

lemma no_header_prefix:
  assumes "\<not> has_prefix k h" and "CHR '':'' \<notin> set h"
  shows "\<not> has_prefix (k @ CHR '':'' # r) h"
proof
  assume "has_prefix (k @ CHR '':'' # r) h"
  then obtain t where "k @ CHR '':'' # r = h @ t" by (auto simp only: has_prefix_iff)
  then obtain u where "k = h @ u \<or> k @ u = h \<and> CHR '':'' # r = u @ t"
    unfolding append_eq_append_conv2 by blast
  then show False
  proof
    assume "k = h @ u"
    then show False using assms(1) has_prefix_append by blast
  next
    assume u: "k @ u = h \<and> CHR '':'' # r = u @ t"
    show False
    proof (cases u)
      case Nil
      then show False using u assms(1) has_prefix_append [of k "[]"] by simp
    next
      case (Cons x xs)
      then have "x = CHR '':''" using u by simp
      then have "CHR '':'' \<in> set (k @ u)" by (simp add: Cons)
      then show False using u assms(2) by metis
    qed
  qed
qed

lemma kv_text_facts:
  assumes "key_ok headers k" and "trimmed_text v" and "ascii_space sep"
  shows "trim_space (kv_text sep (k, v)) = k @ CHR '':'' # sep # v"
    and "index_byte (k @ CHR '':'' # sep # v) CHR '':'' = Some (length k)"
    and "trim_space k = k" and "trim_space (sep # v) = v"
    and "h \<in> set headers \<Longrightarrow> CHR '':'' \<notin> set h \<Longrightarrow> \<not> has_prefix (k @ CHR '':'' # sep # v) h"
proof -
  show "trim_space (kv_text sep (k, v)) = k @ CHR '':'' # sep # v"
    using trimmed_text_trim [OF trimmed_text_append [of k v "[CHR '':'', sep]"]] assms
    by (simp add: kv_text_def trim_space_skip key_ok_def)
  show "index_byte (k @ CHR '':'' # sep # v) CHR '':'' = Some (length k)"
    using assms(1) by (intro index_byte_append) (simp add: key_ok_def)
  show "trim_space k = k" "trim_space (sep # v) = v"
    using assms by (simp_all add: key_ok_def trim_space_skip trimmed_text_trim)
  show "\<not> has_prefix (k @ CHR '':'' # sep # v) h" if "h \<in> set headers" "CHR '':'' \<notin> set h"
    using assms(1) that by (intro no_header_prefix) (auto simp: key_ok_def list_all_iff)
qed

end
