(* ===== verification/Hotspot.thy ===== *)
theory Hotspot
  imports Go_Numbers Go_Path Configuration Lazy_Cache Key_Value
begin

text \<open>
  \<open>internal/hotspot\<close>: the station dump parser (\<open>clients.go\<close>), the lease file parser
  (\<open>leases.go\<close>) and the lazily refreshed collector (\<open>collector.go\<close>). Facts: both
  parsers undo printing; every outcome of a refresh (absent, command failed, lease read
  failed, success); refreshes are spaced by the TTL under any interleaving of calls.
\<close>

section \<open>The station dump\<close>

record Client =
  cl_MAC :: string
  cl_IP :: string
  cl_Hostname :: string
  cl_SignalDBm :: int
  cl_ConnectedSeconds :: u64
  cl_RxBytes :: u64
  cl_TxBytes :: u64

definition new_Client :: "string \<Rightarrow> Client" where
  "new_Client mac = \<lparr>cl_MAC = mac, cl_IP = [], cl_Hostname = [], cl_SignalDBm = 0,
     cl_ConnectedSeconds = 0, cl_RxBytes = 0, cl_TxBytes = 0\<rparr>"

definition splitKeyValue :: "string \<Rightarrow> (string \<times> string) option" where
  "splitKeyValue line =
     (case index_byte line CHR '':'' of
        None \<Rightarrow> None
      | Some idx \<Rightarrow> Some (trim_space (take idx line), trim_space (drop (Suc idx) line)))"

definition parseUint :: "string \<Rightarrow> u64" where
  "parseUint s =
     (case str_fields s of
        [] \<Rightarrow> 0
      | f # fs \<Rightarrow> (case parse_uint64 f of Inl e \<Rightarrow> 0 | Inr n \<Rightarrow> n))"

definition parseFirstInt :: "string \<Rightarrow> int" where
  "parseFirstInt s =
     (case str_fields s of
        [] \<Rightarrow> 0
      | f # fs \<Rightarrow> (case parse_int64 f of Inl e \<Rightarrow> 0 | Inr n \<Rightarrow> n))"

definition client_field :: "string \<Rightarrow> string \<Rightarrow> Client \<Rightarrow> Client" where
  "client_field key v cl =
     (if key = ''rx bytes'' then cl\<lparr>cl_RxBytes := parseUint v\<rparr>
      else if key = ''tx bytes'' then cl\<lparr>cl_TxBytes := parseUint v\<rparr>
      else if key = ''signal'' then cl\<lparr>cl_SignalDBm := parseFirstInt v\<rparr>
      else if key = ''connected time'' then cl\<lparr>cl_ConnectedSeconds := parseUint v\<rparr>
      else cl)"

text \<open>The loop's state: the station being read (\<open>cur\<close>) and those that are complete.\<close>

type_synonym station_state = "Client option \<times> Client list"

definition flush :: "station_state \<Rightarrow> station_state" where
  "flush st = (case st of (None, clients) \<Rightarrow> (None, clients) | (Some cl, clients) \<Rightarrow> (None, clients @ [cl]))"

definition station_line :: "(string \<Rightarrow> string) \<Rightarrow> string \<Rightarrow> station_state \<Rightarrow> station_state" where
  "station_line uni line st =
     (let trimmed = trim_space line in
      if trimmed = [] then st
      else if has_prefix trimmed ''Station '' then
        (let st' = flush st; fs = str_fields trimmed in
         if length fs < 2 then st' else (Some (new_Client (to_lower uni (fs ! 1))), snd st'))
      else case fst st of
          None \<Rightarrow> st
        | Some cl \<Rightarrow>
            (case splitKeyValue trimmed of
               None \<Rightarrow> st
             | Some (key, v) \<Rightarrow> (Some (client_field key v cl), snd st)))"

definition parseStationDump :: "(string \<Rightarrow> string) \<Rightarrow> string \<Rightarrow> Client list" where
  "parseStationDump uni raw =
     snd (flush (fold (station_line uni) (scan_lines large_token_limit raw) (None, [])))"

section \<open>The lease file\<close>

record leaseEntry =
  le_IP :: string
  le_Hostname :: string

definition lease_line :: "(string \<Rightarrow> string) \<Rightarrow> string \<Rightarrow> (string \<rightharpoonup> leaseEntry) \<Rightarrow> (string \<rightharpoonup> leaseEntry)" where
  "lease_line uni l out =
     (let line = trim_space l in
      if line = [] \<or> has_prefix line ''#'' then out
      else let fs = str_fields line in
        if length fs < 4 then out
        else let mac = to_lower uni (fs ! 1); ip = fs ! 2; hostname = fs ! 3 in
          out(mac \<mapsto> \<lparr>le_IP = ip, le_Hostname = (if hostname = ''*'' then [] else hostname)\<rparr>))"

definition parseLeases :: "(string \<Rightarrow> string) \<Rightarrow> string \<Rightarrow> (string \<rightharpoonup> leaseEntry)" where
  "parseLeases uni raw = fold (lease_line uni) (scan_lines default_token_limit raw) Map.empty"

section \<open>The collector\<close>

definition hs_ErrInterfaceAbsent :: go_error where
  "hs_ErrInterfaceAbsent = NewError ''interface absent''"

record hs_Snapshot =
  hs_At :: time
  hs_Iface :: string
  hs_Clients :: "Client list"
  hs_Err :: "go_error option"

record hs_Collector =
  hs_iface :: string
  hs_ttl :: duration
  hs_lastAt :: time
  hs_snap :: hs_Snapshot
  hs_prevClientCount :: nat
  hs_prevAbsent :: bool

text \<open>
  What one refresh meets: its two clock readings, the injected \<open>exists\<close> (which may be
  nil), and the results of \<open>iw\<close> and of reading the lease file.
\<close>

record hs_env =
  he_recheck :: time
  he_now :: time
  he_exists :: "(string \<Rightarrow> bool) option"
  he_iw :: "string \<Rightarrow> go_error + string"
  he_leases :: "go_error + string"

text \<open>What it does besides changing the collector: commands, file reads and log lines.\<close>

datatype hs_effect =
    HsRunIw string
  | HsReadLeases
  | HsLogAbsent string
  | HsLogPresent string
  | HsLogIwFailed string go_error
  | HsLogCount nat nat string

definition hs_newWithDeps :: "string \<Rightarrow> time \<Rightarrow> duration \<Rightarrow> hs_Collector" where
  "hs_newWithDeps iface t ttl =
     \<lparr>hs_iface = iface, hs_ttl = ttl, hs_lastAt = 0,
      hs_snap = \<lparr>hs_At = t, hs_Iface = iface, hs_Clients = [], hs_Err = None\<rparr>,
      hs_prevClientCount = 0, hs_prevAbsent = False\<rparr>"

definition hs_New :: "config \<Rightarrow> time \<Rightarrow> hs_Collector" where
  "hs_New cfg t = hs_newWithDeps (HotspotIf cfg) t second"

text \<open>The environment that \<open>New\<close> wires in; \<open>dirs\<close> tells which paths \<open>os.Stat\<close> finds.\<close>

definition hs_production_env ::
  "config \<Rightarrow> (string \<Rightarrow> bool) \<Rightarrow> files \<Rightarrow> (string list \<Rightarrow> go_error + string) \<Rightarrow> time \<Rightarrow> time \<Rightarrow> hs_env" where
  "hs_production_env cfg stat fs exec t1 t2 =
     \<lparr>he_recheck = t1, he_now = t2,
      he_exists = Some (\<lambda>name. stat (path_join [SysPath cfg, ''class'', ''net'', name])),
      he_iw = (\<lambda>iface. exec [''iw'', ''dev'', iface, ''station'', ''dump'']),
      he_leases = fs (LeasesPath cfg)\<rparr>"

definition enrich :: "(string \<rightharpoonup> leaseEntry) \<Rightarrow> Client \<Rightarrow> Client" where
  "enrich leases cl =
     (case leases (cl_MAC cl) of
        None \<Rightarrow> cl
      | Some entry \<Rightarrow> cl\<lparr>cl_IP := le_IP entry, cl_Hostname := le_Hostname entry\<rparr>)"

text \<open>The part of \<open>refresh\<close> after the command, with the log line about the count.\<close>

definition hs_stations :: "(string \<Rightarrow> string) \<Rightarrow> hs_env \<Rightarrow> string \<Rightarrow> Client list" where
  "hs_stations uni e iwOut =
     sort_key cl_MAC
       (case he_leases e of
          Inl leaseErr \<Rightarrow> parseStationDump uni iwOut
        | Inr leasesRaw \<Rightarrow> map (enrich (parseLeases uni leasesRaw)) (parseStationDump uni iwOut))"

definition hs_refresh_ok ::
  "(string \<Rightarrow> string) \<Rightarrow> hs_env \<Rightarrow> string \<Rightarrow> hs_Collector \<Rightarrow> hs_Collector \<times> hs_effect list" where
  "hs_refresh_ok uni e iwOut c =
     (let clients = hs_stations uni e iwOut;
          err = (case he_leases e of
              Inl leaseErr \<Rightarrow> if is_not_exist leaseErr then None else Some (Wrap ''leases: '' leaseErr)
            | Inr raw \<Rightarrow> None);
          n = length clients in
      (c\<lparr>hs_snap := \<lparr>hs_At = he_now e, hs_Iface = hs_iface c, hs_Clients = clients, hs_Err = err\<rparr>,
         hs_prevClientCount := n, hs_lastAt := he_now e\<rparr>,
       HsReadLeases # (if n \<noteq> hs_prevClientCount c
         then [HsLogCount (hs_prevClientCount c) n (hs_iface c)] else [])))"

definition hs_absent :: "hs_env \<Rightarrow> hs_Collector \<Rightarrow> bool" where
  "hs_absent e c \<longleftrightarrow> (case he_exists e of None \<Rightarrow> False | Some f \<Rightarrow> \<not> f (hs_iface c))"

definition hs_refresh :: "(string \<Rightarrow> string) \<Rightarrow> hs_env \<Rightarrow> hs_Collector \<Rightarrow> hs_Collector \<times> hs_effect list" where
  "hs_refresh uni e c =
     (if time_sub (he_recheck e) (hs_lastAt c) < hs_ttl c then (c, [])
      else if hs_absent e c then
        (c\<lparr>hs_prevAbsent := True,
           hs_snap := \<lparr>hs_At = he_now e, hs_Iface = hs_iface c, hs_Clients = [],
                       hs_Err = Some hs_ErrInterfaceAbsent\<rparr>,
           hs_lastAt := he_now e\<rparr>,
         if hs_prevAbsent c then [] else [HsLogAbsent (hs_iface c)])
      else
        (let log1 = (if hs_prevAbsent c then [HsLogPresent (hs_iface c)] else []);
             c = c\<lparr>hs_prevAbsent := False\<rparr> in
         case he_iw e (hs_iface c) of
           Inl iwErr \<Rightarrow>
             (c\<lparr>hs_snap := \<lparr>hs_At = he_now e, hs_Iface = hs_iface c, hs_Clients = hs_Clients (hs_snap c),
                            hs_Err = Some (Wrap ''iw: '' iwErr)\<rparr>,
                hs_lastAt := he_now e\<rparr>,
              log1 @ [HsRunIw (hs_iface c), HsLogIwFailed (hs_iface c) iwErr])
         | Inr iwOut \<Rightarrow>
             (let (c', effs) = hs_refresh_ok uni e iwOut c in (c', log1 @ HsRunIw (hs_iface c) # effs))))"

text \<open>\<open>Snapshot\<close>: \<open>t\<close> is the clock reading of the unlocked check.\<close>

definition hs_Snapshot_of ::
  "(string \<Rightarrow> string) \<Rightarrow> time \<Rightarrow> hs_env \<Rightarrow> hs_Collector \<Rightarrow> (hs_Collector \<times> hs_effect list) \<times> hs_Snapshot" where
  "hs_Snapshot_of uni t e c =
     (if hs_ttl c \<le> time_sub t (hs_lastAt c)
      then (let r = hs_refresh uni e c in (r, hs_snap (fst r)))
      else ((c, []), hs_snap c))"

section \<open>The cache contract\<close>

lemma hs_refresh_fresh [time_facts]:
  "time_sub (he_recheck e) (hs_lastAt c) < hs_ttl c \<Longrightarrow> hs_refresh uni e c = (c, [])"
  by (simp add: hs_refresh_def)

lemma hs_refresh_stale:
  assumes "\<not> time_sub (he_recheck e) (hs_lastAt c) < hs_ttl c"
  shows "hs_lastAt (fst (hs_refresh uni e c)) = he_now e"
    and "hs_At (hs_snap (fst (hs_refresh uni e c))) = he_now e"
  using assms by (auto simp: hs_refresh_def hs_refresh_ok_def Let_def split: sum.split)

lemma hs_refresh_kept [simp]:
  "hs_ttl (fst (hs_refresh uni e c)) = hs_ttl c"
  "hs_iface (fst (hs_refresh uni e c)) = hs_iface c"
  by (auto simp: hs_refresh_def hs_refresh_ok_def Let_def split: sum.split)

interpretation hs: lazy_snapshot hs_lastAt hs_ttl hs_snap hs_At "hs_refresh uni" he_recheck he_now
  "hs_Snapshot_of uni" for uni
  by unfold_locales (simp_all add: hs_refresh_fresh hs_refresh_stale hs_Snapshot_of_def Let_def)

section \<open>Printing a station dump\<close>

abbreviation kv_line :: "string \<times> string \<Rightarrow> string" where
  "kv_line \<equiv> kv_text tab"

abbreviation station_key :: "string \<Rightarrow> bool" where
  "station_key \<equiv> key_ok [''Station '']"

lemma station_line_kv:
  assumes "station_key k" and "trimmed_text v"
  shows "station_line uni (kv_line (k, v)) (Some cl, cls) = (Some (client_field k v cl), cls)"
proof -
  note f = kv_text_facts [OF assms tab_space]
  have "splitKeyValue (k @ CHR '':'' # tab # v) = Some (k, v)"
    unfolding splitKeyValue_def f(2) using f(3,4) by simp
  moreover have "\<not> has_prefix (k @ CHR '':'' # tab # v) ''Station ''" by (rule f(5)) simp_all
  ultimately show ?thesis
    unfolding station_line_def f(1) Let_def by simp
qed

lemma fold_station_kv:
  "list_all (\<lambda>(k, v). station_key k \<and> trimmed_text v) kvs \<Longrightarrow>
     fold (station_line uni) (map kv_line kvs) (Some cl, cls) =
       (Some (fold (\<lambda>(k, v). client_field k v) kvs cl), cls)"
  by (induction kvs arbitrary: cl) (auto simp: station_line_kv)

definition station_header :: "string \<Rightarrow> string \<Rightarrow> string" where
  "station_header mac iface = ''Station '' @ mac @ '' (on '' @ iface @ '')''"

lemma station_line_header:
  assumes "plain_word mac"
  shows "station_line uni (station_header mac iface) st = (Some (new_Client (to_lower uni mac)), snd (flush st))"
proof -
  have t: "trim_space (station_header mac iface) = station_header mac iface"
    using trim_space_words(1) [of "''Station''" "'')''" "CHR '' '' # mac @ '' (on '' @ iface"]
    by (simp add: station_header_def)
  have f: "str_fields (station_header mac iface) = ''Station'' # mac # str_fields (''(on '' @ iface @ '')'')"
    using fields_word_space [of "''Station''" "CHR '' ''" "mac @ CHR '' '' # ''(on '' @ iface @ '')''"]
      fields_word_space [OF assms, of "CHR '' ''" "''(on '' @ iface @ '')''"]
    by (simp add: station_header_def)
  have p: "has_prefix (station_header mac iface) ''Station ''"
    by (simp only: station_header_def has_prefix_append)
  moreover have "station_header mac iface \<noteq> []" by (simp add: station_header_def)
  ultimately show ?thesis
    unfolding station_line_def t Let_def f by simp
qed

text \<open>
  A station as \<open>iw\<close> prints it: the header, the four lines the parser reads, and any
  lines with other keys before and after them.
\<close>

record printed_station =
  ps_client :: Client
  ps_iface :: string
  ps_before :: "(string \<times> string) list"
  ps_after :: "(string \<times> string) list"

definition known_kvs :: "Client \<Rightarrow> (string \<times> string) list" where
  "known_kvs cl =
     [(''rx bytes'', show_nat (unat (cl_RxBytes cl))), (''tx bytes'', show_nat (unat (cl_TxBytes cl))),
      (''signal'', show_int (cl_SignalDBm cl) @ '' dBm''),
      (''connected time'', show_nat (unat (cl_ConnectedSeconds cl)) @ '' seconds'')]"

definition show_station :: "printed_station \<Rightarrow> string list" where
  "show_station p = station_header (cl_MAC (ps_client p)) (ps_iface p) #
     map kv_line (ps_before p @ known_kvs (ps_client p) @ ps_after p)"

definition other_kv :: "string \<times> string \<Rightarrow> bool" where
  "other_kv kv \<longleftrightarrow> station_key (fst kv) \<and> trimmed_text (snd kv) \<and>
     fst kv \<notin> {''rx bytes'', ''tx bytes'', ''signal'', ''connected time''}"

definition station_ok :: "printed_station \<Rightarrow> bool" where
  "station_ok p \<longleftrightarrow> plain_word (cl_MAC (ps_client p)) \<and> list_all other_kv (ps_before p) \<and>
     list_all other_kv (ps_after p) \<and> - (2 ^ 63) \<le> cl_SignalDBm (ps_client p) \<and>
     cl_SignalDBm (ps_client p) < 2 ^ 63"

text \<open>What the dump tells of a station: no lease data, the MAC in lower case.\<close>

definition dumped :: "(string \<Rightarrow> string) \<Rightarrow> printed_station \<Rightarrow> Client" where
  "dumped uni p = (ps_client p)\<lparr>cl_MAC := to_lower uni (cl_MAC (ps_client p)), cl_IP := [], cl_Hostname := []\<rparr>"

lemma fold_other_kvs:
  "list_all other_kv kvs \<Longrightarrow> fold (\<lambda>(k, v). client_field k v) kvs cl = cl"
  by (induction kvs) (auto simp: other_kv_def client_field_def)

lemma parse_value:
  "parseUint (show_nat (unat u)) = u"
  "parseUint (show_nat (unat u) @ '' seconds'') = u"
  "- (2 ^ 63) \<le> i \<Longrightarrow> i < 2 ^ 63 \<Longrightarrow> parseFirstInt (show_int i @ '' dBm'') = i"
  using fields_word_space [of "show_nat (unat u)" "CHR '' ''" "''seconds''"]
    fields_word_space [of "show_int i" "CHR '' ''" "''dBm''"] plain_word_show_int [of i]
  by (simp_all add: parseUint_def parseFirstInt_def fields_word parse_int64_show)

lemma known_keys_ok:
  "station_key ''rx bytes''" "station_key ''tx bytes''" "station_key ''signal''" "station_key ''connected time''"
  by code_simp+

lemma known_values_ok:
  "trimmed_text (show_nat n)" "trimmed_text (show_nat n @ '' seconds'')" "trimmed_text (show_int i @ '' dBm'')"
proof -
  have e: "trimmed_text ''seconds''" "trimmed_text ''dBm''" by code_simp+
  note t = plain_word_trimmed [OF plain_word_show_nat] plain_word_trimmed [OF plain_word_show_int]
  show "trimmed_text (show_nat n)" by (rule t)
  show "trimmed_text (show_nat n @ '' seconds'')"
    using trimmed_text_append [OF t(1) e(1), of n "'' ''"] by simp
  show "trimmed_text (show_int i @ '' dBm'')"
    using trimmed_text_append [OF t(2) e(2), of i "'' ''"] by simp
qed

lemma fold_show_station:
  assumes "station_ok p"
  shows "fold (station_line uni) (show_station p) st = (Some (dumped uni p), snd (flush st))"
proof -
  have others: "list_all (\<lambda>(k, v). station_key k \<and> trimmed_text v) kvs" if "list_all other_kv kvs" for kvs
    using that by (induction kvs) (auto simp: other_kv_def)
  have kvs: "list_all (\<lambda>(k, v). station_key k \<and> trimmed_text v)
      (ps_before p @ known_kvs (ps_client p) @ ps_after p)"
    using assms others by (simp add: station_ok_def known_kvs_def known_keys_ok known_values_ok)
  have "fold (\<lambda>(k, v). client_field k v) (ps_before p @ known_kvs (ps_client p) @ ps_after p)
      (new_Client (to_lower uni (cl_MAC (ps_client p)))) = dumped uni p"
    using assms
    by (simp add: station_ok_def fold_other_kvs known_kvs_def client_field_def parse_value new_Client_def dumped_def)
  then show ?thesis
    using assms unfolding show_station_def
    by (simp add: station_line_header station_ok_def fold_station_kv [OF kvs] del: map_append fold_append)
qed

lemma fold_show_stations:
  "list_all station_ok ps \<Longrightarrow>
     snd (flush (fold (station_line uni) (concat (map show_station ps)) st)) =
       snd (flush st) @ map (dumped uni) ps"
  by (induction ps arbitrary: st) (auto simp: fold_show_station flush_def)

section \<open>Printing a lease file\<close>

record printed_lease =
  pl_expiry :: string
  pl_mac :: string
  pl_ip :: string
  pl_host :: string
  pl_id :: "string list"

definition lease_words :: "printed_lease \<Rightarrow> string list" where
  "lease_words l = [pl_expiry l, pl_mac l, pl_ip l, pl_host l] @ pl_id l"

definition lease_ok :: "printed_lease \<Rightarrow> bool" where
  "lease_ok l \<longleftrightarrow> list_all plain_word (lease_words l) \<and> \<not> has_prefix (pl_expiry l) ''#''"

text \<open>A line the parser skips: blank, a comment, or with fewer than four fields.\<close>

definition junk_line :: "string \<Rightarrow> bool" where
  "junk_line l \<longleftrightarrow> trim_space l = [] \<or> has_prefix (trim_space l) ''#'' \<or> length (str_fields (trim_space l)) < 4"

fun show_lease_line :: "string + printed_lease \<Rightarrow> string" where
  "show_lease_line (Inl junk) = junk"
| "show_lease_line (Inr l) = join_with '' '' (lease_words l)"

fun lease_line_ok :: "string + printed_lease \<Rightarrow> bool" where
  "lease_line_ok (Inl junk) \<longleftrightarrow> junk_line junk"
| "lease_line_ok (Inr l) \<longleftrightarrow> lease_ok l"

definition lease_entry :: "(string \<Rightarrow> string) \<Rightarrow> printed_lease \<Rightarrow> string \<times> leaseEntry" where
  "lease_entry uni l =
     (to_lower uni (pl_mac l), \<lparr>le_IP = pl_ip l, le_Hostname = (if pl_host l = ''*'' then [] else pl_host l)\<rparr>)"

fun lease_entries :: "(string \<Rightarrow> string) \<Rightarrow> (string + printed_lease) list \<Rightarrow> (string \<times> leaseEntry) list" where
  "lease_entries uni [] = []"
| "lease_entries uni (Inl junk # ls) = lease_entries uni ls"
| "lease_entries uni (Inr l # ls) = lease_entry uni l # lease_entries uni ls"

lemma join_trimmed:
  assumes "list_all plain_word (w # ws)"
  shows "trim_space (join_with '' '' (w # ws)) = join_with '' '' (w # ws)"
    and "\<exists>r. join_with '' '' (w # ws) = w @ r"
proof -
  have "(\<exists>r. join_with '' '' (w # ws) = w @ r) \<and> trimmed_text (join_with '' '' (w # ws))"
    using assms
  proof (induction ws arbitrary: w)
    case Nil
    then show ?case by (simp add: plain_word_trimmed)
  next
    case (Cons v vs)
    then have "trimmed_text (join_with '' '' (v # vs))" "trimmed_text w"
      by (simp_all add: plain_word_trimmed)
    then show ?case using trimmed_text_append [of w "join_with '' '' (v # vs)" "'' ''"] by simp
  qed
  then show "trim_space (join_with '' '' (w # ws)) = join_with '' '' (w # ws)"
    and "\<exists>r. join_with '' '' (w # ws) = w @ r"
    by (auto simp: trimmed_text_trim)
qed

lemma lease_line_show:
  assumes "lease_ok l"
  shows "lease_line uni (join_with '' '' (lease_words l)) out = (case lease_entry uni l of (m, e) \<Rightarrow> out(m \<mapsto> e))"
proof -
  let ?ws = "pl_mac l # pl_ip l # pl_host l # pl_id l"
  let ?j = "join_with '' '' (pl_expiry l # ?ws)"
  have ws: "list_all plain_word (pl_expiry l # ?ws)" "\<not> has_prefix (pl_expiry l) ''#''"
    using assms by (simp_all add: lease_ok_def lease_words_def)
  obtain r where r: "?j = pl_expiry l @ r" using join_trimmed(2) [OF ws(1)] by blast
  have ne: "pl_expiry l \<noteq> []" using ws(1) by (auto simp: plain_word_def)
  then have "?j \<noteq> []" "\<not> has_prefix ?j ''#''"
    using ws(2) unfolding r by (cases "pl_expiry l"; simp add: has_prefix_def)+
  then show ?thesis
    using fields_join [OF ws(1)]
    by (simp add: lease_line_def lease_words_def join_trimmed(1) [OF ws(1)] lease_entry_def Let_def
        del: join_with.simps)
qed

lemma lease_line_junk: "junk_line l \<Longrightarrow> lease_line uni l out = out"
  by (auto simp: lease_line_def junk_line_def Let_def)

lemma fold_lease_lines:
  "list_all lease_line_ok ls \<Longrightarrow>
     fold (lease_line uni) (map show_lease_line ls) out = out ++ map_of (rev (lease_entries uni ls))"
  by (induction uni ls arbitrary: out rule: lease_entries.induct)
    (auto simp: lease_line_show lease_line_junk map_add_upd_left fun_eq_iff map_add_def split: prod.split option.split)

section \<open>Outcomes of a refresh\<close>

definition with_lease :: "(string \<Rightarrow> string) \<Rightarrow> hs_env \<Rightarrow> Client \<Rightarrow> Client" where
  "with_lease uni e cl =
     (case he_leases e of Inl err \<Rightarrow> cl | Inr raw \<Rightarrow> enrich (parseLeases uni raw) cl)"

definition lease_problem :: "hs_env \<Rightarrow> go_error option" where
  "lease_problem e =
     (case he_leases e of
        Inl err \<Rightarrow> if is_not_exist err then None else Some (Wrap ''leases: '' err)
      | Inr raw \<Rightarrow> None)"

lemma cl_MAC_with_lease [simp]: "cl_MAC (with_lease uni e cl) = cl_MAC cl"
  by (simp add: with_lease_def enrich_def split: sum.split option.split)

lemma hs_stations_eq: "hs_stations uni e out = sort_key cl_MAC (map (with_lease uni e) (parseStationDump uni out))"
  by (cases "he_leases e") (simp_all add: hs_stations_def with_lease_def [abs_def])

lemma hs_refresh_success:
  assumes "\<not> time_sub (he_recheck e) (hs_lastAt c) < hs_ttl c" and "\<not> hs_absent e c"
    and "he_iw e (hs_iface c) = Inr out"
  shows "hs_snap (fst (hs_refresh uni e c)) =
      \<lparr>hs_At = he_now e, hs_Iface = hs_iface c, hs_Clients = hs_stations uni e out, hs_Err = lease_problem e\<rparr>"
  using assms by (simp add: hs_refresh_def hs_refresh_ok_def Let_def lease_problem_def)

section \<open>Properties\<close>

text \<open>
  C26: parsing a printed station dump gives one client per station, in order, with the
  printed byte counters, signal and connection time, the MAC in lower case, and no lease
  data, whatever lines with other keys \<open>iw\<close> prints in between.
\<close>

theorem hotspot_dump_roundtrip:
  assumes "list_all station_ok ps"
    and "list_all (clean_line large_token_limit) (concat (map show_station ps))"
  shows "parseStationDump uni (unlines (concat (map show_station ps))) = map (dumped uni) ps"
  unfolding parseStationDump_def scan_lines_unlines [OF assms(2)]
  using fold_show_stations [OF assms(1)] by (simp add: flush_def)

definition sample_station :: printed_station where
  "sample_station = \<lparr>ps_client = \<lparr>cl_MAC = ''AA:bb'', cl_IP = [], cl_Hostname = [], cl_SignalDBm = - 55,
       cl_ConnectedSeconds = 9, cl_RxBytes = 5, cl_TxBytes = 7\<rparr>,
     ps_iface = ''wlan0'', ps_before = [(''inactive time'', ''120 ms'')], ps_after = [(''rx packets'', ''3'')]\<rparr>"

lemma hotspot_dump_roundtrip_witness:
  "parseStationDump id (unlines (concat (map show_station [sample_station]))) = [dumped id sample_station]"
proof -
  have "list_all station_ok [sample_station]" by code_simp
  moreover have "concat (map show_station [sample_station]) =
      [''Station AA:bb (on wlan0)'', tab # ''inactive time:'' @ tab # ''120 ms'', tab # ''rx bytes:'' @ tab # ''5'',
       tab # ''tx bytes:'' @ tab # ''7'', tab # ''signal:'' @ tab # ''-55 dBm'',
       tab # ''connected time:'' @ tab # ''9 seconds'', tab # ''rx packets:'' @ tab # ''3'']"
    by code_simp
  then have "list_all (clean_line large_token_limit) (concat (map show_station [sample_station]))"
    by (simp add: clean_line_def newline_def drop_cr_def large_token_limit_def tab_def)
  ultimately show ?thesis using hotspot_dump_roundtrip by fastforce
qed

text \<open>
  Parsing a lease file that mixes printed leases with blank, comment and short lines
  gives the leases by lower-cased MAC, the last lease of a MAC winning, with the host name
  \<open>*\<close> read as empty.
\<close>

theorem hotspot_leases_roundtrip:
  assumes "list_all lease_line_ok ls"
    and "list_all (clean_line default_token_limit) (map show_lease_line ls)"
  shows "parseLeases uni (unlines (map show_lease_line ls)) = map_of (rev (lease_entries uni ls))"
  unfolding parseLeases_def scan_lines_unlines [OF assms(2)]
  by (simp add: fold_lease_lines [OF assms(1)])

definition sample_leases :: "(string + printed_lease) list" where
  "sample_leases =
     [Inl ''# leases'',
      Inr \<lparr>pl_expiry = ''9'', pl_mac = ''AA:bb'', pl_ip = ''10.0.0.2'', pl_host = ''phone'', pl_id = []\<rparr>,
      Inl ''broken line'',
      Inr \<lparr>pl_expiry = ''10'', pl_mac = ''aa:BB'', pl_ip = ''10.0.0.3'', pl_host = ''*'', pl_id = [''id'']\<rparr>]"

lemma hotspot_leases_roundtrip_witness:
  "parseLeases id (unlines (map show_lease_line sample_leases)) ''aa:bb'' =
     Some \<lparr>le_IP = ''10.0.0.3'', le_Hostname = []\<rparr>"
proof -
  have "list_all lease_line_ok sample_leases" by code_simp
  moreover have "map show_lease_line sample_leases =
      [''# leases'', ''9 AA:bb 10.0.0.2 phone'', ''broken line'', ''10 aa:BB 10.0.0.3 * id'']" by code_simp
  then have "list_all (clean_line default_token_limit) (map show_lease_line sample_leases)"
    by (simp add: clean_line_def newline_def drop_cr_def default_token_limit_def)
  ultimately have "parseLeases id (unlines (map show_lease_line sample_leases)) =
      map_of (rev (lease_entries id sample_leases))"
    by (rule hotspot_leases_roundtrip)
  moreover have "map_of (rev (lease_entries id sample_leases)) ''aa:bb'' =
      Some \<lparr>le_IP = ''10.0.0.3'', le_Hostname = []\<rparr>" by code_simp
  ultimately show ?thesis by simp
qed

text \<open>
  C27: a refresh whose command succeeds publishes exactly the dumped stations, each enriched
  with the lease of its MAC, sorted by MAC; a missing lease file is no error, any other
  failure to read it is, and the stations are published all the same.
\<close>

theorem hotspot_refresh_publishes:
  assumes "\<not> time_sub (he_recheck e) (hs_lastAt c) < hs_ttl c" and "\<not> hs_absent e c"
    and "he_iw e (hs_iface c) = Inr out"
  shows "let s = hs_snap (fst (hs_refresh uni e c)) in
    mset (hs_Clients s) = mset (map (with_lease uni e) (parseStationDump uni out)) \<and>
    sorted (map cl_MAC (hs_Clients s)) \<and> hs_Err s = lease_problem e \<and> hs_At s = he_now e"
  using assms by (simp add: hs_refresh_success hs_stations_eq Let_def)

definition hs_sample_env :: "time \<Rightarrow> hs_env" where
  "hs_sample_env t = \<lparr>he_recheck = t, he_now = t, he_exists = Some (\<lambda>n. n = ''wlan0''),
     he_iw = (\<lambda>_. Inr (unlines (station_header ''bb:01'' ''wlan0'' # [station_header ''AA:02'' ''wlan0'']))),
     he_leases = Inl (External False ''permission denied'')\<rparr>"

definition hs_start :: hs_Collector where
  "hs_start = hs_newWithDeps ''wlan0'' 5 second"

lemma hotspot_refresh_publishes_witness:
  "hs_Err (hs_snap (fst (hs_refresh id (hs_sample_env (7 * second)) hs_start))) =
     Some (Wrap ''leases: '' (External False ''permission denied''))"
proof -
  have "\<not> time_sub (he_recheck (hs_sample_env (7 * second))) (hs_lastAt hs_start) < hs_ttl hs_start"
    "\<not> hs_absent (hs_sample_env (7 * second)) hs_start" by code_simp+
  moreover have "he_iw (hs_sample_env (7 * second)) (hs_iface hs_start) =
      Inr (unlines (station_header ''bb:01'' ''wlan0'' # [station_header ''AA:02'' ''wlan0'']))"
    by (simp add: hs_sample_env_def)
  ultimately have "hs_Err (hs_snap (fst (hs_refresh id (hs_sample_env (7 * second)) hs_start))) =
      lease_problem (hs_sample_env (7 * second))"
    using hotspot_refresh_publishes by (metis (no_types, lifting))
  then show ?thesis by (simp add: lease_problem_def hs_sample_env_def)
qed

text \<open>
  The order of the rows does not depend on the order in which \<open>iw\<close> lists the
  stations, nor on which sorting algorithm is used: two dumps with the same stations, their
  MACs distinct, give the same list.
\<close>

theorem hotspot_order_deterministic:
  assumes "mset (parseStationDump uni out1) = mset (parseStationDump uni out2)"
    and "distinct (map cl_MAC (parseStationDump uni out1))"
    and "mset xs = mset (map (with_lease uni e) (parseStationDump uni out2))"
    and "sorted (map cl_MAC xs)"
  shows "xs = hs_stations uni e out1"
proof (rule sorted_key_unique [where f = cl_MAC, symmetric])
  show "mset (hs_stations uni e out1) = mset xs"
    using assms(1,3) by (simp add: hs_stations_eq)
  show "distinct (map cl_MAC (hs_stations uni e out1))"
  proof -
    have "mset (map cl_MAC (hs_stations uni e out1)) = mset (map cl_MAC (parseStationDump uni out1))"
      by (simp add: hs_stations_eq multiset.map_comp o_def)
    then show ?thesis using assms(2) mset_eq_imp_distinct_iff by blast
  qed
  show "sorted (map cl_MAC (hs_stations uni e out1))" by (simp add: hs_stations_eq)
qed (rule assms(4))

lemma hotspot_order_deterministic_witness:
  "[new_Client ''a'', new_Client ''b''] = hs_stations id (hs_sample_env 0)
     (unlines [station_header ''b'' ''w'', station_header ''a'' ''w''])"
proof (rule hotspot_order_deterministic)
  let ?o1 = "unlines [station_header ''b'' ''w'', station_header ''a'' ''w'']"
  let ?o2 = "unlines [station_header ''a'' ''w'', station_header ''b'' ''w'']"
  have "plain_word ''a''" "plain_word ''b''" "to_lower id ''a'' = ''a''" "to_lower id ''b'' = ''b''"
    by code_simp+
  moreover have "list_all (clean_line large_token_limit) [station_header ''a'' ''w'', station_header ''b'' ''w'']"
    by (simp add: station_header_def clean_line_def newline_def drop_cr_def large_token_limit_def)
  ultimately have p: "parseStationDump id ?o1 = [new_Client ''b'', new_Client ''a'']"
    "parseStationDump id ?o2 = [new_Client ''a'', new_Client ''b'']"
    by (simp_all add: parseStationDump_def scan_lines_unlines station_line_header flush_def)
  then show "mset (parseStationDump id ?o1) = mset (parseStationDump id ?o2)"
    "distinct (map cl_MAC (parseStationDump id ?o1))" by (simp_all add: new_Client_def)
  show "mset [new_Client ''a'', new_Client ''b''] =
      mset (map (with_lease id (hs_sample_env 0)) (parseStationDump id ?o2))"
    by (simp add: p with_lease_def hs_sample_env_def)
  show "sorted (map cl_MAC [new_Client ''a'', new_Client ''b''])"
    by (simp add: new_Client_def)
qed

text \<open>
  A refresh that fails: with the interface absent it runs nothing, clears the clients and
  reports the sentinel error; when the command fails it keeps the previous clients and
  wraps the command's error, without reading the lease file.
\<close>

theorem hotspot_refresh_failures:
  assumes "\<not> time_sub (he_recheck e) (hs_lastAt c) < hs_ttl c"
  shows "let (c', effs) = hs_refresh uni e c; s = hs_snap c' in
    (hs_absent e c \<longrightarrow> HsRunIw (hs_iface c) \<notin> set effs \<and> HsReadLeases \<notin> set effs \<and>
       hs_Clients s = [] \<and> hs_Err s = Some hs_ErrInterfaceAbsent) \<and>
    (\<not> hs_absent e c \<and> he_iw e (hs_iface c) = Inl err \<longrightarrow> HsReadLeases \<notin> set effs \<and>
       hs_Clients s = hs_Clients (hs_snap c) \<and> hs_Err s = Some (Wrap ''iw: '' err) \<and>
       errors_is (Wrap ''iw: '' err) err)"
  using assms by (auto simp: hs_refresh_def Let_def)

lemma hotspot_refresh_failures_witness:
  "hs_Err (hs_snap (fst (hs_refresh id (hs_sample_env second) (hs_newWithDeps ''wlan9'' 0 second)))) =
     Some hs_ErrInterfaceAbsent"
proof -
  let ?c = "hs_newWithDeps ''wlan9'' 0 second"
  have "\<not> time_sub (he_recheck (hs_sample_env second)) (hs_lastAt ?c) < hs_ttl ?c"
    "hs_absent (hs_sample_env second) ?c" by code_simp+
  then show ?thesis
    using hotspot_refresh_failures [of "hs_sample_env second" ?c id]
    by (cases "hs_refresh id (hs_sample_env second) ?c") (simp add: Let_def)
qed

text \<open>
  C14: however concurrent calls of \<open>Snapshot\<close> interleave, the refreshes, and so the
  executions of \<open>iw\<close>, are at least one second apart, and every finished call returns a
  snapshot whose instant is less than a second before the call's check.
\<close>

theorem hotspot_interleaved_snapshots:
  assumes "(snap_step hs_lastAt hs_ttl hs_snap (hs_refresh uni) he_recheck he_now)\<^sup>*\<^sup>*
      (start_world (hs_New cfg t0) t0) w" and "0 \<le> t0"
  shows "spaced second (refreshed w) \<and> (phase_of w i = Done t s \<longrightarrow> t - hs_At s < second)"
proof -
  have new: "hs_ttl (hs_New cfg t0) = second" "hs_lastAt (hs_New cfg t0) \<le> hs_At (hs_snap (hs_New cfg t0))"
    "hs_At (hs_snap (hs_New cfg t0)) \<le> t0" "is_duration second" "0 < second"
    using assms(2) by (simp_all add: hs_New_def hs_newWithDeps_def is_duration_def duration_defs)
  show ?thesis
    using hs.refreshes_spaced [OF assms(1) new(2,3)] hs.result_fresh [OF assms(1) new(2,3)] new by auto
qed

lemma hotspot_interleaved_snapshots_witness:
  "\<exists>w s. (snap_step hs_lastAt hs_ttl hs_snap (hs_refresh id) he_recheck he_now)\<^sup>*\<^sup>*
      (start_world (hs_New (Load id Map.empty) 5) 5) w \<and>
    phase_of w 0 = Done second s \<and> spaced second (refreshed w) \<and> second - hs_At s < second"
proof -
  let ?c = "hs_New (Load id Map.empty) 5"
  have "hs_ttl ?c \<le> time_sub second (hs_lastAt ?c)"
    "\<not> time_sub (he_recheck (hs_sample_env second)) (hs_lastAt ?c) < hs_ttl ?c"
    by (simp_all add: hs_New_def hs_newWithDeps_def hs_sample_env_def time_sub_def duration_defs)
  then obtain w where w: "(snap_step hs_lastAt hs_ttl hs_snap (hs_refresh id) he_recheck he_now)\<^sup>*\<^sup>*
      (start_world ?c 5) w" "phase_of w 0 = Done second (hs_snap (fst (hs_refresh id (hs_sample_env second) ?c)))"
    using hs.solo_run [of ?c second "hs_sample_env second" 5 id]
    by (auto simp: hs_sample_env_def second_def)
  with hotspot_interleaved_snapshots [OF w(1), of 0 second] show ?thesis by auto
qed

end
