(* ===== verification/Ip_Json.thy ===== *)
theory Ip_Json
  imports Go_Json
begin

text \<open>
  The documents that \<open>ip -j addr show\<close> and \<open>ip -j route show default\<close> print, decoded
  into the anonymous structs that \<open>internal/wan/ssid.go\<close> and \<open>internal/admin/eth.go\<close>
  declare alike, and their printed form for the round trips.
\<close>

section \<open>Decoding\<close>

record addr_info =
  ai_family :: string
  ai_local :: string

definition zero_addr_info :: addr_info where
  "zero_addr_info = \<lparr>ai_family = [], ai_local = []\<rparr>"

definition addr_info_field :: "string \<Rightarrow> json \<Rightarrow> addr_info \<Rightarrow> addr_info option" where
  "addr_info_field k v a =
     (if k = ''family'' then map_option (\<lambda>s. a\<lparr>ai_family := s\<rparr>) (decode_string v (ai_family a))
      else if k = ''local'' then map_option (\<lambda>s. a\<lparr>ai_local := s\<rparr>) (decode_string v (ai_local a))
      else Some a)"

text \<open>One interface of the document: its only field is the slice \<open>addr_info\<close>.\<close>

definition addr_entry_field :: "string \<Rightarrow> json \<Rightarrow> addr_info list \<Rightarrow> addr_info list option" where
  "addr_entry_field k v as =
     (if k = ''addr_info'' then decode_list (decode_struct addr_info_field) zero_addr_info v as else Some as)"

definition unmarshal_addr :: "string \<Rightarrow> addr_info list list option" where
  "unmarshal_addr raw =
     (case json_whole raw of
        None \<Rightarrow> None
      | Some v \<Rightarrow> decode_list (decode_struct addr_entry_field) [] v [])"

record route =
  rt_dst :: string
  rt_gateway :: string
  rt_dev :: string

definition zero_route :: route where
  "zero_route = \<lparr>rt_dst = [], rt_gateway = [], rt_dev = []\<rparr>"

definition route_field :: "string \<Rightarrow> json \<Rightarrow> route \<Rightarrow> route option" where
  "route_field k v r =
     (if k = ''dst'' then map_option (\<lambda>s. r\<lparr>rt_dst := s\<rparr>) (decode_string v (rt_dst r))
      else if k = ''gateway'' then map_option (\<lambda>s. r\<lparr>rt_gateway := s\<rparr>) (decode_string v (rt_gateway r))
      else if k = ''dev'' then map_option (\<lambda>s. r\<lparr>rt_dev := s\<rparr>) (decode_string v (rt_dev r))
      else Some r)"

definition unmarshal_route :: "string \<Rightarrow> route list option" where
  "unmarshal_route raw =
     (case json_whole raw of
        None \<Rightarrow> None
      | Some v \<Rightarrow> decode_list (decode_struct route_field) zero_route v [])"

section \<open>Printed documents\<close>

text \<open>
  An object as \<open>ip\<close> prints it: members the program does not know around those it does.
\<close>

type_synonym members = "(string \<times> json) list"

definition unknown_members :: "string list \<Rightarrow> members \<Rightarrow> bool" where
  "unknown_members known ms \<longleftrightarrow> list_all (\<lambda>m. fold_name (to_utf8 (fst m)) \<notin> set known \<and> json_ok 5 (snd m)) ms"

record printed_addr =
  pa_family :: string
  pa_local :: string
  pa_more :: members

record printed_entry =
  pe_before :: members
  pe_addrs :: "printed_addr list"
  pe_after :: members

definition show_addr :: "printed_addr \<Rightarrow> json" where
  "show_addr a = JObj ((''family'', JStr (pa_family a)) # (''local'', JStr (pa_local a)) # pa_more a)"

definition show_entry :: "printed_entry \<Rightarrow> json" where
  "show_entry e = JObj (pe_before e @ (''addr_info'', JArr (map show_addr (pe_addrs e))) # pe_after e)"

definition addr_ok :: "printed_addr \<Rightarrow> bool" where
  "addr_ok a \<longleftrightarrow> ascii_text (pa_family a) \<and> ascii_text (pa_local a) \<and>
     unknown_members [''family'', ''local''] (pa_more a)"

definition entry_ok :: "printed_entry \<Rightarrow> bool" where
  "entry_ok e \<longleftrightarrow> unknown_members [''addr_info''] (pe_before e) \<and>
     unknown_members [''addr_info''] (pe_after e) \<and> list_all addr_ok (pe_addrs e)"

definition the_addr :: "printed_addr \<Rightarrow> addr_info" where
  "the_addr a = \<lparr>ai_family = pa_family a, ai_local = pa_local a\<rparr>"

record printed_route =
  pr_route :: route
  pr_more :: members

definition show_route :: "printed_route \<Rightarrow> json" where
  "show_route r = JObj ((''dst'', JStr (rt_dst (pr_route r))) # (''gateway'', JStr (rt_gateway (pr_route r))) #
     (''dev'', JStr (rt_dev (pr_route r))) # pr_more r)"

definition route_ok :: "printed_route \<Rightarrow> bool" where
  "route_ok r \<longleftrightarrow> ascii_text (rt_dst (pr_route r)) \<and> ascii_text (rt_gateway (pr_route r)) \<and>
     ascii_text (rt_dev (pr_route r)) \<and> unknown_members [''dst'', ''gateway'', ''dev''] (pr_more r)"

section \<open>Round trips\<close>

lemma known_names [simp]:
  "fold_name (to_utf8 ''family'') = ''family''" "fold_name (to_utf8 ''local'') = ''local''"
  "fold_name (to_utf8 ''addr_info'') = ''addr_info''" "fold_name (to_utf8 ''dst'') = ''dst''"
  "fold_name (to_utf8 ''gateway'') = ''gateway''" "fold_name (to_utf8 ''dev'') = ''dev''"
  by code_simp+

lemma decode_members_append:
  "decode_members f (xs @ ys) r = (case decode_members f xs r of None \<Rightarrow> None | Some r' \<Rightarrow> decode_members f ys r')"
  by (induction f xs r rule: decode_members.induct) (auto split: option.split)

lemma decode_unknown:
  assumes "\<And>k v r. k \<notin> set known \<Longrightarrow> f k v r = Some r" and "unknown_members known ms"
  shows "decode_members f (map (\<lambda>m. (to_utf8 (fst m), json_utf8 (snd m))) ms) r = Some r"
  using assms(2) by (induction ms) (auto simp: unknown_members_def assms(1))

lemma decode_items_map:
  "(\<And>v. v \<in> set vs \<Longrightarrow> dec (h v) zero = Some (g v)) \<Longrightarrow> decode_items dec zero (map h vs) [] = Some (map g vs)"
  by (induction vs) auto

lemma unknown_members_ok:
  "unknown_members known ms \<Longrightarrow> m \<in> set ms \<Longrightarrow> json_ok 5 (snd m)"
  by (auto simp: unknown_members_def list_all_iff)

text \<open>Nesting within the limit is closed under moving to a shallower depth.\<close>

lemma json_ok_mono: "json_ok d v \<Longrightarrow> d' \<le> d \<Longrightarrow> json_ok d' v"
proof (induction d v arbitrary: d' rule: json_ok.induct)
  case (2 d vs)
  then show ?case by (auto intro!: "2.IH")
next
  case (3 d ms)
  then show ?case by (auto intro!: "3.IH")
qed auto

lemma decode_show_addr:
  assumes "addr_ok a"
  shows "decode_struct addr_info_field (json_utf8 (show_addr a)) zero_addr_info = Some (the_addr a)"
  using assms decode_unknown [of "[''family'', ''local'']" addr_info_field "pa_more a"]
  by (simp add: show_addr_def addr_ok_def addr_info_field_def to_utf8_ascii zero_addr_info_def the_addr_def)

lemma decode_show_entry:
  assumes "entry_ok e"
  shows "decode_struct addr_entry_field (json_utf8 (show_entry e)) [] = Some (map the_addr (pe_addrs e))"
proof -
  have unk: "decode_members addr_entry_field (map (\<lambda>m. (to_utf8 (fst m), json_utf8 (snd m))) ms) r = Some r"
    if "unknown_members [''addr_info''] ms" for ms r
    using that by (intro decode_unknown [of "[''addr_info'']"]) (simp_all add: addr_entry_field_def)
  have "decode_items (decode_struct addr_info_field) zero_addr_info
      (map (\<lambda>a. json_utf8 (show_addr a)) (pe_addrs e)) [] = Some (map the_addr (pe_addrs e))"
    using assms by (intro decode_items_map decode_show_addr) (auto simp: entry_ok_def list_all_iff)
  moreover have "addr_entry_field ''addr_info'' (JArr vs) r =
      decode_items (decode_struct addr_info_field) zero_addr_info vs r" for vs r
    by (simp add: addr_entry_field_def)
  ultimately show ?thesis
    using assms unk by (simp add: show_entry_def entry_ok_def decode_members_append o_def)
qed

lemma show_addr_ok: "addr_ok a \<Longrightarrow> json_ok 3 (show_addr a)"
  by (auto simp: addr_ok_def show_addr_def max_depth_def dest!: unknown_members_ok intro: json_ok_mono)

lemma show_entry_ok: "entry_ok e \<Longrightarrow> json_ok 1 (show_entry e)"
  by (auto simp: entry_ok_def show_entry_def max_depth_def list_all_iff show_addr_ok
      dest!: unknown_members_ok intro: json_ok_mono)

lemma unmarshal_addr_show:
  assumes "list_all entry_ok es"
  shows "unmarshal_addr (json_encode (JArr (map show_entry es))) = Some (map (map the_addr \<circ> pe_addrs) es)"
proof -
  have "json_whole (json_encode (JArr (map show_entry es))) = Some (json_utf8 (JArr (map show_entry es)))"
    using assms show_entry_ok by (intro json_first_encode) (auto simp: max_depth_def list_all_iff)
  moreover have "decode_items (decode_struct addr_entry_field) [] (map (\<lambda>e. json_utf8 (show_entry e)) es) [] =
      Some (map (\<lambda>e. map the_addr (pe_addrs e)) es)"
    using assms by (intro decode_items_map decode_show_entry) (auto simp: list_all_iff)
  ultimately show ?thesis by (simp add: unmarshal_addr_def o_def)
qed

lemma unmarshal_route_show:
  assumes "list_all route_ok rs"
  shows "unmarshal_route (json_encode (JArr (map show_route rs))) = Some (map pr_route rs)"
proof -
  have ok: "json_ok 1 (show_route r)" if "route_ok r" for r
    using that by (auto simp: route_ok_def show_route_def max_depth_def dest!: unknown_members_ok intro: json_ok_mono)
  have dec: "decode_struct route_field (json_utf8 (show_route r)) zero_route = Some (pr_route r)" if "route_ok r" for r
    using that decode_unknown [of "[''dst'', ''gateway'', ''dev'']" route_field "pr_more r"]
    by (simp add: show_route_def route_ok_def route_field_def to_utf8_ascii zero_route_def)
  have "json_whole (json_encode (JArr (map show_route rs))) = Some (json_utf8 (JArr (map show_route rs)))"
    using assms ok by (intro json_first_encode) (auto simp: max_depth_def list_all_iff)
  moreover have "decode_items (decode_struct route_field) zero_route (map (\<lambda>r. json_utf8 (show_route r)) rs) [] =
      Some (map pr_route rs)"
    using assms by (intro decode_items_map dec) (auto simp: list_all_iff)
  ultimately show ?thesis by (simp add: unmarshal_route_def o_def)
qed

end
