(* ===== verification/Wan.thy ===== *)
theory Wan
  imports Go_Parse_Float Go_Path Configuration Lazy_Cache Key_Value Ip_Json
begin

text \<open>
  \<open>internal/wan\<close>: the parsers of \<open>iw link\<close>, \<open>ip addr\<close> and \<open>ip route\<close>
  (\<open>ssid.go\<close>) and the lazily refreshed collector of the upstream link
  (\<open>collector.go\<close>). Facts: the parsers undo printing; a disconnected snapshot is blank
  in every reachable state; every outcome of a refresh; refreshes are spaced by the TTL.
\<close>

section \<open>The link\<close>

record linkResult =
  lr_connected :: bool
  lr_ssid :: string
  lr_bssid :: string
  lr_signalDBm :: int
  lr_freqMHz :: int
  lr_txBitrateMbps :: float64

definition zero_link :: linkResult where
  "zero_link = \<lparr>lr_connected = False, lr_ssid = [], lr_bssid = [], lr_signalDBm = 0, lr_freqMHz = 0,
     lr_txBitrateMbps = Fin 0\<rparr>"

definition wan_splitKeyValue :: "string \<Rightarrow> (string \<times> string) option" where
  "wan_splitKeyValue line =
     (case index_byte line CHR '':'' of
        None \<Rightarrow> None
      | Some idx \<Rightarrow> Some (trim_space (take idx line), trim_space (drop (Suc idx) line)))"

definition wan_parseFirstInt :: "string \<Rightarrow> int" where
  "wan_parseFirstInt s =
     (case str_fields s of
        [] \<Rightarrow> 0
      | f # fs \<Rightarrow> (case parse_int64 f of Inl e \<Rightarrow> 0 | Inr n \<Rightarrow> n))"

definition parseFirstFloat :: "string \<Rightarrow> float64" where
  "parseFirstFloat s =
     (case str_fields s of
        [] \<Rightarrow> Fin 0
      | f # fs \<Rightarrow> (case parse_float64 f of Inl e \<Rightarrow> Fin 0 | Inr x \<Rightarrow> x))"

definition link_field :: "(float64 \<Rightarrow> int) \<Rightarrow> string \<Rightarrow> string \<Rightarrow> linkResult \<Rightarrow> linkResult" where
  "link_field oor key v out =
     (if key = ''SSID'' then out\<lparr>lr_ssid := v\<rparr>
      else if key = ''freq'' then out\<lparr>lr_freqMHz := f64_to_int oor (parseFirstFloat v)\<rparr>
      else if key = ''signal'' then out\<lparr>lr_signalDBm := wan_parseFirstInt v\<rparr>
      else if key = ''tx bitrate'' then out\<lparr>lr_txBitrateMbps := parseFirstFloat v\<rparr>
      else out)"

fun link_loop :: "(string \<Rightarrow> string) \<Rightarrow> (float64 \<Rightarrow> int) \<Rightarrow> linkResult \<Rightarrow> string list \<Rightarrow> linkResult" where
  "link_loop uni oor out [] = out"
| "link_loop uni oor out (l # ls) =
     (let line = trim_space l in
      if line = [] then link_loop uni oor out ls
      else if has_prefix line ''Not connected'' then zero_link
      else if has_prefix line ''Connected to '' then
        (let fs = str_fields line; out' = out\<lparr>lr_connected := True\<rparr> in
         link_loop uni oor (if 3 \<le> length fs then out'\<lparr>lr_bssid := to_lower uni (fs ! 2)\<rparr> else out') ls)
      else case wan_splitKeyValue line of
          None \<Rightarrow> link_loop uni oor out ls
        | Some (key, v) \<Rightarrow> link_loop uni oor (link_field oor key v out) ls)"

definition parseIwLink :: "(string \<Rightarrow> string) \<Rightarrow> (float64 \<Rightarrow> int) \<Rightarrow> string \<Rightarrow> linkResult" where
  "parseIwLink uni oor raw = link_loop uni oor zero_link (scan_lines large_token_limit raw)"

section \<open>Addresses and routes\<close>

definition parseIPAddr :: "string \<Rightarrow> string" where
  "parseIPAddr raw =
     (case unmarshal_addr raw of
        None \<Rightarrow> []
      | Some doc \<Rightarrow>
          (case find (\<lambda>a. ai_family a = ''inet'' \<and> ai_local a \<noteq> []) (concat doc) of
             None \<Rightarrow> [] | Some a \<Rightarrow> ai_local a))"

definition parseIPRoute :: "string \<Rightarrow> string \<Rightarrow> string" where
  "parseIPRoute raw iface =
     (case unmarshal_route raw of
        None \<Rightarrow> []
      | Some doc \<Rightarrow>
          (case find (\<lambda>r. rt_dev r = iface \<and> rt_gateway r \<noteq> []) doc of
             None \<Rightarrow> [] | Some r \<Rightarrow> rt_gateway r))"

section \<open>The collector\<close>

definition wn_ErrInterfaceAbsent :: go_error where
  "wn_ErrInterfaceAbsent = NewError ''interface absent''"

record wn_Info =
  wi_Interface :: string
  wi_InterfacePresent :: bool
  wi_SupplicantActive :: bool
  wi_Connected :: bool
  wi_SSID :: string
  wi_BSSID :: string
  wi_SignalDBm :: int
  wi_FreqMHz :: int
  wi_TxBitrateMbps :: float64
  wi_IP :: string
  wi_Gateway :: string

definition blank_Info :: "string \<Rightarrow> wn_Info" where
  "blank_Info iface = \<lparr>wi_Interface = iface, wi_InterfacePresent = False, wi_SupplicantActive = False,
     wi_Connected = False, wi_SSID = [], wi_BSSID = [], wi_SignalDBm = 0, wi_FreqMHz = 0,
     wi_TxBitrateMbps = Fin 0, wi_IP = [], wi_Gateway = []\<rparr>"

record wn_Snapshot =
  wn_At :: time
  wn_Info :: wn_Info
  wn_Err :: "go_error option"

record wn_Collector =
  wn_iface :: string
  wn_ttl :: duration
  wn_lastAt :: time
  wn_snap :: wn_Snapshot
  wn_prevConnected :: bool
  wn_prevSSID :: string
  wn_prevAbsent :: bool

text \<open>What one refresh meets; the injected \<open>exists\<close> and \<open>supplicant\<close> may be nil.\<close>

record wn_env =
  we_recheck :: time
  we_now :: time
  we_exists :: "(string \<Rightarrow> bool) option"
  we_run :: "string list \<Rightarrow> go_error + string"
  we_supplicant :: "(string \<Rightarrow> bool) option"

datatype wn_effect =
    WnRun "string list"
  | WnLogAbsent string
  | WnLogPresent string
  | WnLogIwFailed string go_error
  | WnLogDisconnected string string
  | WnLogConnected string string int int

definition wn_newWithDeps :: "string \<Rightarrow> time \<Rightarrow> duration \<Rightarrow> wn_Collector" where
  "wn_newWithDeps iface t ttl =
     \<lparr>wn_iface = iface, wn_ttl = ttl, wn_lastAt = 0,
      wn_snap = \<lparr>wn_At = t, wn_Info = blank_Info iface, wn_Err = None\<rparr>,
      wn_prevConnected = False, wn_prevSSID = [], wn_prevAbsent = False\<rparr>"

definition wn_New :: "config \<Rightarrow> time \<Rightarrow> wn_Collector" where
  "wn_New cfg t = wn_newWithDeps (WANIf cfg) t second"

text \<open>
  The closure \<open>supplicant\<close> of \<open>New\<close>: does a process's command line contain both
  \<open>wpa_supplicant\<close> and the interface name?
\<close>

fun cmdline_loop :: "files \<Rightarrow> string \<Rightarrow> string list \<Rightarrow> bool" where
  "cmdline_loop fs iface [] = False"
| "cmdline_loop fs iface (m # ms) =
     (case fs m of
        Inl e \<Rightarrow> cmdline_loop fs iface ms
      | Inr data \<Rightarrow>
          if contains data ''wpa_supplicant'' \<and> contains data iface then True else cmdline_loop fs iface ms)"

definition supplicant_scan ::
  "config \<Rightarrow> files \<Rightarrow> (string \<Rightarrow> go_error + string list) \<Rightarrow> string \<Rightarrow> bool" where
  "supplicant_scan cfg fs glob iface =
     (case glob (path_join [ProcPath cfg, ''*/cmdline'']) of
        Inl e \<Rightarrow> False
      | Inr matches \<Rightarrow> cmdline_loop fs iface matches)"

definition wn_production_env ::
  "config \<Rightarrow> (string \<Rightarrow> bool) \<Rightarrow> files \<Rightarrow> (string \<Rightarrow> go_error + string list) \<Rightarrow>
   (string list \<Rightarrow> go_error + string) \<Rightarrow> time \<Rightarrow> time \<Rightarrow> wn_env" where
  "wn_production_env cfg stat fs glob exec t1 t2 =
     \<lparr>we_recheck = t1, we_now = t2,
      we_exists = Some (\<lambda>name. stat (path_join [SysPath cfg, ''class'', ''net'', name])),
      we_run = exec, we_supplicant = Some (supplicant_scan cfg fs glob)\<rparr>"

definition storeSuccess :: "time \<Rightarrow> wn_Info \<Rightarrow> wn_Collector \<Rightarrow> wn_Collector" where
  "storeSuccess t info c =
     c\<lparr>wn_snap := \<lparr>wn_At = t, wn_Info = info, wn_Err = None\<rparr>, wn_lastAt := t\<rparr>"

text \<open>\<open>prev\<close> is the snapshot loaded at the start of the refresh; \<open>newWithDeps\<close> stored one.\<close>

definition storeFailure :: "time \<Rightarrow> wn_Snapshot \<Rightarrow> go_error \<Rightarrow> wn_Collector \<Rightarrow> wn_Collector" where
  "storeFailure t prev err c =
     c\<lparr>wn_snap := \<lparr>wn_At = t, wn_Info = wn_Info prev, wn_Err = Some err\<rparr>, wn_lastAt := t\<rparr>"

definition iw_link_cmd :: "string \<Rightarrow> string list" where
  "iw_link_cmd iface = [''iw'', ''dev'', iface, ''link'']"

definition ip_addr_cmd :: "string \<Rightarrow> string list" where
  "ip_addr_cmd iface = [''ip'', ''-j'', ''addr'', ''show'', iface]"

definition ip_route_cmd :: "string list" where
  "ip_route_cmd = [''ip'', ''-j'', ''route'', ''show'', ''default'']"

text \<open>The refresh of a connected link: the change log, then the two \<open>ip\<close> commands.\<close>

definition connected_Info :: "bool \<Rightarrow> linkResult \<Rightarrow> string \<Rightarrow> wn_Info" where
  "connected_Info active link iface =
     (blank_Info iface)\<lparr>wi_InterfacePresent := True, wi_SupplicantActive := active,
       wi_Connected := lr_connected link, wi_SSID := lr_ssid link, wi_BSSID := lr_bssid link,
       wi_SignalDBm := lr_signalDBm link, wi_FreqMHz := lr_freqMHz link,
       wi_TxBitrateMbps := lr_txBitrateMbps link\<rparr>"

definition wn_refresh_ip ::
  "wn_env \<Rightarrow> wn_Snapshot \<Rightarrow> wn_Info \<Rightarrow> wn_Collector \<Rightarrow> wn_Collector \<times> wn_effect list" where
  "wn_refresh_ip e prev info c =
     (case we_run e (ip_addr_cmd (wn_iface c)) of
        Inl addrErr \<Rightarrow>
          (storeFailure (we_now e) prev (Wrap ''ip addr: '' addrErr) c, [WnRun (ip_addr_cmd (wn_iface c))])
      | Inr addrOut \<Rightarrow>
          (let info = info\<lparr>wi_IP := parseIPAddr addrOut\<rparr>;
               effs = [WnRun (ip_addr_cmd (wn_iface c)), WnRun ip_route_cmd] in
           case we_run e ip_route_cmd of
             Inl routeErr \<Rightarrow> (storeFailure (we_now e) prev (Wrap ''ip route: '' routeErr) c, effs)
           | Inr routeOut \<Rightarrow>
               (storeSuccess (we_now e) (info\<lparr>wi_Gateway := parseIPRoute routeOut (wn_iface c)\<rparr>) c, effs)))"

definition supplicant_active :: "wn_env \<Rightarrow> string \<Rightarrow> bool" where
  "supplicant_active e iface = (case we_supplicant e of None \<Rightarrow> False | Some f \<Rightarrow> f iface)"

definition wn_refresh_link ::
  "wn_env \<Rightarrow> wn_Snapshot \<Rightarrow> linkResult \<Rightarrow> wn_Collector \<Rightarrow> wn_Collector \<times> wn_effect list" where
  "wn_refresh_link e prev link c =
     (let active = supplicant_active e (wn_iface c) in
      if \<not> lr_connected link then
        (let info = (blank_Info (wn_iface c))\<lparr>wi_InterfacePresent := True, wi_SupplicantActive := active\<rparr> in
         if wn_prevConnected c
         then (storeSuccess (we_now e) info (c\<lparr>wn_prevConnected := False, wn_prevSSID := []\<rparr>),
               [WnLogDisconnected (wn_iface c) (wn_prevSSID c)])
         else (storeSuccess (we_now e) info c, []))
      else
        (let changed = (\<not> wn_prevConnected c \<or> lr_ssid link \<noteq> wn_prevSSID c);
             c' = (if changed then c\<lparr>wn_prevConnected := True, wn_prevSSID := lr_ssid link\<rparr> else c);
             log1 = (if changed
               then [WnLogConnected (wn_iface c) (lr_ssid link) (lr_signalDBm link) (lr_freqMHz link)] else []);
             (c'', effs) = wn_refresh_ip e prev (connected_Info active link (wn_iface c)) c' in
         (c'', log1 @ effs)))"

definition wn_absent :: "wn_env \<Rightarrow> string \<Rightarrow> bool" where
  "wn_absent e iface \<longleftrightarrow> (case we_exists e of None \<Rightarrow> False | Some f \<Rightarrow> \<not> f iface)"

definition wn_refresh ::
  "(string \<Rightarrow> string) \<Rightarrow> (float64 \<Rightarrow> int) \<Rightarrow> wn_env \<Rightarrow> wn_Collector \<Rightarrow> wn_Collector \<times> wn_effect list" where
  "wn_refresh uni oor e c =
     (if time_sub (we_recheck e) (wn_lastAt c) < wn_ttl c then (c, [])
      else if wn_absent e (wn_iface c) then
        (c\<lparr>wn_prevAbsent := True,
           wn_snap := \<lparr>wn_At = we_now e, wn_Info = blank_Info (wn_iface c), wn_Err = Some wn_ErrInterfaceAbsent\<rparr>,
           wn_lastAt := we_now e\<rparr>,
         if wn_prevAbsent c then [] else [WnLogAbsent (wn_iface c)])
      else
        (let prev = wn_snap c;
             log1 = (if wn_prevAbsent c then [WnLogPresent (wn_iface c)] else []);
             c = c\<lparr>wn_prevAbsent := False\<rparr>;
             cmd = iw_link_cmd (wn_iface c) in
         case we_run e cmd of
           Inl iwErr \<Rightarrow>
             (storeFailure (we_now e) prev (Wrap ''iw: '' iwErr) c,
              log1 @ [WnRun cmd, WnLogIwFailed (wn_iface c) iwErr])
         | Inr iwOut \<Rightarrow>
             (let (c', effs) = wn_refresh_link e prev (parseIwLink uni oor iwOut) c in
              (c', log1 @ WnRun cmd # effs))))"

definition wn_Snapshot_of ::
  "(string \<Rightarrow> string) \<Rightarrow> (float64 \<Rightarrow> int) \<Rightarrow> time \<Rightarrow> wn_env \<Rightarrow> wn_Collector \<Rightarrow>
   (wn_Collector \<times> wn_effect list) \<times> wn_Snapshot" where
  "wn_Snapshot_of uni oor t e c =
     (if wn_ttl c \<le> time_sub t (wn_lastAt c)
      then (let r = wn_refresh uni oor e c in (r, wn_snap (fst r)))
      else ((c, []), wn_snap c))"

section \<open>The cache contract\<close>

lemmas wn_refresh_defs = wn_refresh_def wn_refresh_link_def wn_refresh_ip_def storeSuccess_def
  storeFailure_def Let_def

lemma wn_refresh_fresh [time_facts]:
  "time_sub (we_recheck e) (wn_lastAt c) < wn_ttl c \<Longrightarrow> wn_refresh uni oor e c = (c, [])"
  by (simp add: wn_refresh_def)

lemma wn_refresh_stale:
  assumes "\<not> time_sub (we_recheck e) (wn_lastAt c) < wn_ttl c"
  shows "wn_lastAt (fst (wn_refresh uni oor e c)) = we_now e"
    and "wn_At (wn_snap (fst (wn_refresh uni oor e c))) = we_now e"
  using assms by (auto simp: wn_refresh_defs split: sum.split)

lemma wn_refresh_kept [simp]:
  "wn_ttl (fst (wn_refresh uni oor e c)) = wn_ttl c"
  "wn_iface (fst (wn_refresh uni oor e c)) = wn_iface c"
  by (auto simp: wn_refresh_defs split: sum.split)

interpretation wn: lazy_snapshot wn_lastAt wn_ttl wn_snap wn_At "wn_refresh uni oor" we_recheck we_now
  "wn_Snapshot_of uni oor" for uni oor
  by unfold_locales (simp_all add: wn_refresh_fresh wn_refresh_stale wn_Snapshot_of_def Let_def)

section \<open>Printing a link\<close>

abbreviation link_kv :: "string \<times> string \<Rightarrow> string" where
  "link_kv \<equiv> kv_text CHR '' ''"

abbreviation link_key :: "string \<Rightarrow> bool" where
  "link_key \<equiv> key_ok [''Not connected'', ''Connected to '']"

lemma link_line_kv:
  assumes "link_key k" and "trimmed_text v"
  shows "link_loop uni oor out (link_kv (k, v) # ls) = link_loop uni oor (link_field oor k v out) ls"
proof -
  let ?l = "k @ CHR '':'' # CHR '' '' # v"
  note f = kv_text_facts [OF assms, of "CHR '' ''", OF ascii_space_blank(1)]
  have "wan_splitKeyValue ?l = Some (k, v)"
    unfolding wan_splitKeyValue_def f(2) using f(3,4) by simp
  moreover have "\<not> has_prefix ?l ''Not connected''" "\<not> has_prefix ?l ''Connected to ''"
    by (rule f(5); simp)+
  ultimately show ?thesis
    unfolding link_loop.simps f(1) Let_def by simp
qed

lemma link_loop_kvs:
  "list_all (\<lambda>(k, v). link_key k \<and> trimmed_text v) kvs \<Longrightarrow>
     link_loop uni oor out (map link_kv kvs) = fold (\<lambda>(k, v). link_field oor k v) kvs out"
  by (induction kvs arbitrary: out) (auto simp: link_line_kv simp del: link_loop.simps(2))

definition link_header :: "string \<Rightarrow> string \<Rightarrow> string" where
  "link_header bssid iface = ''Connected to '' @ bssid @ '' (on '' @ iface @ '')''"

lemma link_line_header:
  assumes "plain_word bssid"
  shows "link_loop uni oor out (link_header bssid iface # ls) =
    link_loop uni oor (out\<lparr>lr_connected := True, lr_bssid := to_lower uni bssid\<rparr>) ls"
proof -
  have t: "trim_space (link_header bssid iface) = link_header bssid iface"
    using trim_space_words(1) [of "''Connected''" "'')''" "'' to '' @ bssid @ '' (on '' @ iface"]
    by (simp add: link_header_def)
  have f: "str_fields (link_header bssid iface) =
      ''Connected'' # ''to'' # bssid # str_fields (''(on '' @ iface @ '')'')"
    using fields_word_space [of "''Connected''" "CHR '' ''" "''to '' @ bssid @ '' (on '' @ iface @ '')''"]
      fields_word_space [of "''to''" "CHR '' ''" "bssid @ '' (on '' @ iface @ '')''"]
      fields_word_space [OF assms, of "CHR '' ''" "''(on '' @ iface @ '')''"]
    by (simp add: link_header_def)
  have "has_prefix (link_header bssid iface) ''Connected to ''"
    by (simp only: link_header_def has_prefix_append)
  moreover have "link_header bssid iface \<noteq> []" "\<not> has_prefix (link_header bssid iface) ''Not connected''"
    by (simp_all add: link_header_def has_prefix_def)
  ultimately show ?thesis
    unfolding link_loop.simps t Let_def f by simp
qed

text \<open>
  A link as \<open>iw\<close> prints it, with any lines with other keys. The frequency and the bit
  rate are decimal texts with the values they denote.
\<close>

record printed_link =
  pk_bssid :: string
  pk_iface :: string
  pk_ssid :: string
  pk_freq_text :: string
  pk_freq :: rat
  pk_signal :: int
  pk_rate_text :: string
  pk_rate :: float64
  pk_before :: "(string \<times> string) list"
  pk_after :: "(string \<times> string) list"

definition link_kvs :: "printed_link \<Rightarrow> (string \<times> string) list" where
  "link_kvs p =
     [(''SSID'', pk_ssid p), (''freq'', pk_freq_text p), (''signal'', show_int (pk_signal p) @ '' dBm''),
      (''tx bitrate'', pk_rate_text p @ '' MBit/s'')]"

definition show_link :: "printed_link \<Rightarrow> string list" where
  "show_link p = link_header (pk_bssid p) (pk_iface p) # map link_kv (pk_before p @ link_kvs p @ pk_after p)"

definition other_link_kv :: "string \<times> string \<Rightarrow> bool" where
  "other_link_kv kv \<longleftrightarrow> link_key (fst kv) \<and> trimmed_text (snd kv) \<and>
     fst kv \<notin> {''SSID'', ''freq'', ''signal'', ''tx bitrate''}"

definition link_ok :: "printed_link \<Rightarrow> bool" where
  "link_ok p \<longleftrightarrow> plain_word (pk_bssid p) \<and> trimmed_text (pk_ssid p) \<and> plain_word (pk_freq_text p) \<and>
     plain_word (pk_rate_text p) \<and> parse_float64 (pk_freq_text p) = Inr (Fin (pk_freq p)) \<and>
     0 \<le> pk_freq p \<and> pk_freq p < 2 ^ 63 \<and> - (2 ^ 63) \<le> pk_signal p \<and> pk_signal p < 2 ^ 63 \<and>
     parse_float64 (pk_rate_text p) = Inr (pk_rate p) \<and>
     list_all other_link_kv (pk_before p) \<and> list_all other_link_kv (pk_after p)"

definition the_link :: "(string \<Rightarrow> string) \<Rightarrow> printed_link \<Rightarrow> linkResult" where
  "the_link uni p = \<lparr>lr_connected = True, lr_ssid = pk_ssid p, lr_bssid = to_lower uni (pk_bssid p),
     lr_signalDBm = pk_signal p, lr_freqMHz = \<lfloor>pk_freq p\<rfloor>, lr_txBitrateMbps = pk_rate p\<rparr>"

text \<open>The whole part of a non-negative float that is below 2^63.\<close>

lemma f64_to_int_floor:
  assumes "0 \<le> a" and "a < 2 ^ 63"
  shows "f64_to_int oor (Fin a) = \<lfloor>a\<rfloor>"
proof -
  have "0 \<le> \<lfloor>a\<rfloor>" using assms(1) by simp
  moreover have "\<lfloor>a\<rfloor> < 2 ^ 63" using assms(2) by (simp add: floor_less_iff)
  ultimately show ?thesis using assms(1) by (simp add: f64_to_int_def trunc_rat_def Let_def)
qed

lemma fold_other_link_kvs:
  "list_all other_link_kv kvs \<Longrightarrow> fold (\<lambda>(k, v). link_field oor k v) kvs out = out"
  by (induction kvs) (auto simp: other_link_kv_def link_field_def)

lemma link_keys_ok: "link_key ''SSID''" "link_key ''freq''" "link_key ''signal''" "link_key ''tx bitrate''"
  by code_simp+

lemma link_values:
  assumes "link_ok p"
  shows "f64_to_int oor (parseFirstFloat (pk_freq_text p)) = \<lfloor>pk_freq p\<rfloor>"
    and "wan_parseFirstInt (show_int (pk_signal p) @ '' dBm'') = pk_signal p"
    and "parseFirstFloat (pk_rate_text p @ '' MBit/s'') = pk_rate p"
proof -
  have f: "str_fields (pk_freq_text p) = [pk_freq_text p]"
    "str_fields (pk_rate_text p @ '' MBit/s'') = pk_rate_text p # str_fields ''MBit/s''"
    using assms fields_word_space [of "pk_rate_text p" "CHR '' ''" "''MBit/s''"]
    by (simp_all add: link_ok_def fields_word)
  show "f64_to_int oor (parseFirstFloat (pk_freq_text p)) = \<lfloor>pk_freq p\<rfloor>"
    "parseFirstFloat (pk_rate_text p @ '' MBit/s'') = pk_rate p"
    using assms by (simp_all add: parseFirstFloat_def f link_ok_def f64_to_int_floor)
  show "wan_parseFirstInt (show_int (pk_signal p) @ '' dBm'') = pk_signal p"
    using assms fields_word_space [of "show_int (pk_signal p)" "CHR '' ''" "''dBm''"] plain_word_show_int
    by (simp add: wan_parseFirstInt_def link_ok_def parse_int64_show)
qed

lemma link_values_trimmed:
  assumes "link_ok p"
  shows "list_all (\<lambda>(k, v). link_key k \<and> trimmed_text v) (link_kvs p)"
proof -
  have "trimmed_text ''dBm''" "trimmed_text ''MBit/s''" by code_simp+
  then have "trimmed_text (show_int (pk_signal p) @ '' dBm'')" "trimmed_text (pk_rate_text p @ '' MBit/s'')"
    using trimmed_text_append [of "show_int (pk_signal p)" "''dBm''" "'' ''"]
      trimmed_text_append [of "pk_rate_text p" "''MBit/s''" "'' ''"] assms plain_word_show_int
    by (simp_all add: link_ok_def plain_word_trimmed)
  then show ?thesis
    using assms by (simp add: link_kvs_def link_keys_ok link_ok_def plain_word_trimmed)
qed

lemma link_loop_show:
  assumes "link_ok p"
  shows "link_loop uni oor zero_link (show_link p) = the_link uni p"
proof -
  have others: "list_all (\<lambda>(k, v). link_key k \<and> trimmed_text v) kvs" if "list_all other_link_kv kvs" for kvs
    using that by (induction kvs) (auto simp: other_link_kv_def)
  have kvs: "list_all (\<lambda>(k, v). link_key k \<and> trimmed_text v) (pk_before p @ link_kvs p @ pk_after p)"
    using assms others link_values_trimmed [OF assms] by (simp add: link_ok_def)
  have "link_loop uni oor zero_link (show_link p) =
      fold (\<lambda>(k, v). link_field oor k v) (pk_before p @ link_kvs p @ pk_after p)
        (zero_link\<lparr>lr_connected := True, lr_bssid := to_lower uni (pk_bssid p)\<rparr>)"
    using assms by (simp only: show_link_def link_ok_def link_line_header link_loop_kvs [OF kvs])
  also have "\<dots> = the_link uni p"
    using assms link_values [OF assms]
    by (simp add: link_ok_def fold_other_link_kvs link_kvs_def link_field_def the_link_def zero_link_def)
  finally show ?thesis .
qed

section \<open>Outcomes of a refresh\<close>

text \<open>
  The error of the first command that fails, in the order in which they run, when the
  interface exists; the \<open>ip\<close> commands run only for a connected link.
\<close>

definition wn_failure :: "(string \<Rightarrow> string) \<Rightarrow> (float64 \<Rightarrow> int) \<Rightarrow> wn_env \<Rightarrow> string \<Rightarrow> go_error option" where
  "wn_failure uni oor e iface =
     (case we_run e (iw_link_cmd iface) of
        Inl err \<Rightarrow> Some (Wrap ''iw: '' err)
      | Inr out \<Rightarrow>
          if \<not> lr_connected (parseIwLink uni oor out) then None
          else case we_run e (ip_addr_cmd iface) of
              Inl err \<Rightarrow> Some (Wrap ''ip addr: '' err)
            | Inr addrs \<Rightarrow>
                (case we_run e ip_route_cmd of
                   Inl err \<Rightarrow> Some (Wrap ''ip route: '' err)
                 | Inr routes \<Rightarrow> None))"

text \<open>A snapshot without a link shows only what is known of the interface.\<close>

definition unlinked :: "string \<Rightarrow> bool \<Rightarrow> bool \<Rightarrow> wn_Info" where
  "unlinked iface present active =
     (blank_Info iface)\<lparr>wi_InterfacePresent := present, wi_SupplicantActive := active\<rparr>"

lemma unlinked_blank [simp]: "unlinked iface False False = blank_Info iface"
  by (simp add: unlinked_def blank_Info_def)

definition info_ok :: "string \<Rightarrow> wn_Info \<Rightarrow> bool" where
  "info_ok iface i \<longleftrightarrow>
     wi_Interface i = iface \<and> wi_Connected i \<and> wi_InterfacePresent i \<or>
     (\<exists>present active. i = unlinked iface present active)"

lemma info_ok_unlinked [simp]: "info_ok iface (unlinked iface p a)" "info_ok iface (blank_Info iface)"
proof -
  show l: "info_ok iface (unlinked iface p a)" for p a by (auto simp: info_ok_def)
  show "info_ok iface (blank_Info iface)" using l [of False False] by simp
qed

lemma info_ok_connected:
  "lr_connected link \<Longrightarrow> info_ok iface ((connected_Info a link iface)\<lparr>wi_IP := ip, wi_Gateway := gw\<rparr>)"
  by (simp add: info_ok_def connected_Info_def blank_Info_def)

lemma wn_refresh_info_ok:
  assumes "info_ok (wn_iface c) (wn_Info (wn_snap c))"
  shows "info_ok (wn_iface c) (wn_Info (wn_snap (fst (wn_refresh uni oor e c))))"
  using assms info_ok_connected info_ok_unlinked(1) [unfolded unlinked_def]
  by (auto simp: wn_refresh_defs split: sum.split)

definition wn_refreshes ::
  "(string \<Rightarrow> string) \<Rightarrow> (float64 \<Rightarrow> int) \<Rightarrow> wn_env list \<Rightarrow> wn_Collector \<Rightarrow> wn_Collector" where
  "wn_refreshes uni oor es c = fold (\<lambda>e c. fst (wn_refresh uni oor e c)) es c"

lemma wn_refreshes_info_ok:
  "info_ok (wn_iface c) (wn_Info (wn_snap c)) \<Longrightarrow>
     info_ok (wn_iface c) (wn_Info (wn_snap (wn_refreshes uni oor es c)))"
proof (induction es arbitrary: c)
  case (Cons e es)
  then show ?case
    using wn_refresh_info_ok [of c uni oor e] Cons.IH [of "fst (wn_refresh uni oor e c)"]
    by (simp add: wn_refreshes_def)
qed (simp add: wn_refreshes_def)

section \<open>Properties\<close>

text \<open>
  C32: parsing a printed connected link gives its SSID, its BSSID in lower case, the signal,
  the whole MHz of the frequency, cut off and not rounded when it is printed with decimals,
  and the bit rate, whatever lines with other keys are printed around them.
\<close>

theorem wan_link_roundtrip:
  assumes "link_ok p" and "list_all (clean_line large_token_limit) (show_link p)"
  shows "parseIwLink uni oor (unlines (show_link p)) = the_link uni p"
  using assms by (simp add: parseIwLink_def scan_lines_unlines link_loop_show)

definition sample_oor :: "float64 \<Rightarrow> int" where
  "sample_oor x = - (2 ^ 63)"

definition sample_link :: printed_link where
  "sample_link = \<lparr>pk_bssid = ''AA:11'', pk_iface = ''wlan1'', pk_ssid = ''Cafe: 5G'', pk_freq_text = ''5220.75'',
     pk_freq = 20883 / 4, pk_signal = - 62, pk_rate_text = ''150.5'', pk_rate = Fin (301 / 2),
     pk_before = [], pk_after = [(''RX'', ''12 bytes'')]\<rparr>"

lemma wan_link_roundtrip_witness:
  "lr_freqMHz (parseIwLink id sample_oor (unlines (show_link sample_link))) = 5220"
proof -
  have "show_link sample_link = [''Connected to AA:11 (on wlan1)'', tab # ''SSID: Cafe: 5G'',
      tab # ''freq: 5220.75'', tab # ''signal: -62 dBm'', tab # ''tx bitrate: 150.5 MBit/s'', tab # ''RX: 12 bytes'']"
    by code_simp
  then have "list_all (clean_line large_token_limit) (show_link sample_link)"
    by (simp add: clean_line_def newline_def drop_cr_def large_token_limit_def tab_def)
  moreover have "link_ok sample_link" by code_simp
  moreover have "\<lfloor>20883 / 4 :: rat\<rfloor> = 5220" by (simp add: floor_eq_iff)
  ultimately show ?thesis using wan_link_roundtrip [of sample_link id sample_oor] by (simp add: the_link_def sample_link_def)
qed

text \<open>
  From the document \<open>ip -j addr\<close> prints, \<open>parseIPAddr\<close> takes the first non-empty
  IPv4 address, in the order of the interfaces and of their addresses, whatever other
  members the objects have.
\<close>

theorem wan_addr_roundtrip:
  assumes "list_all entry_ok es"
  shows "parseIPAddr (json_encode (JArr (map show_entry es))) =
    (case find (\<lambda>a. pa_family a = ''inet'' \<and> pa_local a \<noteq> []) (concat (map pe_addrs es)) of
       None \<Rightarrow> [] | Some a \<Rightarrow> pa_local a)"
proof -
  have find: "find P (map f xs) = map_option f (find (P \<circ> f) xs)" for P f and xs :: "printed_addr list"
    by (induction xs) auto
  have "concat (map (map the_addr \<circ> pe_addrs) es) = map the_addr (concat (map pe_addrs es))"
    by (induction es) simp_all
  then show ?thesis
    by (simp add: parseIPAddr_def unmarshal_addr_show [OF assms] find the_addr_def o_def split: option.split)
qed

definition sample_entry :: printed_entry where
  "sample_entry = \<lparr>pe_before = [(''ifindex'', JNum ''3'')],
     pe_addrs = [\<lparr>pa_family = ''inet6'', pa_local = ''fe80::1'', pa_more = []\<rparr>,
       \<lparr>pa_family = ''inet'', pa_local = ''10.0.0.7'', pa_more = [(''prefixlen'', JNum ''24'')]\<rparr>],
     pe_after = []\<rparr>"

lemma wan_addr_roundtrip_witness:
  "parseIPAddr (json_encode (JArr (map show_entry [sample_entry]))) = ''10.0.0.7''"
proof -
  have "list_all entry_ok [sample_entry]" by code_simp
  from wan_addr_roundtrip [OF this] show ?thesis by (simp add: sample_entry_def)
qed

text \<open>
  From the document \<open>ip -j route\<close> prints, \<open>parseIPRoute\<close> takes the gateway of the
  first route of the interface that has one.
\<close>

theorem wan_route_roundtrip:
  assumes "list_all route_ok rs"
  shows "parseIPRoute (json_encode (JArr (map show_route rs))) iface =
    (case find (\<lambda>r. rt_dev r = iface \<and> rt_gateway r \<noteq> []) (map pr_route rs) of
       None \<Rightarrow> [] | Some r \<Rightarrow> rt_gateway r)"
  by (simp add: parseIPRoute_def unmarshal_route_show [OF assms])

definition sample_routes :: "printed_route list" where
  "sample_routes =
     [\<lparr>pr_route = \<lparr>rt_dst = ''default'', rt_gateway = ''10.0.0.1'', rt_dev = ''eth0''\<rparr>, pr_more = []\<rparr>,
      \<lparr>pr_route = \<lparr>rt_dst = ''default'', rt_gateway = ''10.1.0.1'', rt_dev = ''wlan1''\<rparr>,
        pr_more = [(''flags'', JArr [])]\<rparr>]"

lemma wan_route_roundtrip_witness:
  "parseIPRoute (json_encode (JArr (map show_route sample_routes))) ''wlan1'' = ''10.1.0.1''"
proof -
  have "list_all route_ok sample_routes" by code_simp
  from wan_route_roundtrip [OF this] show ?thesis by (simp add: sample_routes_def)
qed

text \<open>
  C29: after any sequence of refreshes, whatever the commands return and however they fail, the
  published snapshot is either that of a connected, present interface or shows no
  SSID, BSSID, signal, frequency, bit rate, address or gateway at all.
\<close>

theorem wan_disconnected_is_blank:
  "(let i = wn_Info (wn_snap (wn_refreshes uni oor es (wn_New cfg t))) in
     wi_Interface i = WANIf cfg \<and> wi_Connected i \<and> wi_InterfacePresent i \<or>
     (\<exists>present active. i = unlinked (WANIf cfg) present active))"
proof -
  have "info_ok (wn_iface (wn_New cfg t)) (wn_Info (wn_snap (wn_New cfg t)))"
    by (simp add: wn_New_def wn_newWithDeps_def)
  from wn_refreshes_info_ok [OF this, of uni oor es] show ?thesis
    by (simp add: info_ok_def wn_New_def wn_newWithDeps_def)
qed

text \<open>
  A refresh whose link is up publishes the parsed link with the address and the gateway of
  the interface; one whose link is down runs no \<open>ip\<close> command, publishes a blank snapshot
  and forgets the connection. Neither reports an error.
\<close>

theorem wan_refresh_success:
  assumes "\<not> time_sub (we_recheck e) (wn_lastAt c) < wn_ttl c" and "\<not> wn_absent e (wn_iface c)"
    and "wn_failure uni oor e (wn_iface c) = None" and "we_run e (iw_link_cmd (wn_iface c)) = Inr out"
  shows "let (c', effs) = wn_refresh uni oor e c; link = parseIwLink uni oor out; iface = wn_iface c;
      active = supplicant_active e iface in
    wn_Err (wn_snap c') = None \<and> wn_At (wn_snap c') = we_now e \<and>
    (if lr_connected link
     then (\<exists>addrs routes. we_run e (ip_addr_cmd iface) = Inr addrs \<and> we_run e ip_route_cmd = Inr routes \<and>
        wn_Info (wn_snap c') = (connected_Info active link iface)
          \<lparr>wi_IP := parseIPAddr addrs, wi_Gateway := parseIPRoute routes iface\<rparr>) \<and>
        wn_prevConnected c' \<and> wn_prevSSID c' = lr_ssid link
     else wn_Info (wn_snap c') = unlinked iface True active \<and> \<not> wn_prevConnected c' \<and>
       set (filter (\<lambda>x. case x of WnRun cmd \<Rightarrow> True | _ \<Rightarrow> False) effs) = {WnRun (iw_link_cmd iface)})"
  using assms
  by (auto simp: wn_refresh_defs wn_failure_def unlinked_def supplicant_active_def split: sum.splits if_splits)

definition wn_sample_env :: "time \<Rightarrow> wn_env" where
  "wn_sample_env t = \<lparr>we_recheck = t, we_now = t, we_exists = Some (\<lambda>n. True),
     we_run = (\<lambda>cmd. if cmd = iw_link_cmd ''wlan1'' then Inr (unlines [''Not connected.'']) else Inl (External False ''x'')),
     we_supplicant = Some (\<lambda>n. True)\<rparr>"

lemma sample_not_connected: "parseIwLink uni oor (unlines [''Not connected.'']) = zero_link"
proof -
  have "trim_space ''Not connected.'' = ''Not connected.''" by code_simp
  moreover have "list_all (clean_line large_token_limit) [''Not connected.'']"
    by (simp add: clean_line_def newline_def drop_cr_def large_token_limit_def)
  ultimately show ?thesis by (simp add: parseIwLink_def scan_lines_unlines has_prefix_def)
qed

lemma wan_refresh_success_witness:
  "wn_Info (wn_snap (fst (wn_refresh id sample_oor (wn_sample_env second) (wn_newWithDeps ''wlan1'' 0 second)))) =
     unlinked ''wlan1'' True True"
proof -
  let ?c = "wn_newWithDeps ''wlan1'' 0 second" and ?e = "wn_sample_env second"
  have h: "\<not> time_sub (we_recheck ?e) (wn_lastAt ?c) < wn_ttl ?c" "\<not> wn_absent ?e (wn_iface ?c)"
    "wn_failure id sample_oor ?e (wn_iface ?c) = None"
    "we_run ?e (iw_link_cmd (wn_iface ?c)) = Inr (unlines [''Not connected.''])"
    by (simp_all add: wn_sample_env_def wn_newWithDeps_def wn_absent_def wn_failure_def time_sub_def duration_defs
        sample_not_connected zero_link_def)
  show ?thesis
    using wan_refresh_success [OF h] h(4)
    by (cases "wn_refresh id sample_oor ?e ?c")
      (simp add: Let_def sample_not_connected zero_link_def supplicant_active_def wn_sample_env_def wn_newWithDeps_def)
qed

text \<open>
  C30: a refresh in which a command fails keeps the information of the last good snapshot and
  reports the first failure, wrapped with the name of its command.
\<close>

theorem wan_refresh_failure_keeps_last_good:
  assumes "\<not> time_sub (we_recheck e) (wn_lastAt c) < wn_ttl c" and "\<not> wn_absent e (wn_iface c)"
    and "wn_failure uni oor e (wn_iface c) = Some err"
  shows "wn_snap (fst (wn_refresh uni oor e c)) =
    \<lparr>wn_At = we_now e, wn_Info = wn_Info (wn_snap c), wn_Err = Some err\<rparr>"
  using assms by (auto simp: wn_refresh_defs wn_failure_def split: sum.splits if_splits)

definition wn_failing_env :: "time \<Rightarrow> wn_env" where
  "wn_failing_env t = (wn_sample_env t)\<lparr>we_run := (\<lambda>cmd. Inl (External False ''exit status 1''))\<rparr>"

lemma wan_refresh_failure_keeps_last_good_witness:
  "wn_Err (wn_snap (fst (wn_refresh id sample_oor (wn_failing_env second) (wn_newWithDeps ''wlan1'' 0 second)))) =
     Some (Wrap ''iw: '' (External False ''exit status 1''))"
proof -
  let ?c = "wn_newWithDeps ''wlan1'' 0 second" and ?e = "wn_failing_env second"
  have "\<not> time_sub (we_recheck ?e) (wn_lastAt ?c) < wn_ttl ?c" "\<not> wn_absent ?e (wn_iface ?c)"
    "wn_failure id sample_oor ?e (wn_iface ?c) = Some (Wrap ''iw: '' (External False ''exit status 1''))"
    by (simp_all add: wn_failing_env_def wn_sample_env_def wn_newWithDeps_def wn_absent_def wn_failure_def
        time_sub_def duration_defs)
  from wan_refresh_failure_keeps_last_good [OF this] show ?thesis by simp
qed

text \<open>
  An interface that reappears but whose first \<open>iw\<close> fails is still reported as not
  present: the last-good information that is kept is that of the absent interface.
\<close>

theorem wan_reappeared_interface_reported_absent:
  assumes "\<not> time_sub (we_recheck e1) (wn_lastAt c) < wn_ttl c" and "wn_absent e1 (wn_iface c)"
    and "\<not> time_sub (we_recheck e2) (we_now e1) < wn_ttl c" and "\<not> wn_absent e2 (wn_iface c)"
    and "we_run e2 (iw_link_cmd (wn_iface c)) = Inl err"
  shows "wn_snap (fst (wn_refresh uni oor e2 (fst (wn_refresh uni oor e1 c)))) =
    \<lparr>wn_At = we_now e2, wn_Info = blank_Info (wn_iface c), wn_Err = Some (Wrap ''iw: '' err)\<rparr> \<and>
    \<not> wi_InterfacePresent (blank_Info (wn_iface c))"
  using assms by (simp add: wn_refresh_defs) (simp add: blank_Info_def)

lemma wan_reappeared_interface_reported_absent_witness:
  "\<not> wi_InterfacePresent (wn_Info (wn_snap (fst (wn_refresh id sample_oor (wn_failing_env (2 * second))
     (fst (wn_refresh id sample_oor ((wn_failing_env second)\<lparr>we_exists := Some (\<lambda>n. False)\<rparr>)
       (wn_newWithDeps ''wlan1'' 0 second)))))))"
proof -
  let ?c = "wn_newWithDeps ''wlan1'' 0 second" and ?e2 = "wn_failing_env (2 * second)"
  let ?e1 = "(wn_failing_env second)\<lparr>we_exists := Some (\<lambda>n. False)\<rparr>"
  have "\<not> time_sub (we_recheck ?e1) (wn_lastAt ?c) < wn_ttl ?c" "wn_absent ?e1 (wn_iface ?c)"
    "\<not> time_sub (we_recheck ?e2) (we_now ?e1) < wn_ttl ?c" "\<not> wn_absent ?e2 (wn_iface ?c)"
    "we_run ?e2 (iw_link_cmd (wn_iface ?c)) = Inl (External False ''exit status 1'')"
    by (simp_all add: wn_failing_env_def wn_sample_env_def wn_newWithDeps_def wn_absent_def time_sub_def duration_defs)
  from wan_reappeared_interface_reported_absent [OF this] show ?thesis by simp
qed

text \<open>
  However concurrent calls of \<open>Snapshot\<close> interleave, refreshes of the upstream
  link are at least one second apart, and every finished call returns a snapshot whose
  instant is less than a second before the call's check.
\<close>

theorem wan_interleaved_snapshots:
  assumes "(snap_step wn_lastAt wn_ttl wn_snap (wn_refresh uni oor) we_recheck we_now)\<^sup>*\<^sup>*
      (start_world (wn_New cfg t0) t0) w" and "0 \<le> t0"
  shows "spaced second (refreshed w) \<and> (phase_of w i = Done t s \<longrightarrow> t - wn_At s < second)"
proof -
  have new: "wn_ttl (wn_New cfg t0) = second" "wn_lastAt (wn_New cfg t0) \<le> wn_At (wn_snap (wn_New cfg t0))"
    "wn_At (wn_snap (wn_New cfg t0)) \<le> t0" "is_duration second" "0 < second"
    using assms(2) by (simp_all add: wn_New_def wn_newWithDeps_def is_duration_def duration_defs)
  show ?thesis
    using wn.refreshes_spaced [OF assms(1) new(2,3)] wn.result_fresh [OF assms(1) new(2,3)] new by auto
qed

lemma wan_interleaved_snapshots_witness:
  "\<exists>w s. (snap_step wn_lastAt wn_ttl wn_snap (wn_refresh id sample_oor) we_recheck we_now)\<^sup>*\<^sup>*
      (start_world (wn_New (Load id Map.empty) 5) 5) w \<and>
    phase_of w 0 = Done second s \<and> spaced second (refreshed w) \<and> second - wn_At s < second"
proof -
  let ?c = "wn_New (Load id Map.empty) 5"
  have "wn_ttl ?c \<le> time_sub second (wn_lastAt ?c)"
    "\<not> time_sub (we_recheck (wn_failing_env second)) (wn_lastAt ?c) < wn_ttl ?c"
    by (simp_all add: wn_New_def wn_newWithDeps_def wn_failing_env_def wn_sample_env_def time_sub_def duration_defs)
  then obtain w where w: "(snap_step wn_lastAt wn_ttl wn_snap (wn_refresh id sample_oor) we_recheck we_now)\<^sup>*\<^sup>*
      (start_world ?c 5) w"
    "phase_of w 0 = Done second (wn_snap (fst (wn_refresh id sample_oor (wn_failing_env second) ?c)))"
    using wn.solo_run [of ?c second "wn_failing_env second" 5 id sample_oor]
    by (auto simp: wn_failing_env_def wn_sample_env_def second_def)
  with wan_interleaved_snapshots [OF w(1), of 0 second] show ?thesis by auto
qed

end
