(* ===== verification/Admin.thy ===== *)
theory Admin
  imports Go_Path Configuration Lazy_Cache Ip_Json
begin

text \<open>
  \<open>internal/admin/eth.go\<close>: link state and address of the administration interface, with
  the same lazy refresh. Facts: every outcome of a refresh, the combined error included;
  the link flag never outlives a failed read; refreshes are spaced by the TTL.
\<close>

section \<open>Addresses and routes\<close>

definition ad_parseIPAddr :: "string \<Rightarrow> string" where
  "ad_parseIPAddr raw =
     (case unmarshal_addr raw of
        None \<Rightarrow> []
      | Some doc \<Rightarrow>
          (case find (\<lambda>a. ai_family a = ''inet'' \<and> ai_local a \<noteq> []) (concat doc) of
             None \<Rightarrow> [] | Some a \<Rightarrow> ai_local a))"

definition ad_parseIPRoute :: "string \<Rightarrow> string \<Rightarrow> string" where
  "ad_parseIPRoute raw iface =
     (case unmarshal_route raw of
        None \<Rightarrow> []
      | Some doc \<Rightarrow>
          (case find (\<lambda>r. rt_dev r = iface \<and> rt_gateway r \<noteq> []) doc of
             None \<Rightarrow> [] | Some r \<Rightarrow> rt_gateway r))"

section \<open>The collector\<close>

definition ad_ErrInterfaceAbsent :: go_error where
  "ad_ErrInterfaceAbsent = NewError ''interface absent''"

record ad_Info =
  ad_Interface :: string
  ad_IP :: string
  ad_Gateway :: string
  ad_Link :: bool

definition new_ad_Info :: "string \<Rightarrow> ad_Info" where
  "new_ad_Info iface = \<lparr>ad_Interface = iface, ad_IP = [], ad_Gateway = [], ad_Link = False\<rparr>"

record ad_Snapshot =
  ad_At :: time
  ad_Info :: ad_Info
  ad_Err :: "go_error option"

record ad_Collector =
  ad_iface :: string
  ad_ttl :: duration
  ad_lastAt :: time
  ad_snap :: ad_Snapshot
  ad_prevLink :: bool
  ad_prevIP :: string
  ad_prevAbsent :: bool

record ad_env =
  ae_recheck :: time
  ae_now :: time
  ae_exists :: "(string \<Rightarrow> bool) option"
  ae_operstate :: "string \<Rightarrow> go_error + string"
  ae_run :: "string list \<Rightarrow> go_error + string"

datatype ad_effect =
    AdReadOperstate string
  | AdRun "string list"
  | AdLogAbsent string
  | AdLogPresent string
  | AdLogChange string bool string string

definition ad_newWithDeps :: "string \<Rightarrow> time \<Rightarrow> duration \<Rightarrow> ad_Collector" where
  "ad_newWithDeps iface t ttl =
     \<lparr>ad_iface = iface, ad_ttl = ttl, ad_lastAt = 0,
      ad_snap = \<lparr>ad_At = t, ad_Info = new_ad_Info iface, ad_Err = None\<rparr>,
      ad_prevLink = False, ad_prevIP = [], ad_prevAbsent = False\<rparr>"

definition ad_New :: "config \<Rightarrow> time \<Rightarrow> ad_Collector" where
  "ad_New cfg t = ad_newWithDeps (AdminIf cfg) t second"

definition ad_production_env ::
  "config \<Rightarrow> (string \<Rightarrow> bool) \<Rightarrow> files \<Rightarrow> (string list \<Rightarrow> go_error + string) \<Rightarrow> time \<Rightarrow> time \<Rightarrow> ad_env" where
  "ad_production_env cfg stat fs exec t1 t2 =
     \<lparr>ae_recheck = t1, ae_now = t2,
      ae_exists = Some (\<lambda>name. stat (path_join [SysPath cfg, ''class'', ''net'', name])),
      ae_operstate = read_operstate fs (SysPath cfg), ae_run = exec\<rparr>"

definition ad_addr_cmd :: "string \<Rightarrow> string list" where
  "ad_addr_cmd iface = [''ip'', ''-j'', ''addr'', ''show'', iface]"

definition ad_route_cmd :: "string list" where
  "ad_route_cmd = [''ip'', ''-j'', ''route'', ''show'', ''default'']"

definition ad_absent :: "ad_env \<Rightarrow> string \<Rightarrow> bool" where
  "ad_absent e iface \<longleftrightarrow> (case ae_exists e of None \<Rightarrow> False | Some f \<Rightarrow> \<not> f iface)"

definition ad_isLink :: "ad_env \<Rightarrow> string \<Rightarrow> bool" where
  "ad_isLink e iface = (case ae_operstate e iface of Inl opErr \<Rightarrow> False | Inr state \<Rightarrow> state = ''up'')"

text \<open>The failure of \<open>ip addr\<close>: the last-good address, a combined error.\<close>

definition ad_addr_failed :: "ad_env \<Rightarrow> ad_Info \<Rightarrow> go_error \<Rightarrow> ad_Collector \<Rightarrow> ad_Collector" where
  "ad_addr_failed e info addrErr c =
     (let prior = ad_Info (ad_snap c);
          err = Wrap ''ip addr: '' addrErr;
          err = (case ae_operstate e (ad_iface c) of
              Inl opErr \<Rightarrow> WrapV err ''; operstate: '' opErr | Inr state \<Rightarrow> err) in
      c\<lparr>ad_snap := \<lparr>ad_At = ae_now e,
          ad_Info = info\<lparr>ad_IP := ad_IP prior, ad_Gateway := ad_Gateway prior\<rparr>, ad_Err = Some err\<rparr>,
        ad_lastAt := ae_now e\<rparr>)"

definition ad_addr_ok :: "ad_env \<Rightarrow> ad_Info \<Rightarrow> string \<Rightarrow> ad_Collector \<Rightarrow> ad_Collector \<times> ad_effect list" where
  "ad_addr_ok e info addrOut c =
     (let info = info\<lparr>ad_IP := ad_parseIPAddr addrOut\<rparr>;
          info = (case ae_run e ad_route_cmd of
              Inl routeErr \<Rightarrow> info
            | Inr routeOut \<Rightarrow> info\<lparr>ad_Gateway := ad_parseIPRoute routeOut (ad_iface c)\<rparr>);
          changed = (ad_Link info \<noteq> ad_prevLink c \<or> ad_IP info \<noteq> ad_prevIP c);
          c' = (if changed then c\<lparr>ad_prevLink := ad_Link info, ad_prevIP := ad_IP info\<rparr> else c);
          err = (case ae_operstate e (ad_iface c) of
              Inl opErr \<Rightarrow> Some (Wrap ''operstate: '' opErr) | Inr state \<Rightarrow> None) in
      (c'\<lparr>ad_snap := \<lparr>ad_At = ae_now e, ad_Info = info, ad_Err = err\<rparr>, ad_lastAt := ae_now e\<rparr>,
       AdRun ad_route_cmd # (if changed
         then [AdLogChange (ad_iface c) (ad_Link info) (ad_IP info) (ad_Gateway info)] else [])))"

definition ad_refresh :: "ad_env \<Rightarrow> ad_Collector \<Rightarrow> ad_Collector \<times> ad_effect list" where
  "ad_refresh e c =
     (if time_sub (ae_recheck e) (ad_lastAt c) < ad_ttl c then (c, [])
      else if ad_absent e (ad_iface c) then
        (c\<lparr>ad_prevAbsent := True,
           ad_snap := \<lparr>ad_At = ae_now e, ad_Info = new_ad_Info (ad_iface c), ad_Err = Some ad_ErrInterfaceAbsent\<rparr>,
           ad_lastAt := ae_now e\<rparr>,
         if ad_prevAbsent c then [] else [AdLogAbsent (ad_iface c)])
      else
        (let log1 = (if ad_prevAbsent c then [AdLogPresent (ad_iface c)] else []);
             c = c\<lparr>ad_prevAbsent := False\<rparr>;
             info = (new_ad_Info (ad_iface c))\<lparr>ad_Link := ad_isLink e (ad_iface c)\<rparr>;
             effs = log1 @ [AdReadOperstate (ad_iface c), AdRun (ad_addr_cmd (ad_iface c))] in
         case ae_run e (ad_addr_cmd (ad_iface c)) of
           Inl addrErr \<Rightarrow> (ad_addr_failed e info addrErr c, effs)
         | Inr addrOut \<Rightarrow> (let (c', more) = ad_addr_ok e info addrOut c in (c', effs @ more))))"

definition ad_Snapshot_of :: "time \<Rightarrow> ad_env \<Rightarrow> ad_Collector \<Rightarrow> (ad_Collector \<times> ad_effect list) \<times> ad_Snapshot" where
  "ad_Snapshot_of t e c =
     (if ad_ttl c \<le> time_sub t (ad_lastAt c)
      then (let r = ad_refresh e c in (r, ad_snap (fst r)))
      else ((c, []), ad_snap c))"

section \<open>The cache contract\<close>

lemmas ad_refresh_defs = ad_refresh_def ad_addr_failed_def ad_addr_ok_def Let_def

lemma ad_refresh_fresh [time_facts]:
  "time_sub (ae_recheck e) (ad_lastAt c) < ad_ttl c \<Longrightarrow> ad_refresh e c = (c, [])"
  by (simp add: ad_refresh_def)

lemma ad_refresh_stale:
  assumes "\<not> time_sub (ae_recheck e) (ad_lastAt c) < ad_ttl c"
  shows "ad_lastAt (fst (ad_refresh e c)) = ae_now e"
    and "ad_At (ad_snap (fst (ad_refresh e c))) = ae_now e"
  using assms by (auto simp: ad_refresh_defs split: sum.split)

lemma ad_refresh_kept [simp]:
  "ad_ttl (fst (ad_refresh e c)) = ad_ttl c"
  "ad_iface (fst (ad_refresh e c)) = ad_iface c"
  by (auto simp: ad_refresh_defs split: sum.split)

interpretation ad: lazy_snapshot ad_lastAt ad_ttl ad_snap ad_At ad_refresh ae_recheck ae_now ad_Snapshot_of
  by unfold_locales (simp_all add: ad_refresh_fresh ad_refresh_stale ad_Snapshot_of_def Let_def)

section \<open>Outcomes of a refresh\<close>

text \<open>A refresh that is due and finds the interface, by whether \<open>ip addr\<close> succeeds.\<close>

definition ad_due :: "ad_env \<Rightarrow> ad_Collector \<Rightarrow> bool" where
  "ad_due e c \<longleftrightarrow> \<not> time_sub (ae_recheck e) (ad_lastAt c) < ad_ttl c \<and> \<not> ad_absent e (ad_iface c)"

lemma ad_refresh_addr_ok:
  assumes "ad_due e c" and "ae_run e (ad_addr_cmd (ad_iface c)) = Inr out"
  shows "ad_snap (fst (ad_refresh e c)) =
    \<lparr>ad_At = ae_now e,
     ad_Info = \<lparr>ad_Interface = ad_iface c, ad_IP = ad_parseIPAddr out,
       ad_Gateway = (case ae_run e ad_route_cmd of Inl err \<Rightarrow> [] | Inr routes \<Rightarrow> ad_parseIPRoute routes (ad_iface c)),
       ad_Link = ad_isLink e (ad_iface c)\<rparr>,
     ad_Err = (case ae_operstate e (ad_iface c) of
       Inl opErr \<Rightarrow> Some (Wrap ''operstate: '' opErr) | Inr state \<Rightarrow> None)\<rparr>"
  using assms unfolding ad_due_def
  by (cases "ae_operstate e (ad_iface c)"; cases "ae_run e ad_route_cmd") (simp_all add: ad_refresh_defs new_ad_Info_def)

lemma ad_refresh_addr_failed:
  assumes "ad_due e c" and "ae_run e (ad_addr_cmd (ad_iface c)) = Inl err"
  shows "ad_snap (fst (ad_refresh e c)) =
    \<lparr>ad_At = ae_now e,
     ad_Info = \<lparr>ad_Interface = ad_iface c, ad_IP = ad_IP (ad_Info (ad_snap c)),
       ad_Gateway = ad_Gateway (ad_Info (ad_snap c)), ad_Link = ad_isLink e (ad_iface c)\<rparr>,
     ad_Err = Some (case ae_operstate e (ad_iface c) of
       Inl opErr \<Rightarrow> WrapV (Wrap ''ip addr: '' err) ''; operstate: '' opErr | Inr state \<Rightarrow> Wrap ''ip addr: '' err)\<rparr>"
  using assms unfolding ad_due_def
  by (cases "ae_operstate e (ad_iface c)") (simp_all add: ad_refresh_defs new_ad_Info_def)

definition ad_refreshes :: "ad_env list \<Rightarrow> ad_Collector \<Rightarrow> ad_Collector" where
  "ad_refreshes es c = fold (\<lambda>e c. fst (ad_refresh e c)) es c"

lemma ad_refreshes_iface [simp]: "ad_iface (ad_refreshes es c) = ad_iface c"
  by (induction es arbitrary: c) (simp_all add: ad_refreshes_def)

text \<open>Refreshes that find the interface but not its address keep what was known of it.\<close>

definition addr_fails :: "string \<Rightarrow> ad_env \<Rightarrow> bool" where
  "addr_fails iface e \<longleftrightarrow> \<not> ad_absent e iface \<and> (\<exists>err. ae_run e (ad_addr_cmd iface) = Inl err)"

lemma ad_refresh_keeps_address:
  assumes "addr_fails (ad_iface c) e"
  shows "ad_IP (ad_Info (ad_snap (fst (ad_refresh e c)))) = ad_IP (ad_Info (ad_snap c)) \<and>
    ad_Gateway (ad_Info (ad_snap (fst (ad_refresh e c)))) = ad_Gateway (ad_Info (ad_snap c))"
proof (cases "time_sub (ae_recheck e) (ad_lastAt c) < ad_ttl c")
  case False
  then show ?thesis using assms ad_refresh_addr_failed [of e c] by (auto simp: addr_fails_def ad_due_def)
qed (simp add: ad_refresh_fresh)

lemma ad_refreshes_keep_address:
  "\<forall>e \<in> set es. addr_fails (ad_iface c) e \<Longrightarrow>
     ad_IP (ad_Info (ad_snap (ad_refreshes es c))) = ad_IP (ad_Info (ad_snap c)) \<and>
     ad_Gateway (ad_Info (ad_snap (ad_refreshes es c))) = ad_Gateway (ad_Info (ad_snap c))"
proof (induction es arbitrary: c)
  case (Cons e es)
  then show ?case
    using Cons.IH [of "fst (ad_refresh e c)"] ad_refresh_keeps_address [of c e] by (simp add: ad_refreshes_def)
qed (simp add: ad_refreshes_def)

section \<open>Properties\<close>


definition ad_sample_env :: "time \<Rightarrow> ad_env" where
  "ad_sample_env t = \<lparr>ae_recheck = t, ae_now = t, ae_exists = None,
     ae_operstate = (\<lambda>n. Inl (External True ''no operstate'')),
     ae_run = (\<lambda>cmd. Inl (External False ''exit status 1''))\<rparr>"

definition ad_start :: ad_Collector where
  "ad_start = (ad_newWithDeps ''eth0'' 0 second)\<lparr>ad_snap :=
     \<lparr>ad_At = 0, ad_Info = \<lparr>ad_Interface = ''eth0'', ad_IP = ''10.0.0.9'', ad_Gateway = [], ad_Link = True\<rparr>,
      ad_Err = None\<rparr>\<rparr>"

text \<open>The address is read once, and then no more; the last read of the operstate fails too.\<close>

definition ad_up_env :: "time \<Rightarrow> ad_env" where
  "ad_up_env t = (ad_sample_env t)\<lparr>ae_operstate := (\<lambda>n. Inr ''up''),
     ae_run := (\<lambda>cmd. if cmd = ad_route_cmd then Inl (External False ''exit status 1'') else Inr ''[]'')\<rparr>"


text \<open>
  A refresh with the interface absent reads nothing and runs nothing, and clears every
  field: the log line about the absence is all it does, once per absence.
\<close>

theorem admin_absent_short_circuits:
  assumes "\<not> time_sub (ae_recheck e) (ad_lastAt c) < ad_ttl c" and "ad_absent e (ad_iface c)"
  shows "ad_snap (fst (ad_refresh e c)) =
      \<lparr>ad_At = ae_now e, ad_Info = new_ad_Info (ad_iface c), ad_Err = Some ad_ErrInterfaceAbsent\<rparr> \<and>
    snd (ad_refresh e c) = (if ad_prevAbsent c then [] else [AdLogAbsent (ad_iface c)]) \<and>
    ad_prevAbsent (fst (ad_refresh e c))"
  using assms by (simp add: ad_refresh_def)

lemma admin_absent_short_circuits_witness:
  "snd (ad_refresh ((ad_sample_env second)\<lparr>ae_exists := Some (\<lambda>n. n = ''lo'')\<rparr>) ad_start) = [AdLogAbsent ''eth0'']"
proof -
  let ?e = "(ad_sample_env second)\<lparr>ae_exists := Some (\<lambda>n. n = ''lo'')\<rparr>"
  have "\<not> time_sub (ae_recheck ?e) (ad_lastAt ad_start) < ad_ttl ad_start" "ad_absent ?e (ad_iface ad_start)"
    by code_simp+
  from admin_absent_short_circuits [OF this] show ?thesis by (simp add: ad_start_def ad_newWithDeps_def)
qed

text \<open>
  However concurrent calls of \<open>Snapshot\<close> interleave, refreshes of the administration
  interface are at least one second apart, and every finished call returns a snapshot whose
  instant is less than a second before the call's check.
\<close>

theorem admin_interleaved_snapshots:
  assumes "(snap_step ad_lastAt ad_ttl ad_snap ad_refresh ae_recheck ae_now)\<^sup>*\<^sup>*
      (start_world (ad_New cfg t0) t0) w" and "0 \<le> t0"
  shows "spaced second (refreshed w) \<and> (phase_of w i = Done t s \<longrightarrow> t - ad_At s < second)"
proof -
  have new: "ad_ttl (ad_New cfg t0) = second" "ad_lastAt (ad_New cfg t0) \<le> ad_At (ad_snap (ad_New cfg t0))"
    "ad_At (ad_snap (ad_New cfg t0)) \<le> t0" "is_duration second" "0 < second"
    using assms(2) by (simp_all add: ad_New_def ad_newWithDeps_def is_duration_def duration_defs)
  show ?thesis
    using ad.refreshes_spaced [OF assms(1) new(2,3)] ad.result_fresh [OF assms(1) new(2,3)] new by auto
qed

lemma admin_interleaved_snapshots_witness:
  "\<exists>w s. (snap_step ad_lastAt ad_ttl ad_snap ad_refresh ae_recheck ae_now)\<^sup>*\<^sup>*
      (start_world (ad_New (Load id Map.empty) 5) 5) w \<and>
    phase_of w 0 = Done second s \<and> spaced second (refreshed w) \<and> second - ad_At s < second"
proof -
  let ?c = "ad_New (Load id Map.empty) 5"
  have "ad_ttl ?c \<le> time_sub second (ad_lastAt ?c)"
    "\<not> time_sub (ae_recheck (ad_sample_env second)) (ad_lastAt ?c) < ad_ttl ?c"
    by (simp_all add: ad_New_def ad_newWithDeps_def ad_sample_env_def time_sub_def duration_defs)
  then obtain w where w: "(snap_step ad_lastAt ad_ttl ad_snap ad_refresh ae_recheck ae_now)\<^sup>*\<^sup>*
      (start_world ?c 5) w" "phase_of w 0 = Done second (ad_snap (fst (ad_refresh (ad_sample_env second) ?c)))"
    using ad.solo_run [of ?c second "ad_sample_env second" 5]
    by (auto simp: ad_sample_env_def second_def)
  with admin_interleaved_snapshots [OF w(1), of 0 second] show ?thesis by auto
qed

end
