(* ===== verification/Api.thy ===== *)
theory Api
  imports Netstats System_Stats Hotspot Wan Admin Authz
begin

text \<open>
  \<open>internal/api/handlers.go\<close>: the payload of \<open>/api/stats\<close>, the privileged
  operations, the liveness endpoint. Facts: what reaches the helper and only for which role,
  the status of every branch, what the payload shows of the collectors, and when its
  encoding fails.

  Handlers are functions from a request and the server's state to the new state, the
  response and the effects, in an environment that holds the helper, the clock readings,
  what the collectors' refreshes meet, and the parts of the run-time that the model leaves
  open (lower-casing outside ASCII, out-of-range conversions, the text of a float).
\<close>

section \<open>Payload\<close>

record api_Interface =
  if_RxMbps :: float64
  if_TxMbps :: float64
  if_RxTotalBytes :: u64
  if_TxTotalBytes :: u64
  if_Up :: bool

record HotspotClient =
  hc_MAC :: string
  hc_IP :: string
  hc_Hostname :: string
  hc_SignalDBm :: int
  hc_ConnectedSeconds :: u64
  hc_RxBytes :: u64
  hc_TxBytes :: u64

record api_Hotspot =
  ho_Interface :: string
  ho_ClientCount :: nat
  ho_Clients :: "HotspotClient list"
  ho_Error :: string

record api_WAN =
  wa_Info :: wn_Info
  wa_Error :: string

record api_Admin =
  am_Info :: ad_Info
  am_Error :: string

record api_System =
  ss_Info :: Info
  ss_Error :: string

record Meta =
  me_Hostname :: string
  me_UptimeSeconds :: int
  me_Commit :: string
  me_Dirty :: bool
  me_BuildTime :: string
  me_Role :: string

record Stats =
  st_Timestamp :: int
  st_Interfaces :: "string \<rightharpoonup> api_Interface"
  st_Hotspot :: api_Hotspot
  st_WAN :: api_WAN
  st_Admin :: api_Admin
  st_System :: api_System
  st_Meta :: Meta

section \<open>The payload as JSON\<close>

text \<open>A float that is not finite has no JSON: the encoder fails and writes nothing.\<close>

type_synonym members_opt = "(string \<times> json option) list"

fun all_members :: "members_opt \<Rightarrow> (string \<times> json) list option" where
  "all_members [] = Some []"
| "all_members ((k, v) # ms) =
     (case v of None \<Rightarrow> None | Some j \<Rightarrow> map_option ((#) (k, j)) (all_members ms))"

definition json_obj :: "members_opt \<Rightarrow> json option" where
  "json_obj ms = map_option JObj (all_members ms)"

definition json_str :: "string \<Rightarrow> json option" where
  "json_str s = Some (JStr s)"

definition json_u64 :: "u64 \<Rightarrow> json option" where
  "json_u64 u = Some (JNum (show_nat (unat u)))"

definition json_int :: "int \<Rightarrow> json option" where
  "json_int i = Some (JNum (show_int i))"

definition json_bool :: "bool \<Rightarrow> json option" where
  "json_bool b = Some (JBool b)"

definition json_f64 :: "(rat \<Rightarrow> string) \<Rightarrow> float64 \<Rightarrow> json option" where
  "json_f64 fmt x = (case x of Fin a \<Rightarrow> Some (JNum (fmt a)) | _ \<Rightarrow> None)"

definition error_member :: "string \<Rightarrow> members_opt" where
  "error_member err = (if err = [] then [] else [(''error'', json_str err)])"

definition interface_json :: "(rat \<Rightarrow> string) \<Rightarrow> api_Interface \<Rightarrow> json option" where
  "interface_json fmt i = json_obj
     [(''rx_mbps'', json_f64 fmt (if_RxMbps i)), (''tx_mbps'', json_f64 fmt (if_TxMbps i)),
      (''rx_total_bytes'', json_u64 (if_RxTotalBytes i)), (''tx_total_bytes'', json_u64 (if_TxTotalBytes i)),
      (''up'', json_bool (if_Up i))]"

definition client_json :: "HotspotClient \<Rightarrow> json option" where
  "client_json c = json_obj
     [(''mac'', json_str (hc_MAC c)), (''ip'', json_str (hc_IP c)), (''hostname'', json_str (hc_Hostname c)),
      (''signal_dbm'', json_int (hc_SignalDBm c)), (''connected_seconds'', json_u64 (hc_ConnectedSeconds c)),
      (''rx_bytes'', json_u64 (hc_RxBytes c)), (''tx_bytes'', json_u64 (hc_TxBytes c))]"

definition hotspot_json :: "api_Hotspot \<Rightarrow> json option" where
  "hotspot_json h = json_obj
     ([(''interface'', json_str (ho_Interface h)), (''client_count'', json_int (int (ho_ClientCount h))),
       (''clients'', map_option JArr (those (map client_json (ho_Clients h))))] @ error_member (ho_Error h))"

definition wan_json :: "(rat \<Rightarrow> string) \<Rightarrow> api_WAN \<Rightarrow> json option" where
  "wan_json fmt w =
     (let i = wa_Info w in json_obj
       ([(''interface'', json_str (wi_Interface i)), (''interface_present'', json_bool (wi_InterfacePresent i)),
         (''supplicant_active'', json_bool (wi_SupplicantActive i)), (''connected'', json_bool (wi_Connected i)),
         (''ssid'', json_str (wi_SSID i)), (''bssid'', json_str (wi_BSSID i)),
         (''signal_dbm'', json_int (wi_SignalDBm i)), (''freq_mhz'', json_int (wi_FreqMHz i)),
         (''tx_bitrate_mbps'', json_f64 fmt (wi_TxBitrateMbps i)), (''ip'', json_str (wi_IP i)),
         (''gateway'', json_str (wi_Gateway i))] @ error_member (wa_Error w)))"

definition admin_json :: "api_Admin \<Rightarrow> json option" where
  "admin_json a = json_obj
     ([(''interface'', json_str (ad_Interface (am_Info a))), (''ip'', json_str (ad_IP (am_Info a))),
       (''gateway'', json_str (ad_Gateway (am_Info a))), (''link'', json_bool (ad_Link (am_Info a)))]
      @ error_member (am_Error a))"

definition system_json :: "(rat \<Rightarrow> string) \<Rightarrow> api_System \<Rightarrow> json option" where
  "system_json fmt y =
     (let i = ss_Info y in json_obj
       ([(''load_1m'', json_f64 fmt (Load1m i)), (''load_5m'', json_f64 fmt (Load5m i)),
         (''load_15m'', json_f64 fmt (Load15m i)), (''mem_total_bytes'', json_u64 (MemTotalBytes i)),
         (''mem_used_bytes'', json_u64 (MemUsedBytes i)), (''temp_celsius'', json_f64 fmt (TempCelsius i)),
         (''throttled'', json_bool (Throttled i))] @ error_member (ss_Error y)))"

definition meta_json :: "Meta \<Rightarrow> json option" where
  "meta_json m = json_obj
     [(''hostname'', json_str (me_Hostname m)), (''uptime_seconds'', json_int (me_UptimeSeconds m)),
      (''commit'', json_str (me_Commit m)), (''dirty'', json_bool (me_Dirty m)),
      (''build_time'', json_str (me_BuildTime m)), (''role'', json_str (me_Role m))]"

text \<open>A map is encoded with its keys sorted.\<close>

definition interfaces_json :: "(rat \<Rightarrow> string) \<Rightarrow> (string \<rightharpoonup> api_Interface) \<Rightarrow> json option" where
  "interfaces_json fmt m = json_obj
     (map (\<lambda>k. (k, case m k of None \<Rightarrow> None | Some i \<Rightarrow> interface_json fmt i)) (sorted_list_of_set (dom m)))"

definition stats_json :: "(rat \<Rightarrow> string) \<Rightarrow> Stats \<Rightarrow> json option" where
  "stats_json fmt s = json_obj
     [(''timestamp'', json_int (st_Timestamp s)), (''interfaces'', interfaces_json fmt (st_Interfaces s)),
      (''hotspot'', hotspot_json (st_Hotspot s)), (''wan'', wan_json fmt (st_WAN s)),
      (''admin'', admin_json (st_Admin s)), (''system'', system_json fmt (st_System s)),
      (''meta'', meta_json (st_Meta s))]"

section \<open>The server\<close>

text \<open>A collector is absent when \<open>New\<close> was given nil.\<close>

record Server =
  sv_cfg :: config
  sv_started :: time
  sv_netstats :: "ns_Collector option"
  sv_hotspot :: "hs_Collector option"
  sv_wan :: "wn_Collector option"
  sv_admin :: "ad_Collector option"
  sv_system :: "sy_Collector option"

definition api_New ::
  "config \<Rightarrow> time \<Rightarrow> ns_Collector option \<Rightarrow> hs_Collector option \<Rightarrow> wn_Collector option \<Rightarrow>
   ad_Collector option \<Rightarrow> sy_Collector option \<Rightarrow> Server" where
  "api_New cfg t ns hs wn ad sy =
     \<lparr>sv_cfg = cfg, sv_started = t, sv_netstats = ns, sv_hotspot = hs, sv_wan = wn, sv_admin = ad, sv_system = sy\<rparr>"

text \<open>
  What one request meets: the helper; the readings of the host name and the clock (for the
  timestamp and the uptime); for each lazy collector the clock at its unlocked check and
  what its refresh meets; the build; the open parts of the run-time.
\<close>

record api_env =
  av_helper :: helper
  av_hostname :: "go_error + string"
  av_now :: time
  av_since :: time
  av_hs :: "time \<times> hs_env"
  av_wn :: "time \<times> wn_env"
  av_ad :: "time \<times> ad_env"
  av_build :: build_info
  av_uni :: "string \<Rightarrow> string"
  av_oor :: "float64 \<Rightarrow> int"
  av_fmt :: "rat \<Rightarrow> string"

datatype collector_effect = HsEffect hs_effect | WnEffect wn_effect | AdEffect ad_effect

type_synonym api_effect = "collector_effect effect"

type_synonym api_handler = "(Server, collector_effect) handler"

definition av_quote :: "api_env \<Rightarrow> string \<Rightarrow> string" where
  "av_quote e = hp_quote (av_helper e)"

section \<open>Sections of the payload\<close>

definition error_text :: "api_env \<Rightarrow> go_error option \<Rightarrow> string" where
  "error_text e err = (case err of None \<Rightarrow> [] | Some x \<Rightarrow> err_text (av_quote e) x)"

definition interfaces_shown :: "ns_Collector \<Rightarrow> (string \<rightharpoonup> api_Interface)" where
  "interfaces_shown c = map_option (\<lambda>v. \<lparr>if_RxMbps = is_RxMbps v, if_TxMbps = is_TxMbps v,
     if_RxTotalBytes = is_RxTotalBytes v, if_TxTotalBytes = is_TxTotalBytes v, if_Up = is_Up v\<rparr>)
     \<circ> ns_Interfaces (ns_Snapshot_of c)"

definition interfacesFromNetstats :: "Server \<Rightarrow> (string \<rightharpoonup> api_Interface)" where
  "interfacesFromNetstats s = (case sv_netstats s of None \<Rightarrow> Map.empty | Some c \<Rightarrow> interfaces_shown c)"

definition api_client :: "Client \<Rightarrow> HotspotClient" where
  "api_client c = \<lparr>hc_MAC = cl_MAC c, hc_IP = cl_IP c, hc_Hostname = cl_Hostname c, hc_SignalDBm = cl_SignalDBm c,
     hc_ConnectedSeconds = cl_ConnectedSeconds c, hc_RxBytes = cl_RxBytes c, hc_TxBytes = cl_TxBytes c\<rparr>"

definition hotspot_shown :: "api_env \<Rightarrow> config \<Rightarrow> hs_Snapshot \<Rightarrow> api_Hotspot" where
  "hotspot_shown e cfg snap =
     (let clients = map api_client (hs_Clients snap) in
      \<lparr>ho_Interface = HotspotIf cfg, ho_ClientCount = length clients, ho_Clients = clients,
       ho_Error = error_text e (hs_Err snap)\<rparr>)"

definition hotspotFromCollector :: "api_env \<Rightarrow> Server \<Rightarrow> Server \<times> api_Hotspot \<times> api_effect list" where
  "hotspotFromCollector e s =
     (case sv_hotspot s of
        None \<Rightarrow>
          (s, \<lparr>ho_Interface = HotspotIf (sv_cfg s), ho_ClientCount = 0, ho_Clients = [], ho_Error = []\<rparr>, [])
      | Some c \<Rightarrow>
          (let ((c', effs), snap) = hs_Snapshot_of (av_uni e) (fst (av_hs e)) (snd (av_hs e)) c in
           (s\<lparr>sv_hotspot := Some c'\<rparr>, hotspot_shown e (sv_cfg s) snap, map (Collector \<circ> HsEffect) effs)))"

definition wan_shown :: "api_env \<Rightarrow> wn_Snapshot \<Rightarrow> api_WAN" where
  "wan_shown e snap = \<lparr>wa_Info = wn_Info snap, wa_Error = error_text e (wn_Err snap)\<rparr>"

definition wanFromCollector :: "api_env \<Rightarrow> Server \<Rightarrow> Server \<times> api_WAN \<times> api_effect list" where
  "wanFromCollector e s =
     (case sv_wan s of
        None \<Rightarrow> (s, \<lparr>wa_Info = blank_Info (WANIf (sv_cfg s)), wa_Error = []\<rparr>, [])
      | Some c \<Rightarrow>
          (let ((c', effs), snap) = wn_Snapshot_of (av_uni e) (av_oor e) (fst (av_wn e)) (snd (av_wn e)) c in
           (s\<lparr>sv_wan := Some c'\<rparr>, wan_shown e snap, map (Collector \<circ> WnEffect) effs)))"

definition admin_shown :: "api_env \<Rightarrow> ad_Snapshot \<Rightarrow> api_Admin" where
  "admin_shown e snap = \<lparr>am_Info = ad_Info snap, am_Error = error_text e (ad_Err snap)\<rparr>"

definition adminFromCollector :: "api_env \<Rightarrow> Server \<Rightarrow> Server \<times> api_Admin \<times> api_effect list" where
  "adminFromCollector e s =
     (case sv_admin s of
        None \<Rightarrow> (s, \<lparr>am_Info = new_ad_Info (AdminIf (sv_cfg s)), am_Error = []\<rparr>, [])
      | Some c \<Rightarrow>
          (let ((c', effs), snap) = ad_Snapshot_of (fst (av_ad e)) (snd (av_ad e)) c in
           (s\<lparr>sv_admin := Some c'\<rparr>, admin_shown e snap, map (Collector \<circ> AdEffect) effs)))"

definition system_shown :: "api_env \<Rightarrow> sy_Collector \<Rightarrow> api_System" where
  "system_shown e c = \<lparr>ss_Info = sy_Info (sy_Snapshot_of c), ss_Error = error_text e (sy_Err (sy_Snapshot_of c))\<rparr>"

definition systemFromCollector :: "api_env \<Rightarrow> Server \<Rightarrow> api_System" where
  "systemFromCollector e s =
     (case sv_system s of
        None \<Rightarrow> \<lparr>ss_Info = zero_Info, ss_Error = []\<rparr>
      | Some c \<Rightarrow> system_shown e c)"

text \<open>\<open>Time.Unix\<close>: whole seconds since 1970, which is so many after the zero \<open>Time\<close>.\<close>

definition unix_seconds :: "time \<Rightarrow> int" where
  "unix_seconds t = t div second - 62135596800"

text \<open>The meta section needs of the server only when it started.\<close>

definition request_meta :: "api_env \<Rightarrow> request \<Rightarrow> time \<Rightarrow> Meta" where
  "request_meta e rq started =
     \<lparr>me_Hostname = (case av_hostname e of Inl err \<Rightarrow> [] | Inr h \<Rightarrow> h),
      me_UptimeSeconds = f64_to_int (av_oor e) (duration_seconds (time_sub (av_since e) started)),
      me_Commit = Commit (av_build e), me_Dirty = IsDirty (av_build e), me_BuildTime = BuildTime (av_build e),
      me_Role = RoleFromContext rq\<rparr>"

definition meta_of :: "api_env \<Rightarrow> request \<Rightarrow> Server \<Rightarrow> Meta" where
  "meta_of e rq s = request_meta e rq (sv_started s)"

definition stats_of :: "api_env \<Rightarrow> request \<Rightarrow> Server \<Rightarrow> Server \<times> Stats \<times> api_effect list" where
  "stats_of e rq s =
     (let interfaces = interfacesFromNetstats s;
          (s, hotspot, effs1) = hotspotFromCollector e s;
          (s, wan, effs2) = wanFromCollector e s;
          (s, admin, effs3) = adminFromCollector e s in
      (s, \<lparr>st_Timestamp = unix_seconds (av_now e), st_Interfaces = interfaces, st_Hotspot = hotspot,
           st_WAN = wan, st_Admin = admin, st_System = systemFromCollector e s, st_Meta = meta_of e rq s\<rparr>,
       effs1 @ effs2 @ effs3))"

section \<open>Handlers\<close>

definition json_content_type :: "response \<Rightarrow> response" where
  "json_content_type r = header_set ''Content-Type'' ''application/json; charset=utf-8'' r"

definition h_Stats :: "api_env \<Rightarrow> api_handler" where
  "h_Stats e rq s =
     (let (s', stats, effs) = stats_of e rq s;
          r = header_set ''Cache-Control'' ''no-store'' (json_content_type new_response) in
      (s', case stats_json (av_fmt e) stats of
             None \<Rightarrow> r
           | Some j \<Rightarrow> write_body (json_indented 0 j @ [CHR 0x0A]) r, effs))"

definition h_Healthz :: "api_handler" where
  "h_Healthz rq s =
     (s, write_body (''ok'' @ [CHR 0x0A])
        (header_set ''Content-Type'' ''text/plain; charset=utf-8'' new_response), [])"

definition jsonOK :: "response \<Rightarrow> response" where
  "jsonOK r = write_body (''{'' @ [CHR 0x22] @ ''ok'' @ [CHR 0x22] @ '':true}'' @ [CHR 0x0A]) (json_content_type r)"

definition jsonErr :: "int \<Rightarrow> string \<Rightarrow> response \<Rightarrow> response" where
  "jsonErr status msg r =
     write_body (json_encode (JObj [(''error'', JStr msg), (''ok'', JStr ''false'')]))
       (write_header status (json_content_type r))"

text \<open>The shared checks: the error response, or \<open>None\<close> when all pass.\<close>

definition wifiAdminCheck :: "Server \<Rightarrow> request \<Rightarrow> string \<Rightarrow> response option" where
  "wifiAdminCheck s rq meth =
     (if rq_method rq \<noteq> meth then Some (http_error ''method not allowed'' 405 new_response)
      else if RoleFromContext rq \<noteq> ''admin'' then Some (http_error ''forbidden'' 403 new_response)
      else if AuthSocket (sv_cfg s) = [] then Some (http_error ''auth socket not configured'' 503 new_response)
      else None)"

definition network_json :: "wifiNetwork \<Rightarrow> json" where
  "network_json n = JObj [(''ssid'', JStr (wf_SSID n)), (''psk'', JStr (wf_PSK n))]"

definition h_WifiList :: "api_env \<Rightarrow> api_handler" where
  "h_WifiList e rq s =
     (if RoleFromContext rq \<noteq> ''admin'' then (s, http_error ''forbidden'' 403 new_response, [])
      else if AuthSocket (sv_cfg s) = [] then (s, http_error ''auth socket not configured'' 503 new_response, [])
      else
        (let (r, effs) = CallWifiList (av_helper e) (AuthSocket (sv_cfg s)) in
         case r of
           Inl err \<Rightarrow>
             (s, jsonErr 503 (err_text (av_quote e) err) new_response,
              effs @ [LogPrintf ''wifi list: %v'' [err_text (av_quote e) err]])
         | Inr networks \<Rightarrow>
             (s, write_body (json_encode (JObj [(''networks'', JArr (map network_json networks)), (''ok'', JBool True)]))
                   (json_content_type new_response), effs)))"

definition wifi_body_field :: "string \<Rightarrow> json \<Rightarrow> wifiNetwork \<Rightarrow> wifiNetwork option" where
  "wifi_body_field k v n =
     (if k = ''ssid'' then map_option (\<lambda>s. n\<lparr>wf_SSID := s\<rparr>) (decode_string v (wf_SSID n))
      else if k = ''psk'' then map_option (\<lambda>s. n\<lparr>wf_PSK := s\<rparr>) (decode_string v (wf_PSK n))
      else Some n)"

definition decode_wifi_body :: "string \<Rightarrow> wifiNetwork option" where
  "decode_wifi_body b =
     (case json_first b of None \<Rightarrow> None | Some v \<Rightarrow> decode_struct wifi_body_field v zero_wifiNetwork)"

definition h_WifiAdd :: "api_env \<Rightarrow> api_handler" where
  "h_WifiAdd e rq s =
     (case wifiAdminCheck s rq ''POST'' of
        Some resp \<Rightarrow> (s, resp, [])
      | None \<Rightarrow>
          (case decode_wifi_body (rq_body rq) of
             None \<Rightarrow> (s, jsonErr 400 ''invalid JSON body'' new_response, [])
           | Some body \<Rightarrow>
               (let log0 = LogPrintf ''wifi add: ssid=%q requested by role=%q'' [wf_SSID body, RoleFromContext rq];
                    (r, effs) = CallWifiAdd (av_helper e) (AuthSocket (sv_cfg s)) (wf_SSID body) (wf_PSK body) in
                case r of
                  Some err \<Rightarrow>
                    (s, jsonErr 400 (err_text (av_quote e) err) new_response,
                     log0 # effs @ [LogPrintf ''wifi add: failed ssid=%q: %v'' [wf_SSID body, err_text (av_quote e) err]])
                | None \<Rightarrow>
                    (s, jsonOK new_response, log0 # effs @ [LogPrintf ''wifi add: ok ssid=%q'' [wf_SSID body]]))))"

definition h_WifiNetworks :: "api_env \<Rightarrow> api_handler" where
  "h_WifiNetworks e rq s =
     (if rq_method rq = ''GET'' then h_WifiList e rq s
      else if rq_method rq = ''POST'' then h_WifiAdd e rq s
      else (s, http_error ''method not allowed'' 405 new_response, []))"

definition h_WifiNetwork :: "api_env \<Rightarrow> api_handler" where
  "h_WifiNetwork e rq s =
     (case wifiAdminCheck s rq ''DELETE'' of
        Some resp \<Rightarrow> (s, resp, [])
      | None \<Rightarrow>
          (let ssid = trim_prefix (rq_path rq) ''/api/wifi/networks/'' in
           if ssid = [] then (s, jsonErr 400 ''SSID required in path'' new_response, [])
           else
             (let log0 = LogPrintf ''wifi remove: ssid=%q requested by role=%q'' [ssid, RoleFromContext rq];
                  (r, effs) = CallWifiRemove (av_helper e) (AuthSocket (sv_cfg s)) ssid in
              case r of
                Some err \<Rightarrow>
                  (s, jsonErr 400 (err_text (av_quote e) err) new_response,
                   log0 # effs @ [LogPrintf ''wifi remove: failed ssid=%q: %v'' [ssid, err_text (av_quote e) err]])
              | None \<Rightarrow>
                  (s, jsonOK new_response, log0 # effs @ [LogPrintf ''wifi remove: ok ssid=%q'' [ssid]]))))"

definition h_WifiReload :: "api_env \<Rightarrow> api_handler" where
  "h_WifiReload e rq s =
     (case wifiAdminCheck s rq ''POST'' of
        Some resp \<Rightarrow> (s, resp, [])
      | None \<Rightarrow>
          (let log0 = LogPrintf ''wifi reload: requested by role=%q'' [RoleFromContext rq];
               (r, effs) = CallWifiReload (av_helper e) (AuthSocket (sv_cfg s)) in
           case r of
             Some err \<Rightarrow>
               (s, jsonErr 503 (err_text (av_quote e) err) new_response,
                log0 # effs @ [LogPrintf ''wifi reload: failed: %v'' [err_text (av_quote e) err]])
           | None \<Rightarrow> (s, jsonOK new_response, log0 # effs @ [LogPrintf ''wifi reload: ok'' []])))"

text \<open>The dash of two log lines, U+2014.\<close>

definition em_dash :: string where
  "em_dash = encode_rune 8212"

definition h_WanOp :: "string \<Rightarrow> api_env \<Rightarrow> api_handler" where
  "h_WanOp op e rq s =
     (if rq_method rq \<noteq> ''POST'' then (s, http_error ''method not allowed'' 405 new_response, [])
      else
        (let role = RoleFromContext rq;
             log0 = LogPrintf ''wan op: %s requested by role=%q'' [op, role] in
         if role \<noteq> ''admin'' then
           (s, http_error ''forbidden'' 403 new_response,
            [log0, LogPrintf (''wan op: %s denied '' @ em_dash @ '' role=%q is not admin'') [op, role]])
         else if AuthSocket (sv_cfg s) = [] then
           (s, http_error ''auth socket not configured'' 503 new_response,
            [log0, LogPrintf (''wan op: %s denied '' @ em_dash @ '' AUTH_SOCKET not configured'') [op]])
         else
           (let (r, effs) = CallOp (av_helper e) (AuthSocket (sv_cfg s)) op in
            case r of
              Inl err \<Rightarrow>
                (s, http_error ''helper unavailable'' 503 new_response,
                 log0 # effs @ [LogPrintf ''wan op: %s socket error: %v'' [op, err_text (av_quote e) err]])
            | Inr (ok, errMsg) \<Rightarrow>
                if ok then (s, jsonOK new_response, log0 # effs @ [LogPrintf ''wan op: %s succeeded'' [op]])
                else (s, jsonErr 500 errMsg new_response,
                  log0 # effs @ [LogPrintf ''wan op: %s failed: %s'' [op, errMsg]]))))"

section \<open>What reaches the helper\<close>

text \<open>The effects that send, and what they send.\<close>

definition sends :: "'x effect list \<Rightarrow> (string \<times> string) set" where
  "sends effs = {(sock, bytes). SocketSend sock bytes \<in> set effs}"

lemma sends_simps [simp]:
  "sends [] = {}"
  "sends (LogPrintf f as # effs) = sends effs"
  "sends (Collector x # effs) = sends effs"
  "sends (SocketSend sock b # effs) = insert (sock, b) (sends effs)"
  "sends (xs @ ys) = sends xs \<union> sends ys"
  by (auto simp: sends_def)

definition wire :: "authRequest \<Rightarrow> string" where
  "wire r = json_encode (authRequest_json r)"

lemma sends_callSocket:
  "callSocket hp sp req = (r, effs) \<Longrightarrow> x \<in> sends effs \<Longrightarrow> x = (sp, wire req)"
  by (auto simp: callSocket_def wire_def Let_def split: helper_outcome.splits option.splits)

lemma sends_CallOp:
  "CallOp hp sp op = (r, effs) \<Longrightarrow> x \<in> sends effs \<Longrightarrow> x = (sp, wire (op_request op))"
  by (auto simp: CallOp_def Let_def split: prod.splits dest: sends_callSocket)

lemma sends_CallWifiList:
  "CallWifiList hp sp = (r, effs) \<Longrightarrow> x \<in> sends effs \<Longrightarrow> x = (sp, wire (op_request ''wifi_list''))"
  by (auto simp: CallWifiList_def Let_def split: prod.splits sum.splits if_splits dest: sends_callSocket)

lemma sends_checked_call:
  "checked_call hp sp req = (r, effs) \<Longrightarrow> x \<in> sends effs \<Longrightarrow> x = (sp, wire req)"
  by (auto simp: checked_call_def Let_def split: prod.splits dest: sends_callSocket)

lemma sends_CallWifiAdd:
  "CallWifiAdd hp sp ssid psk = (r, effs) \<Longrightarrow> x \<in> sends effs \<Longrightarrow>
     x = (sp, wire ((op_request ''wifi_add'')\<lparr>aq_SSID := ssid, aq_PSK := psk\<rparr>))"
  by (auto simp: CallWifiAdd_def Let_def split: prod.splits dest: sends_checked_call)

lemma sends_CallWifiRemove:
  "CallWifiRemove hp sp ssid = (r, effs) \<Longrightarrow> x \<in> sends effs \<Longrightarrow>
     x = (sp, wire ((op_request ''wifi_remove'')\<lparr>aq_SSID := ssid\<rparr>))"
  by (auto simp: CallWifiRemove_def Let_def split: prod.splits dest: sends_checked_call)

lemma sends_CallWifiReload:
  "CallWifiReload hp sp = (r, effs) \<Longrightarrow> x \<in> sends effs \<Longrightarrow> x = (sp, wire (op_request ''wifi_reload''))"
  by (auto simp: CallWifiReload_def Let_def split: prod.splits dest: sends_checked_call)

lemma wifiAdminCheck_None:
  "wifiAdminCheck s rq meth = None \<longleftrightarrow>
     rq_method rq = meth \<and> RoleFromContext rq = ''admin'' \<and> AuthSocket (sv_cfg s) \<noteq> []"
  by (simp add: wifiAdminCheck_def)

lemma wifiAdminCheck_status:
  "wifiAdminCheck s rq meth = Some resp \<Longrightarrow> rs_status resp =
     (if rq_method rq \<noteq> meth then 405 else if RoleFromContext rq \<noteq> ''admin'' then 403 else 503)"
  by (auto simp: wifiAdminCheck_def split: if_splits)

text \<open>
  A request relayed to the helper, as it decodes there, and how its outcome is answered: 200
  when the helper accepts, and 400 when it cannot be reached, cannot be sent the request,
  replies what does not decode, or refuses.
\<close>

definition relayed :: "helper \<Rightarrow> string \<Rightarrow> authRequest \<Rightarrow> response \<Rightarrow> 'x effect list \<Rightarrow> bool" where
  "relayed hp sock r resp effs \<longleftrightarrow> (\<exists>b. decode_request b = Some r \<and>
     (case hp_call hp sock b of
        DialFailed err \<Rightarrow> sends effs = {} \<and> rs_status resp = 400
      | SendFailed err \<Rightarrow> sends effs = {(sock, b)} \<and> rs_status resp = 400
      | Replied reply \<Rightarrow> sends effs = {(sock, b)} \<and> rs_status resp =
          (case decode_response reply of None \<Rightarrow> 400 | Some reply \<Rightarrow> if ar_Ok reply then 200 else 400)))"

lemma checked_call_relays:
  assumes "checked_call hp sock req = (r, effs)" and "rs_status resp = (if r = None then 200 else 400)"
    and "sends effs' = sends effs"
  shows "relayed hp sock (request_utf8 req) resp effs'"
proof -
  have d: "decode_request (wire req) = Some (request_utf8 req)" unfolding wire_def by (rule decode_request_encode)
  have w: "json_encode (authRequest_json req) = wire req" by (simp add: wire_def)
  note call = assms(1) [unfolded checked_call_def callSocket_def w Let_def]
  show ?thesis
  proof (cases "hp_call hp sock (wire req)")
    case (Replied reply)
    have c: "r = (case decode_response reply of None \<Rightarrow> Some (Wrap ''decode op response: '' (hp_decode_error hp reply))
        | Some resp \<Rightarrow> if \<not> ar_Ok resp then Some (NewError (ar_Error resp)) else None)" "sends effs = {(sock, wire req)}"
      using call unfolding Replied by (auto split: option.splits if_splits)
    show ?thesis unfolding relayed_def
      by (rule exI [of _ "wire req"]) (use d c assms(2,3) in \<open>simp add: Replied split: option.split\<close>)
  next
    case (DialFailed err)
    have c: "r \<noteq> None" "sends effs = {}" using call unfolding DialFailed by auto
    show ?thesis unfolding relayed_def
      by (rule exI [of _ "wire req"]) (use d c assms(2,3) in \<open>simp add: DialFailed\<close>)
  next
    case (SendFailed err)
    have c: "r \<noteq> None" "sends effs = {(sock, wire req)}" using call unfolding SendFailed by auto
    show ?thesis unfolding relayed_def
      by (rule exI [of _ "wire req"]) (use d c assms(2,3) in \<open>simp add: SendFailed\<close>)
  qed
qed

text \<open>The privileged endpoints, and the request that each may send for a given request.\<close>

datatype endpoint = EWanOp string | EWifiNetworks | EWifiNetwork | EWifiReload

fun privileged :: "endpoint \<Rightarrow> api_env \<Rightarrow> api_handler" where
  "privileged (EWanOp op) = h_WanOp op"
| "privileged EWifiNetworks = h_WifiNetworks"
| "privileged EWifiNetwork = h_WifiNetwork"
| "privileged EWifiReload = h_WifiReload"

fun intended :: "endpoint \<Rightarrow> request \<Rightarrow> authRequest option" where
  "intended (EWanOp op) rq = (if rq_method rq = ''POST'' then Some (op_request op) else None)"
| "intended EWifiNetworks rq =
     (if rq_method rq = ''GET'' then Some (op_request ''wifi_list'')
      else if rq_method rq = ''POST'' then
        map_option (\<lambda>n. (op_request ''wifi_add'')\<lparr>aq_SSID := wf_SSID n, aq_PSK := wf_PSK n\<rparr>)
          (decode_wifi_body (rq_body rq))
      else None)"
| "intended EWifiNetwork rq =
     (let ssid = trim_prefix (rq_path rq) ''/api/wifi/networks/'' in
      if rq_method rq = ''DELETE'' \<and> ssid \<noteq> [] then Some ((op_request ''wifi_remove'')\<lparr>aq_SSID := ssid\<rparr>) else None)"
| "intended EWifiReload rq = (if rq_method rq = ''POST'' then Some (op_request ''wifi_reload'') else None)"

lemma sends_WanOp:
  "(sock, b) \<in> sends (snd (snd (h_WanOp op e rq s))) \<Longrightarrow>
     RoleFromContext rq = ''admin'' \<and> AuthSocket (sv_cfg s) \<noteq> [] \<and> sock = AuthSocket (sv_cfg s) \<and>
     rq_method rq = ''POST'' \<and> b = wire (op_request op)"
  by (auto simp: h_WanOp_def Let_def split: if_splits prod.splits sum.splits dest!: sends_CallOp)

lemma sends_WifiList:
  "(sock, b) \<in> sends (snd (snd (h_WifiList e rq s))) \<Longrightarrow>
     RoleFromContext rq = ''admin'' \<and> AuthSocket (sv_cfg s) \<noteq> [] \<and> sock = AuthSocket (sv_cfg s) \<and>
     b = wire (op_request ''wifi_list'')"
  by (auto simp: h_WifiList_def Let_def split: if_splits prod.splits sum.splits dest!: sends_CallWifiList)

lemma sends_WifiAdd:
  assumes "(sock, b) \<in> sends (snd (snd (h_WifiAdd e rq s)))"
  shows "RoleFromContext rq = ''admin'' \<and> AuthSocket (sv_cfg s) \<noteq> [] \<and> sock = AuthSocket (sv_cfg s) \<and>
    (\<exists>n. decode_wifi_body (rq_body rq) = Some n \<and>
       b = wire ((op_request ''wifi_add'')\<lparr>aq_SSID := wf_SSID n, aq_PSK := wf_PSK n\<rparr>))"
proof -
  have ok: "wifiAdminCheck s rq ''POST'' = None"
    using assms by (cases "wifiAdminCheck s rq ''POST''") (simp_all add: h_WifiAdd_def)
  obtain n where n: "decode_wifi_body (rq_body rq) = Some n"
    using assms ok by (cases "decode_wifi_body (rq_body rq)") (simp_all add: h_WifiAdd_def)
  show ?thesis
    using assms ok n
    by (auto simp: h_WifiAdd_def Let_def wifiAdminCheck_None split: prod.splits option.splits dest!: sends_CallWifiAdd)
qed

lemma sends_WifiNetwork:
  assumes "(sock, b) \<in> sends (snd (snd (h_WifiNetwork e rq s)))"
  shows "RoleFromContext rq = ''admin'' \<and> AuthSocket (sv_cfg s) \<noteq> [] \<and> sock = AuthSocket (sv_cfg s) \<and>
    rq_method rq = ''DELETE'' \<and> trim_prefix (rq_path rq) ''/api/wifi/networks/'' \<noteq> [] \<and>
    b = wire ((op_request ''wifi_remove'')\<lparr>aq_SSID := trim_prefix (rq_path rq) ''/api/wifi/networks/''\<rparr>)"
proof -
  have ok: "wifiAdminCheck s rq ''DELETE'' = None"
    using assms by (cases "wifiAdminCheck s rq ''DELETE''") (simp_all add: h_WifiNetwork_def)
  show ?thesis
    using assms ok
    by (auto simp: h_WifiNetwork_def Let_def wifiAdminCheck_None split: prod.splits option.splits if_splits
        dest!: sends_CallWifiRemove)
qed

lemma sends_WifiReload:
  assumes "(sock, b) \<in> sends (snd (snd (h_WifiReload e rq s)))"
  shows "RoleFromContext rq = ''admin'' \<and> AuthSocket (sv_cfg s) \<noteq> [] \<and> sock = AuthSocket (sv_cfg s) \<and>
    rq_method rq = ''POST'' \<and> b = wire (op_request ''wifi_reload'')"
proof -
  have ok: "wifiAdminCheck s rq ''POST'' = None"
    using assms by (cases "wifiAdminCheck s rq ''POST''") (simp_all add: h_WifiReload_def)
  show ?thesis
    using assms ok
    by (auto simp: h_WifiReload_def Let_def wifiAdminCheck_None split: prod.splits option.splits
        dest!: sends_CallWifiReload)
qed

lemma privileged_sends:
  assumes "(sock, b) \<in> sends (snd (snd (privileged p e rq s)))"
  shows "RoleFromContext rq = ''admin'' \<and> AuthSocket (sv_cfg s) \<noteq> [] \<and> sock = AuthSocket (sv_cfg s) \<and>
    (\<exists>r. intended p rq = Some r \<and> b = wire r)"
proof (cases p)
  case (EWanOp op)
  with assms show ?thesis by (auto dest: sends_WanOp)
next
  case EWifiNetworks
  with assms show ?thesis
    by (auto simp: h_WifiNetworks_def split: if_splits dest!: sends_WifiList sends_WifiAdd)
next
  case EWifiNetwork
  with assms show ?thesis by (auto simp: Let_def dest!: sends_WifiNetwork)
next
  case EWifiReload
  with assms show ?thesis by (auto dest!: sends_WifiReload)
qed

lemma privileged_refuses:
  assumes "RoleFromContext rq \<noteq> ''admin''"
  shows "fst (privileged p e rq s) = s \<and> rs_status (fst (snd (privileged p e rq s))) \<in> {403, 405}"
proof (cases p)
  case (EWanOp op)
  then show ?thesis using assms by (simp add: h_WanOp_def Let_def)
next
  case EWifiNetworks
  then show ?thesis
    using assms by (auto simp: h_WifiNetworks_def h_WifiList_def h_WifiAdd_def wifiAdminCheck_def)
next
  case EWifiNetwork
  then show ?thesis using assms by (auto simp: h_WifiNetwork_def wifiAdminCheck_def)
next
  case EWifiReload
  then show ?thesis using assms by (auto simp: h_WifiReload_def wifiAdminCheck_def)
qed

section \<open>When the payload has no encoding\<close>

lemma all_members_None: "all_members ms = None \<longleftrightarrow> (\<exists>m \<in> set ms. snd m = None)"
  by (induction ms rule: all_members.induct) (auto split: option.splits)

lemma json_obj_None: "json_obj ms = None \<longleftrightarrow> (\<exists>m \<in> set ms. snd m = None)"
  by (simp add: json_obj_def all_members_None)

lemma json_leaf_None [simp]:
  "json_str v \<noteq> None" "json_u64 u \<noteq> None" "json_int i \<noteq> None" "json_bool b \<noteq> None"
  "m \<in> set (error_member err) \<Longrightarrow> snd m \<noteq> None"
  by (auto simp: json_str_def json_u64_def json_int_def json_bool_def error_member_def split: if_splits)

lemma json_f64_None [simp]: "json_f64 fmt x = None \<longleftrightarrow> \<not> f64_finite x"
  by (cases x) (simp_all add: json_f64_def f64_finite_def)

lemma error_member_None [simp]: "(\<exists>m \<in> set (error_member err). snd m = None) \<longleftrightarrow> False"
  using json_leaf_None(5) by blast

lemma those_None: "those (map f xs) = None \<longleftrightarrow> (\<exists>x \<in> set xs. f x = None)"
  by (induction xs) (auto split: option.splits)

lemma section_json_None:
  "interface_json fmt i = None \<longleftrightarrow> \<not> (f64_finite (if_RxMbps i) \<and> f64_finite (if_TxMbps i))"
  "hotspot_json h \<noteq> None"
  "wan_json fmt w = None \<longleftrightarrow> \<not> f64_finite (wi_TxBitrateMbps (wa_Info w))"
  "admin_json a \<noteq> None"
  "system_json fmt y = None \<longleftrightarrow> \<not> (f64_finite (Load1m (ss_Info y)) \<and> f64_finite (Load5m (ss_Info y)) \<and>
     f64_finite (Load15m (ss_Info y)) \<and> f64_finite (TempCelsius (ss_Info y)))"
  "meta_json m \<noteq> None"
proof -
  have "client_json c \<noteq> None" for c by (simp add: client_json_def json_obj_None)
  then have "those (map client_json cs) \<noteq> None" for cs by (simp add: those_None)
  then show "hotspot_json h \<noteq> None"
    by (simp add: hotspot_json_def json_obj_None bex_Un)
qed (auto simp: interface_json_def wan_json_def admin_json_def system_json_def meta_json_def json_obj_None
    bex_Un Let_def)

lemma interfaces_json_None:
  assumes "finite (dom m)"
  shows "interfaces_json fmt m = None \<longleftrightarrow>
    (\<exists>k i. m k = Some i \<and> \<not> (f64_finite (if_RxMbps i) \<and> f64_finite (if_TxMbps i)))"
proof -
  have "interfaces_json fmt m = None \<longleftrightarrow>
      (\<exists>k \<in> dom m. (case m k of None \<Rightarrow> None | Some i \<Rightarrow> interface_json fmt i) = None)"
    by (simp add: interfaces_json_def json_obj_None assms)
  also have "\<dots> \<longleftrightarrow> (\<exists>k i. m k = Some i \<and> interface_json fmt i = None)"
    unfolding Bex_def dom_def by (rule ex_cong1) (auto split: option.split)
  finally show ?thesis by (simp add: section_json_None(1))
qed

lemma stats_json_None:
  "stats_json fmt st = None \<longleftrightarrow>
     interfaces_json fmt (st_Interfaces st) = None \<or> wan_json fmt (st_WAN st) = None \<or>
     system_json fmt (st_System st) = None"
  by (auto simp: stats_json_def json_obj_None section_json_None(2,4,6))

lemma is_rate_finite: "is_rate x \<Longrightarrow> f64_finite x"
  by (auto simp: is_rate_def f64_finite_def)

lemma tick_temp_finite: "f64_finite (TempCelsius (tick_info e))"
  by (auto simp: tick_parts read_with_def f64_finite_def celsius_value
      split: sum.split dest!: parseTempMillideg_cases parse_int64_bound)

lemma sy_Run_info: "\<exists>e'. sy_Info (sy_snap (fst (sy_Run e es c))) = tick_info e'"
proof (cases "es = []")
  case True
  then show ?thesis by (auto simp: sy_Run_def sy_tick_eq)
next
  case False
  then show ?thesis
    using sy_loop_snap [of es False "sy_tick e c"] by (auto simp: sy_Run_def sy_tick_eq)
qed

lemma run_interfaces:
  assumes "sv_netstats s = Some (ns_Run e es c)"
  shows "interfaces_json fmt (interfacesFromNetstats s) \<noteq> None"
proof -
  obtain e' c' where r: "ns_Run e es c = ns_tick e' c'" using ns_Run_ends_in_tick by blast
  have f: "interfacesFromNetstats s = map_option (\<lambda>v. \<lparr>if_RxMbps = is_RxMbps v, if_TxMbps = is_TxMbps v,
      if_RxTotalBytes = is_RxTotalBytes v, if_TxTotalBytes = is_TxTotalBytes v, if_Up = is_Up v\<rparr>)
    \<circ> ns_Interfaces (ns_snap (ns_tick e' c'))"
    using assms by (simp add: interfacesFromNetstats_def interfaces_shown_def ns_Snapshot_of_def r)
  then have "dom (interfacesFromNetstats s) = set (ns_ifaces c')"
    using dom_tick [of e' c'] by (auto simp: dom_def)
  then have fin: "finite (dom (interfacesFromNetstats s))" by simp
  show ?thesis
    using iface_stats_rates [of e' "ns_prev c'" "current_samples e' (ns_ifaces c')"]
    by (simp only: interfaces_json_None [OF fin])
      (auto simp: f ns_tick_interfaces is_rate_finite split: if_splits)
qed

lemma h_Stats_parts:
  "rs_status (fst (snd (h_Stats e rq s))) = 200"
  "rs_body (fst (snd (h_Stats e rq s))) = [] \<longleftrightarrow> stats_json (av_fmt e) (fst (snd (stats_of e rq s))) = None"
  by (cases "stats_of e rq s"; simp add: h_Stats_def json_content_type_def Let_def split: option.split)+

lemma FromCollector_system:
  "sv_system (fst (hotspotFromCollector e s)) = sv_system s"
  "sv_system (fst (wanFromCollector e s)) = sv_system s"
  "sv_system (fst (adminFromCollector e s)) = sv_system s"
  by (simp_all add: hotspotFromCollector_def wanFromCollector_def adminFromCollector_def Let_def
      split: option.split prod.split)

lemma stats_of_sections:
  "st_Interfaces (fst (snd (stats_of e rq s))) = interfacesFromNetstats s"
  "st_System (fst (snd (stats_of e rq s))) = systemFromCollector e s"
proof -
  obtain s1 h e1 where 1: "hotspotFromCollector e s = (s1, h, e1)" by (cases "hotspotFromCollector e s")
  obtain s2 w e2 where 2: "wanFromCollector e s1 = (s2, w, e2)" by (cases "wanFromCollector e s1")
  obtain s3 a e3 where 3: "adminFromCollector e s2 = (s3, a, e3)" by (cases "adminFromCollector e s2")
  have "sv_system s3 = sv_system s"
    using FromCollector_system(1) [of e s] FromCollector_system(2) [of e s1] FromCollector_system(3) [of e s2]
    by (simp add: 1 2 3)
  then show "st_Interfaces (fst (snd (stats_of e rq s))) = interfacesFromNetstats s"
    "st_System (fst (snd (stats_of e rq s))) = systemFromCollector e s"
    by (simp_all add: stats_of_def 1 2 3 systemFromCollector_def system_shown_def)
qed

section \<open>Properties\<close>

text \<open>
  C5: a privileged endpoint sends something to the helper only for a request whose context
  carries the role \<open>admin\<close>, only to the configured socket, and only the operation of
  that endpoint with the arguments of that request, as its bytes decode at the helper.
\<close>

theorem api_privileged_sends:
  assumes "(sock, b) \<in> sends (snd (snd (privileged p e rq s)))"
  shows "RoleFromContext rq = ''admin'' \<and> sock = AuthSocket (sv_cfg s) \<and> sock \<noteq> [] \<and>
    (\<exists>r. intended p rq = Some r \<and> decode_request b = Some (request_utf8 r))"
  using privileged_sends [OF assms] by (auto simp: wire_def decode_request_encode)

definition api_sample_env :: api_env where
  "api_sample_env = \<lparr>av_helper = sample_helper, av_hostname = Inr ''pi'', av_now = 0, av_since = 0,
     av_hs = (0, hs_sample_env 0), av_wn = (0, wn_sample_env 0), av_ad = (0, ad_sample_env 0),
     av_build = default_build_info, av_uni = id, av_oor = (\<lambda>x. 0), av_fmt = (\<lambda>r. ''0'')\<rparr>"

definition api_sample_server :: Server where
  "api_sample_server = api_New ((Load id Map.empty)\<lparr>AuthSocket := ''/s''\<rparr>) 0 None None None None None"

definition admin_post :: "string \<Rightarrow> string \<Rightarrow> request" where
  "admin_post path body = \<lparr>rq_method = ''POST'', rq_path = path, rq_escaped = path, rq_authorization = [], rq_body = body,
     rq_role = Some ''admin'', rq_header = (\<lambda>k. [])\<rparr>"

lemma sample_wan_up:
  "(''/s'', wire (op_request ''wan_up'')) \<in>
     sends (snd (snd (privileged (EWanOp ''wan_up'') api_sample_env (admin_post ''/api/wan/up'' []) api_sample_server)))"
  by (simp add: h_WanOp_def admin_post_def RoleFromContext_def api_sample_server_def api_New_def CallOp_def
      callSocket_def api_sample_env_def sample_helper_def sample_response wire_def Let_def)

lemma api_privileged_sends_witness:
  "\<exists>r. intended (EWanOp ''wan_up'') (admin_post ''/api/wan/up'' []) = Some r \<and>
     decode_request (wire (op_request ''wan_up'')) = Some (request_utf8 r)"
  using api_privileged_sends [OF sample_wan_up] by blast

text \<open>
  For any other role a privileged endpoint changes nothing, sends nothing and answers 403,
  or 405 when the method is wrong too.
\<close>

theorem api_privileged_refuses:
  assumes "RoleFromContext rq \<noteq> ''admin''"
  shows "fst (privileged p e rq s) = s \<and> rs_status (fst (snd (privileged p e rq s))) \<in> {403, 405} \<and>
    sends (snd (snd (privileged p e rq s))) = {}"
  using privileged_refuses [OF assms] privileged_sends assms by fastforce

lemma api_privileged_refuses_witness:
  "sends (snd (snd (privileged EWifiReload api_sample_env
     ((admin_post ''/api/wifi/reload'' [])\<lparr>rq_role := Some ''readonly''\<rparr>) api_sample_server))) = {}"
proof -
  have "RoleFromContext ((admin_post ''/api/wifi/reload'' [])\<lparr>rq_role := Some ''readonly''\<rparr>) \<noteq> ''admin''"
    by (simp add: RoleFromContext_def)
  from api_privileged_refuses [OF this] show ?thesis by blast
qed

text \<open>
  The answer of \<open>/api/wan/up\<close> and \<open>/api/wan/down\<close> to an administrator: 200
  when the helper reports success, 500 with its error text when it reports failure, 503 when
  it cannot be reached or its reply does not decode.
\<close>

theorem api_wan_op_outcomes:
  assumes "rq_method rq = ''POST''" and "RoleFromContext rq = ''admin''" and "AuthSocket (sv_cfg s) \<noteq> []"
  shows "fst (h_WanOp op e rq s) = s \<and> fst (snd (h_WanOp op e rq s)) =
    (case hp_call (av_helper e) (AuthSocket (sv_cfg s)) (wire (op_request op)) of
       Replied reply \<Rightarrow>
         (case decode_response reply of
            None \<Rightarrow> http_error ''helper unavailable'' 503 new_response
          | Some resp \<Rightarrow> if ar_Ok resp then jsonOK new_response else jsonErr 500 (ar_Error resp) new_response)
     | _ \<Rightarrow> http_error ''helper unavailable'' 503 new_response)"
  using assms
  by (simp add: h_WanOp_def CallOp_def callSocket_def wire_def Let_def split: helper_outcome.split option.split)

lemma api_wan_op_outcomes_witness:
  "rs_status (fst (snd (h_WanOp ''wan_up'' api_sample_env (admin_post ''/api/wan/up'' []) api_sample_server))) = 200"
proof -
  have "rq_method (admin_post ''/api/wan/up'' []) = ''POST''" "RoleFromContext (admin_post ''/api/wan/up'' []) = ''admin''"
    "AuthSocket (sv_cfg api_sample_server) \<noteq> []"
    by (simp_all add: admin_post_def RoleFromContext_def api_sample_server_def api_New_def)
  from api_wan_op_outcomes [OF this, of "''wan_up''" api_sample_env] show ?thesis
    by (simp add: api_sample_env_def sample_helper_def sample_response jsonOK_def json_content_type_def)
qed

text \<open>The members of a document that the body's struct does not have change nothing.\<close>

definition wifi_members :: "(string \<times> json) list \<Rightarrow> (string \<times> json) list" where
  "wifi_members ms = filter (\<lambda>m. fst m \<in> {''ssid'', ''psk''}) (map (\<lambda>(k, v). (fold_name k, v)) ms)"

lemma decode_wifi_members:
  "decode_members wifi_body_field ms r =
     fold (\<lambda>(k, v) r. Option.bind r (wifi_body_field k v)) (wifi_members ms) (Some r)"
proof (induction ms arbitrary: r)
  case (Cons m ms)
  have none: "fold (\<lambda>(k, v) r. Option.bind r (wifi_body_field k v)) ns None = None" for ns
    by (induction ns) auto
  obtain k v where m: "m = (k, v)" by (cases m)
  have "wifi_body_field (fold_name k) v r = Some r" if "fold_name k \<notin> {''ssid'', ''psk''}"
    using that by (simp add: wifi_body_field_def)
  then show ?case using Cons none by (auto simp: m wifi_members_def split: option.split)
qed (simp add: wifi_members_def)

text \<open>
  C37: an administrator's POST whose body starts with a JSON object of an SSID and a passphrase,
  in either order and any spelling, among members of other names, is relayed to the helper:
  as \<open>wifi_add\<close> with exactly these two as arguments, whatever characters they contain
  (ill-formed UTF-8 is replaced); nothing else is sent, the server stays as it is, and the
  answer is 200 if the helper accepts and 400 in every other case, the unreachable helper
  included.
\<close>

theorem api_wifi_add_end_to_end:
  assumes "rq_method rq = ''POST''" and "RoleFromContext rq = ''admin''" and "AuthSocket (sv_cfg s) \<noteq> []"
    and "json_first (rq_body rq) = Some (JObj ms)"
    and "wifi_members ms \<in> {[(''ssid'', JStr ssid), (''psk'', JStr psk)], [(''psk'', JStr psk), (''ssid'', JStr ssid)]}"
  shows "case h_WifiNetworks e rq s of (s', resp, effs) \<Rightarrow> s' = s \<and>
    relayed (av_helper e) (AuthSocket (sv_cfg s))
      ((op_request ''wifi_add'')\<lparr>aq_SSID := to_utf8 ssid, aq_PSK := to_utf8 psk\<rparr>) resp effs"
proof -
  have body: "decode_wifi_body (rq_body rq) = Some \<lparr>wf_SSID = ssid, wf_PSK = psk\<rparr>"
    using assms(4,5)
    by (auto simp: decode_wifi_body_def decode_wifi_members wifi_body_field_def zero_wifiNetwork_def)
  have ok: "wifiAdminCheck s rq ''POST'' = None" using assms(1-3) by (simp add: wifiAdminCheck_def)
  let ?r = "(op_request ''wifi_add'')\<lparr>aq_SSID := ssid, aq_PSK := psk\<rparr>"
  obtain r effs where c: "checked_call (av_helper e) (AuthSocket (sv_cfg s)) ?r = (r, effs :: api_effect list)"
    by fastforce
  have "to_utf8 ''wifi_add'' = ''wifi_add''" by code_simp
  then have u: "request_utf8 ?r = (op_request ''wifi_add'')\<lparr>aq_SSID := to_utf8 ssid, aq_PSK := to_utf8 psk\<rparr>"
    by (simp add: request_utf8_def op_request_def)
  show ?thesis
    using assms(1) ok body
    by (auto intro!: checked_call_relays [OF c, unfolded u] simp: h_WifiNetworks_def h_WifiAdd_def CallWifiAdd_def c jsonOK_def jsonErr_def json_content_type_def
        Let_def split: option.split)
qed

lemma api_wifi_add_end_to_end_witness:
  "rs_status (fst (snd (h_WifiNetworks api_sample_env
     (admin_post ''/api/wifi/networks'' (json_encode (JObj [(''psk'', JStr ''k''), (''x'', JNull), (''ssid'', JStr ''a}'')])))
     api_sample_server))) = 200"
proof -
  let ?doc = "JObj [(''psk'', JStr ''k''), (''x'', JNull), (''ssid'', JStr ''a}'')]"
  let ?rq = "admin_post ''/api/wifi/networks'' (json_encode ?doc)"
  have "json_first (json_encode ?doc) = Some (json_utf8 ?doc)"
    by (rule json_first_encode) (simp_all add: max_depth_def)
  moreover have "json_utf8 ?doc = ?doc" by code_simp
  ultimately have j: "json_first (rq_body ?rq) = Some ?doc" by (simp add: admin_post_def)
  have m: "wifi_members [(''psk'', JStr ''k''), (''x'', JNull), (''ssid'', JStr ''a}'')] \<in>
      {[(''ssid'', JStr ''a}''), (''psk'', JStr ''k'')], [(''psk'', JStr ''k''), (''ssid'', JStr ''a}'')]}"
    by code_simp
  have "rq_method ?rq = ''POST''" "RoleFromContext ?rq = ''admin''" "AuthSocket (sv_cfg api_sample_server) \<noteq> []"
    by (simp_all add: admin_post_def RoleFromContext_def api_sample_server_def api_New_def)
  from api_wifi_add_end_to_end [OF this j m, of api_sample_env] show ?thesis
    by (auto simp: relayed_def api_sample_env_def sample_helper_def sample_response)
qed

text \<open>
  \<open>/api/stats\<close> always answers 200, and its body is empty exactly when a load average
  or the WAN bit rate is not finite (the texts \<open>nan\<close> and \<open>inf\<close> are accepted by
  their parsers): the interface rates and the temperature can never be the cause.
\<close>

theorem api_stats_empty_iff:
  assumes "sv_netstats s = Some (ns_Run e0 es (ns_New cfg t0))"
    and "sv_system s = Some (fst (sy_Run e1 es1 (sy_New t1)))"
  shows "let st = fst (snd (stats_of e rq s)); i = ss_Info (st_System st) in
    rs_status (fst (snd (h_Stats e rq s))) = 200 \<and>
    (rs_body (fst (snd (h_Stats e rq s))) = [] \<longleftrightarrow>
       \<not> (f64_finite (Load1m i) \<and> f64_finite (Load5m i) \<and> f64_finite (Load15m i) \<and>
          f64_finite (wi_TxBitrateMbps (wa_Info (st_WAN st)))))"
proof -
  obtain e' where "sy_Info (sy_snap (fst (sy_Run e1 es1 (sy_New t1)))) = tick_info e'"
    using sy_Run_info by blast
  then have "f64_finite (TempCelsius (ss_Info (systemFromCollector e s)))"
    using assms(2) tick_temp_finite by (simp add: systemFromCollector_def system_shown_def sy_Snapshot_of_def Let_def)
  then show ?thesis
    using run_interfaces [OF assms(1), of "av_fmt e"]
    by (auto simp: Let_def h_Stats_parts stats_json_None stats_of_sections section_json_None(3,5))
qed

definition sample_sy_env :: sy_env where
  "sample_sy_env = \<lparr>ye_now = 0, ye_load = Inr ''nan 0.1 0.2'', ye_mem = Inl (NewError ''x''), ye_temp = Inl (NewError ''x'')\<rparr>"

definition stats_sample_server :: Server where
  "stats_sample_server = api_sample_server\<lparr>sv_netstats := Some (ns_Run env_none [] (ns_New (Load id Map.empty) 0)),
     sv_system := Some (fst (sy_Run sample_sy_env [] (sy_New 0)))\<rparr>"

lemma api_stats_empty_iff_witness:
  "rs_body (fst (snd (h_Stats api_sample_env (admin_post ''/api/stats'' []) stats_sample_server))) = []"
proof -
  have s: "sv_netstats stats_sample_server = Some (ns_Run env_none [] (ns_New (Load id Map.empty) 0))"
    "sv_system stats_sample_server = Some (fst (sy_Run sample_sy_env [] (sy_New 0)))"
    by (simp_all add: stats_sample_server_def)
  have "parseLoadavg ''nan 0.1 0.2'' = Inr (NaN, f64_round (1 / 10), f64_round (2 / 10))" by code_simp
  then have "\<not> f64_finite (Load1m (tick_info sample_sy_env))"
    by (simp add: tick_parts sample_sy_env_def read_with_def f64_finite_def)
  then have "\<not> f64_finite (Load1m (ss_Info (systemFromCollector api_sample_env stats_sample_server)))"
    by (simp add: systemFromCollector_def system_shown_def s sy_Run_def sy_Snapshot_of_def sy_tick_eq Let_def)
  with api_stats_empty_iff [OF s] show ?thesis by (auto simp: Let_def stats_of_sections)
qed

text \<open>
  The error answers of the Wi-Fi and WAN endpoints carry the string \<open>"false"\<close>, not the
  boolean, under \<open>ok\<close>, and the message, ill-formed bytes replaced.
\<close>

theorem api_json_error_body:
  "json_first (rs_body (jsonErr status msg new_response)) =
     Some (JObj [(''error'', JStr (to_utf8 msg)), (''ok'', JStr ''false'')])"
proof -
  have "to_utf8 ''error'' = ''error''" "to_utf8 ''ok'' = ''ok''" "to_utf8 ''false'' = ''false''" by code_simp+
  then show ?thesis
    using json_first_encode(1) [of "JObj [(''error'', JStr msg), (''ok'', JStr ''false'')]"]
    by (simp add: jsonErr_def json_content_type_def max_depth_def)
qed

end

