(* ===== verification/Main_App.thy ===== *)
theory Main_App
  imports Api
begin

text \<open>
  \<open>cmd/pispot-ui/main.go\<close>: the checks at startup, the routes, and the composition of the
  request log, the authentication and the routes into the server's handler. Facts: what a
  request without vouched credentials can reach, who can make the helper do anything, what
  happens without authentication, and when the server refuses to start.

  The embedded assets behind \<open>/\<close>, the text of a duration and the form of a redirection
  are arguments.
\<close>

section \<open>Startup\<close>

text \<open>The message of \<open>log.Fatalf\<close>, or whether TLS is enabled.\<close>

definition main_startup :: "config \<Rightarrow> string + bool" where
  "main_startup cfg =
     (let tlsEnabled = (TLSCertFile cfg \<noteq> [] \<and> TLSKeyFile cfg \<noteq> []) in
      if (TLSCertFile cfg = []) \<noteq> (TLSKeyFile cfg = []) then
        Inl ''TLS_CERT_FILE and TLS_KEY_FILE must be set together''
      else if RequireTLS cfg \<and> \<not> tlsEnabled then
        Inl ''REQUIRE_TLS is true but TLS_CERT_FILE/TLS_KEY_FILE are not both set''
      else Inr tlsEnabled)"

text \<open>The collectors that \<open>main\<close> creates, and their server; \<open>t\<close> is the time of it.\<close>

definition main_server :: "config \<Rightarrow> time \<Rightarrow> Server" where
  "main_server cfg t =
     api_New cfg t (Some (ns_New cfg t)) (Some (hs_New cfg t)) (Some (wn_New cfg t)) (Some (ad_New cfg t))
       (Some (sy_New t))"

section \<open>Routes\<close>

text \<open>\<open>url.PathUnescape\<close>, \<open>None\<close> for an escape that is not two hexadecimal digits.\<close>

fun path_unescape :: "string \<Rightarrow> string option" where
  "path_unescape [] = Some []"
| "path_unescape (c # s) =
     (if c = CHR ''%'' then
        (case s of
           a # b # t \<Rightarrow>
             (case (hex_value a, hex_value b) of
                (Some x, Some y) \<Rightarrow> map_option ((#) (char_of (x * 16 + y))) (path_unescape t)
              | _ \<Rightarrow> None)
         | _ \<Rightarrow> None)
      else map_option ((#) c) (path_unescape s))"

text \<open>\<open>cleanPath\<close> of \<open>net/http\<close>.\<close>

definition mux_clean :: "string \<Rightarrow> string" where
  "mux_clean p =
     (if p = [] then [slash]
      else let q = (if hd p = slash then p else slash # p); np = path_clean q in
        if last q = slash \<and> np \<noteq> [slash] then np @ [slash] else np)"

text \<open>The segments the routing tree matches, a trailing slash being one of its own.\<close>

definition segments :: "string \<Rightarrow> string list" where
  "segments p =
     map (\<lambda>w. if w = [] then [slash] else case path_unescape w of None \<Rightarrow> w | Some u \<Rightarrow> u)
       (split_on slash (drop 1 p))"

datatype target = TStatic | TStats | THealthz | TPrivileged endpoint

text \<open>The patterns that \<open>main\<close> registers; the most specific one wins.\<close>

definition routes :: "string list \<Rightarrow> target" where
  "routes segs =
     (if segs = [''healthz''] then THealthz
      else if segs = [''api'', ''stats''] then TStats
      else if segs = [''api'', ''wan'', ''up''] then TPrivileged (EWanOp ''wan_up'')
      else if segs = [''api'', ''wan'', ''down''] then TPrivileged (EWanOp ''wan_down'')
      else if segs = [''api'', ''wifi'', ''networks''] then TPrivileged EWifiNetworks
      else if take 3 segs = [''api'', ''wifi'', ''networks''] then TPrivileged EWifiNetwork
      else if segs = [''api'', ''wifi'', ''reload''] then TPrivileged EWifiReload
      else TStatic)"

text \<open>
  \<open>ServeMux\<close>: a path that is not clean is redirected to its cleaned form, except for
  \<open>CONNECT\<close>; the request target \<open>*\<close> is refused.
\<close>

datatype mux_result = BadTarget | NotFound | MovedTo string | Found target

definition mux_route :: "request \<Rightarrow> mux_result" where
  "mux_route rq =
     (let p = rq_escaped rq in
      if p = ''*'' then BadTarget
      else if rq_method rq = ''CONNECT'' then (if p = [] then NotFound else Found (routes (segments p)))
      else let q = mux_clean p in if q \<noteq> p then MovedTo q else Found (routes (segments p)))"

text \<open>
  The file server of the embedded assets, on the response so far; and the redirection to a
  path (its status depends on the Go release).
\<close>

type_synonym static_server = "request \<Rightarrow> response \<Rightarrow> response"

record web_env =
  we_assets :: static_server
  we_moved :: "request \<Rightarrow> string \<Rightarrow> response"

definition noCacheStatic :: "static_server \<Rightarrow> static_server" where
  "noCacheStatic h rq r = h rq (header_set ''Cache-Control'' ''no-cache, must-revalidate'' r)"

definition target_handler :: "web_env \<Rightarrow> api_env \<Rightarrow> target \<Rightarrow> api_handler" where
  "target_handler w e t rq s =
     (case t of
        TStatic \<Rightarrow> (s, noCacheStatic (we_assets w) rq new_response, [])
      | TStats \<Rightarrow> h_Stats e rq s
      | THealthz \<Rightarrow> h_Healthz rq s
      | TPrivileged p \<Rightarrow> privileged p e rq s)"

definition mux_handler :: "web_env \<Rightarrow> api_env \<Rightarrow> api_handler" where
  "mux_handler w e rq s =
     (case mux_route rq of
        BadTarget \<Rightarrow> (s, write_header 400 (header_set ''Connection'' ''close'' new_response), [])
      | NotFound \<Rightarrow> (s, http_error ''404 page not found'' 404 new_response, [])
      | MovedTo q \<Rightarrow> (s, we_moved w rq q, [])
      | Found t \<Rightarrow> target_handler w e t rq s)"

section \<open>The server's handler\<close>

text \<open>What a request meets: the authentication's environment, the handlers', the duration's text.\<close>

record app_env =
  pv_az :: az_env
  pv_api :: api_env
  pv_duration :: string

definition logRequests :: "string \<Rightarrow> ('s, 'x) handler \<Rightarrow> ('s, 'x) handler" where
  "logRequests dur h rq s =
     (let (s', resp, effs) = h rq s in
      (s', resp, effs @ [LogPrintf ''%s %s %d %s'' [rq_method rq, rq_path rq, show_int (rs_status resp), dur]]))"

definition main_handler ::
  "(string \<Rightarrow> string) \<Rightarrow> web_env \<Rightarrow> config \<Rightarrow> app_env \<Rightarrow> (authCache \<times> Server, collector_effect) handler" where
  "main_handler sha w cfg e =
     logRequests (pv_duration e)
       (az_Middleware sha (AuthSocket cfg) (AuthRealm cfg) (mux_handler w (pv_api e)) (pv_az e))"

section \<open>Routing of the liveness endpoint\<close>

text \<open>A request whose path is the decoding of its escaped path, as URL parsing leaves it.\<close>

definition request_ok :: "request \<Rightarrow> bool" where
  "request_ok rq \<longleftrightarrow>
     (case rq_escaped rq of
        [] \<Rightarrow> False
      | c # t \<Rightarrow> c = slash \<and> path_unescape (rq_escaped rq) = Some (rq_path rq))"

lemma hex_value_slash: "hex_value slash = None"
  by code_simp

lemma path_unescape_percent:
  assumes "path_unescape (CHR ''%'' # s) = Some u"
  obtains a b t x y w where "s = a # b # t" "hex_value a = Some x" "hex_value b = Some y"
    "path_unescape t = Some w" "u = char_of (x * 16 + y) # w"
  using assms by (auto split: list.splits option.splits)

lemma path_unescape_slash: "path_unescape t = Some u \<Longrightarrow> slash \<in> set t \<Longrightarrow> slash \<in> set u"
proof (induction "length t" arbitrary: t u rule: less_induct)
  case less
  obtain c s where t: "t = c # s" using less.prems(2) by (cases t) auto
  show ?case
  proof (cases "c = CHR ''%''")
    case True
    then obtain a b r x y w where s: "s = a # b # r" "hex_value a = Some x" "hex_value b = Some y"
      "path_unescape r = Some w" "u = char_of (x * 16 + y) # w"
      using less.prems(1) path_unescape_percent [of s u] unfolding t by blast
    then have "a \<noteq> slash" "b \<noteq> slash" using hex_value_slash by auto
    then have "slash \<in> set r" using less.prems(2) True by (auto simp: t s(1) slash_def)
    then show ?thesis using less.hyps [of r w] s by (simp add: t)
  next
    case False
    then show ?thesis using less.prems less.hyps [of s] by (auto simp: t)
  qed
qed

lemma split_on_none:
  assumes "c \<notin> set s"
  shows "split_on c s = [s]"
proof -
  have "takeWhile (\<lambda>x. x \<noteq> c) s = s" using assms by (induction s) auto
  then show ?thesis by (simp only: split_on.simps [of c s] Let_def refl if_True)
qed

lemma split_on_append:
  assumes "c \<notin> set w"
  shows "split_on c (w @ c # s) = w # split_on c s"
proof -
  have "takeWhile (\<lambda>x. x \<noteq> c) (w @ c # s) = w" using assms by (induction w) auto
  then show ?thesis by (subst split_on.simps) (simp add: Let_def)
qed

lemma split_on_first: "split_on c (c # s) = [] # split_on c s"
  using split_on_append [of c "[]" s] by simp

lemma healthz_route:
  assumes "request_ok rq" and "rq_path rq = ''/healthz''"
  shows "mux_route rq = Found THealthz"
proof -
  obtain t where t: "rq_escaped rq = slash # t" "path_unescape (slash # t) = Some ''/healthz''"
    using assms by (auto simp: request_ok_def split: list.splits)
  then have u: "path_unescape t = Some ''healthz''" by (auto simp: slash_def)
  have ns: "slash \<notin> set t"
  proof
    assume "slash \<in> set t"
    from path_unescape_slash [OF u this] show False by (simp add: slash_def)
  qed
  have ne: "t \<noteq> []" "t \<noteq> ''.''" "t \<noteq> ''..''" using u by auto
  have "clean_elems True [] (split_on slash (slash # t)) = [t]"
    using ne ns by (simp add: split_on_first split_on_none)
  then have "path_clean (slash # t) = slash # t"
    by (simp add: path_clean_def has_prefix_def Let_def)
  moreover have "last (slash # t) \<noteq> slash" using ne(1) ns by (metis last_ConsR last_in_set)
  ultimately have "mux_clean (slash # t) = slash # t" by (simp add: mux_clean_def Let_def)
  moreover have "segments (slash # t) = [''healthz'']"
    using ne(1) u by (simp add: segments_def split_on_none [OF ns])
  moreover have "slash # t \<noteq> ''*''" by (simp add: slash_def)
  ultimately show ?thesis by (simp add: mux_route_def t(1) routes_def Let_def)
qed

text \<open>The path of a network: one more segment, in any encoding of its name.\<close>

lemma network_route:
  assumes "rq_escaped rq = ''/api/wifi/networks/'' @ t" and "slash \<notin> set t" and "t \<notin> {[], ''.'', ''..''}"
  shows "mux_route rq = Found (TPrivileged EWifiNetwork)"
proof -
  let ?p = "''/api/wifi/networks/'' @ t"
  have "?p = slash # ''api'' @ slash # ''wifi'' @ slash # ''networks'' @ slash # t" by (simp add: slash_def)
  moreover have "slash \<notin> set ''api''" "slash \<notin> set ''wifi''" "slash \<notin> set ''networks''" by (simp_all add: slash_def)
  ultimately have sp: "split_on slash ?p = [[], ''api'', ''wifi'', ''networks'', t]"
    "split_on slash (drop 1 ?p) = [''api'', ''wifi'', ''networks'', t]"
    using assms(2) split_on_append [of slash "''api''"] split_on_append [of slash "''wifi''"]
      split_on_append [of slash "''networks''"]
    by (simp_all only: split_on_first split_on_none drop_Suc_Cons drop_0 One_nat_def not_False_eq_True
        simp_thms True_implies_equals)
  have "clean_elems True [] (split_on slash ?p) = [''api'', ''wifi'', ''networks'', t]"
    unfolding sp using assms(3) by simp
  then have "path_clean ?p = ?p"
    by (simp add: path_clean_def has_prefix_def slash_def Let_def)
  moreover have "last ?p \<noteq> slash" using assms(2,3) by (metis insertI1 last_appendR last_in_set)
  moreover have "?p \<noteq> []" "hd ?p = slash" "?p \<noteq> ''*''" by (simp_all add: slash_def)
  ultimately have "mux_clean ?p = ?p" by (simp only: mux_clean_def Let_def if_True if_False simp_thms)
  moreover have "take 3 (segments ?p) = [''api'', ''wifi'', ''networks'']" "length (segments ?p) = 4"
    unfolding segments_def sp by simp_all
  ultimately show ?thesis
    using \<open>?p \<noteq> ''*''\<close> \<open>?p \<noteq> []\<close> by (auto simp: mux_route_def assms(1) routes_def Let_def)
qed

section \<open>What the helper is asked\<close>

definition auth_wire :: "string \<Rightarrow> string \<Rightarrow> string" where
  "auth_wire u p = wire ((op_request ''auth'')\<lparr>aq_Username := u, aq_Password := p\<rparr>)"

lemma sends_callHelper:
  "callHelper hp sp u p = (r, effs) \<Longrightarrow> x \<in> sends effs \<Longrightarrow> x = (sp, auth_wire u p)"
  by (auto simp: callHelper_def auth_wire_def wire_def Let_def split: helper_outcome.splits)

lemma sends_authorize:
  assumes "authorize sha sp e rq cache = (cache', v, effs)" and "x \<in> sends effs"
  shows "\<exists>u p. BasicAuth rq = Some (u, p) \<and> x = (sp, auth_wire u p)"
  using assms
  by (auto simp: authorize_def Let_def split: if_splits option.splits prod.splits sum.splits dest!: sends_callHelper)

text \<open>An authorisation does not depend on what other effects there are.\<close>

lemma callHelper_any:
  "fst (callHelper hp sp u p :: _ \<times> 'x effect list) = fst (callHelper hp sp u p :: _ \<times> 'y effect list)"
  by (simp add: callHelper_def Let_def split: helper_outcome.split)

lemma authorize_any:
  "fst (authorize sha sp e rq cache :: _ \<times> _ \<times> 'x effect list) =
     fst (authorize sha sp e rq cache :: _ \<times> _ \<times> 'y effect list)"
proof (cases "BasicAuth rq")
  case (Some up)
  obtain u p where up: "up = (u, p)" by (cases up)
  show ?thesis
    using callHelper_any [of "az_helper e" sp u p, where 'x = 'x and 'y = 'y]
    by (cases "callHelper (az_helper e) sp u p :: _ \<times> 'x effect list";
        cases "callHelper (az_helper e) sp u p :: _ \<times> 'y effect list")
      (auto simp: authorize_def Some up Let_def split: option.split sum.split)
qed (simp add: authorize_def)

section \<open>What a request does to the server\<close>

lemma FromCollector_keeps:
  "sv_cfg (fst (hotspotFromCollector e s)) = sv_cfg s" "sends (snd (snd (hotspotFromCollector e s))) = {}"
  "sv_cfg (fst (wanFromCollector e s)) = sv_cfg s" "sends (snd (snd (wanFromCollector e s))) = {}"
  "sv_cfg (fst (adminFromCollector e s)) = sv_cfg s" "sends (snd (snd (adminFromCollector e s))) = {}"
  by (auto simp: hotspotFromCollector_def wanFromCollector_def adminFromCollector_def sends_def Let_def
      split: option.split prod.split)

lemma h_Stats_keeps:
  "sv_cfg (fst (h_Stats e rq s)) = sv_cfg s \<and> sends (snd (snd (h_Stats e rq s))) = {}"
proof -
  obtain s1 h e1 where 1: "hotspotFromCollector e s = (s1, h, e1)" by (cases "hotspotFromCollector e s")
  obtain s2 w e2 where 2: "wanFromCollector e s1 = (s2, w, e2)" by (cases "wanFromCollector e s1")
  obtain s3 a e3 where 3: "adminFromCollector e s2 = (s3, a, e3)" by (cases "adminFromCollector e s2")
  show ?thesis
    using FromCollector_keeps(1,2) [of e s] FromCollector_keeps(3,4) [of e s1] FromCollector_keeps(5,6) [of e s2]
    by (simp add: h_Stats_def stats_of_def 1 2 3 Let_def)
qed

lemma privileged_keeps: "fst (privileged p e rq s) = s"
proof (cases p)
  case (EWanOp op)
  then show ?thesis by (simp add: h_WanOp_def Let_def split: prod.split sum.split)
next
  case EWifiNetworks
  then show ?thesis
    by (simp add: h_WifiNetworks_def h_WifiList_def h_WifiAdd_def Let_def split: prod.split sum.split option.split)
next
  case EWifiNetwork
  then show ?thesis by (simp add: h_WifiNetwork_def Let_def split: prod.split option.split)
next
  case EWifiReload
  then show ?thesis by (simp add: h_WifiReload_def Let_def split: prod.split option.split)
qed

lemma mux_handler_keeps: "sv_cfg (fst (mux_handler w e rq s)) = sv_cfg s"
  using h_Stats_keeps [of e rq s] privileged_keeps
  by (auto simp: mux_handler_def target_handler_def h_Healthz_def split: mux_result.split target.split)

lemma mux_handler_sends:
  assumes "x \<in> sends (snd (snd (mux_handler w e rq s)))"
  shows "\<exists>ep. mux_route rq = Found (TPrivileged ep) \<and> x \<in> sends (snd (snd (privileged ep e rq s)))"
  using assms h_Stats_keeps [of e rq s]
  by (auto simp: mux_handler_def target_handler_def h_Healthz_def split: mux_result.splits target.splits)

lemma mux_route_role [simp]: "mux_route (rq\<lparr>rq_role := r\<rparr>) = mux_route rq"
  by (simp add: mux_route_def cong: if_cong)

lemma intended_role [simp]: "intended ep (rq\<lparr>rq_role := r\<rparr>) = intended ep rq"
  by (cases ep) (simp_all add: Let_def)

lemma logRequests_parts:
  "fst (logRequests dur h rq s) = fst (h rq s)"
  "fst (snd (logRequests dur h rq s)) = fst (snd (h rq s))"
  "sends (snd (snd (logRequests dur h rq s))) = sends (snd (snd (h rq s)))"
  by (cases "h rq s"; simp add: logRequests_def)+

text \<open>The server after a history of requests, oldest first.\<close>

definition main_run ::
  "(string \<Rightarrow> string) \<Rightarrow> web_env \<Rightarrow> config \<Rightarrow> (app_env \<times> request) list \<Rightarrow> authCache \<times> Server \<Rightarrow> authCache \<times> Server" where
  "main_run sha w cfg hist st = fold (\<lambda>(e, rq) st. fst (main_handler sha w cfg e rq st)) hist st"

lemma main_handler_state:
  "fst (fst (main_handler sha w cfg e rq (cache, s))) =
     (if AuthSocket cfg = [] then cache
      else fst (authorize sha (AuthSocket cfg) (pv_az e) rq cache :: _ \<times> _ \<times> collector_effect effect list))"
  "sv_cfg (snd (fst (main_handler sha w cfg e rq (cache, s)))) = sv_cfg s"
proof -
  let ?a = "authorize sha (AuthSocket cfg) (pv_az e) rq cache :: _ \<times> _ \<times> collector_effect effect list"
  obtain cache' v effs where a: "?a = (cache', v, effs)" by (cases ?a) auto
  have k: "sv_cfg s' = sv_cfg s" if "mux_handler w (pv_api e) rq' s = (s', out)" for rq' s' out
    using mux_handler_keeps [of w "pv_api e" rq' s] that by simp
  show "fst (fst (main_handler sha w cfg e rq (cache, s))) = (if AuthSocket cfg = [] then cache else fst ?a)"
    "sv_cfg (snd (fst (main_handler sha w cfg e rq (cache, s)))) = sv_cfg s"
    by (auto simp: main_handler_def logRequests_parts az_Middleware_def a Let_def split: verdict.split prod.split
        dest: k)
qed

lemma main_run_state:
  assumes "AuthSocket cfg \<noteq> []"
  shows "fst (main_run sha w cfg hist (Map.empty, s)) =
    az_cache_after sha (AuthSocket cfg) (map (\<lambda>(e, rq). (pv_az e, rq)) hist) \<and>
    sv_cfg (snd (main_run sha w cfg hist (Map.empty, s))) = sv_cfg s"
proof (induction hist rule: rev_induct)
  case Nil
  then show ?case by (simp add: main_run_def az_cache_after_def)
next
  case (snoc x hist)
  obtain e rq where x: "x = (e, rq)" by (cases x)
  obtain cache s' where st: "main_run sha w cfg hist (Map.empty, s) = (cache, s')"
    by (cases "main_run sha w cfg hist (Map.empty, s)")
  have "main_run sha w cfg (hist @ [x]) (Map.empty, s) = fst (main_handler sha w cfg e rq (cache, s'))"
    using st by (simp add: main_run_def x)
  then show ?case
    using snoc main_handler_state [of sha w cfg e rq cache s'] assms
      authorize_any [of sha "AuthSocket cfg" "pv_az e" rq cache, where 'x = collector_effect and 'y = unit]
    by (simp add: st az_cache_after_def x)
qed

text \<open>Sending through the whole composition: the authentication, or a privileged endpoint once granted.\<close>

lemma main_handler_sends:
  assumes "AuthSocket cfg \<noteq> []" and "request_ok rq"
    and "x \<in> sends (snd (snd (main_handler sha w cfg e rq (cache, s))))"
  shows "(\<exists>u p. BasicAuth rq = Some (u, p) \<and> x = (AuthSocket cfg, auth_wire u p)) \<or>
    (\<exists>role ep cache' effs. mux_route rq = Found (TPrivileged ep) \<and>
       authorize sha (AuthSocket cfg) (pv_az e) rq cache = (cache', Grant role, effs :: collector_effect effect list) \<and>
       x \<in> sends (snd (snd (privileged ep (pv_api e) (rq\<lparr>rq_role := Some role\<rparr>) s))))"
proof -
  let ?a = "authorize sha (AuthSocket cfg) (pv_az e) rq cache :: _ \<times> _ \<times> collector_effect effect list"
  obtain cache' v effs where a: "?a = (cache', v, effs)" by (cases ?a) auto
  show ?thesis
  proof (cases "x \<in> sends effs")
    case True
    then show ?thesis using sends_authorize [OF a] by blast
  next
    case False
    note parts = main_handler_def logRequests_parts az_Middleware_def a Let_def
    show ?thesis
    proof (cases v)
      case Pass
      then have "rq_path rq = ''/healthz''"
        using a by (auto simp: authorize_def Let_def split: if_splits option.splits prod.splits sum.splits)
      then have "mux_route rq = Found THealthz" using healthz_route assms(2) by blast
      then show ?thesis
        using assms(1,3) False Pass by (simp add: parts mux_handler_def target_handler_def h_Healthz_def)
    next
      case (Grant role)
      have "x \<in> sends (snd (snd (mux_handler w (pv_api e) (rq\<lparr>rq_role := Some role\<rparr>) s)))"
        using assms(1,3) False Grant by (auto simp: parts split: prod.splits)
      from mux_handler_sends [OF this] show ?thesis using a Grant by auto
    qed (use assms(1,3) False in \<open>simp_all add: parts\<close>)
  qed
qed

lemma main_server_cfg [simp]: "sv_cfg (main_server cfg t) = cfg"
  by (simp add: main_server_def api_New_def)

section \<open>Properties\<close>

text \<open>
  C1: with an authentication socket configured, the only thing the socket is sent for a
  request, besides the credentials it carries, is the operation of a privileged route, with
  the arguments of that request; and then the helper has vouched for the same user as
  \<open>admin\<close>, with a password of the same digest, in answer to this request or to one of
  the history at most five minutes before. Whatever the history was.
\<close>

theorem main_commands_need_admin:
  assumes "AuthSocket cfg \<noteq> []" and "request_ok rq"
    and "(sock, b) \<in> sends (snd (snd (main_handler sha w cfg e rq
      (main_run sha w cfg hist (Map.empty, main_server cfg t0)))))"
  shows "sock = AuthSocket cfg \<and> (\<exists>u p. BasicAuth rq = Some (u, p) \<and>
    (b = auth_wire u p \<or>
     (\<exists>ep r. mux_route rq = Found (TPrivileged ep) \<and> intended ep rq = Some r \<and> b = wire r) \<and>
     (accepts sock (pv_az e) rq u p ''admin'' \<or>
      (\<exists>(e', rq') \<in> set hist. \<exists>p'. accepts sock (pv_az e') rq' u p' ''admin'' \<and> sha p' = sha p \<and>
         az_now_get (pv_az e) \<le> az_now_set (pv_az e') + 300 * second))))"
proof -
  obtain cache s where st: "main_run sha w cfg hist (Map.empty, main_server cfg t0) = (cache, s)"
    by (cases "main_run sha w cfg hist (Map.empty, main_server cfg t0)")
  have c: "cache = az_cache_after sha (AuthSocket cfg) (map (\<lambda>(e, rq). (pv_az e, rq)) hist)" "sv_cfg s = cfg"
    using main_run_state [OF assms(1), of sha w hist "main_server cfg t0", unfolded st] by simp_all
  from main_handler_sends [OF assms(1,2) assms(3) [unfolded st]]
  show ?thesis
  proof (elim disjE exE conjE)
    fix role ep cache' and effs :: "collector_effect effect list"
    assume "mux_route rq = Found (TPrivileged ep)"
      and a: "authorize sha (AuthSocket cfg) (pv_az e) rq cache = (cache', Grant role, effs)"
      and x: "(sock, b) \<in> sends (snd (snd (privileged ep (pv_api e) (rq\<lparr>rq_role := Some role\<rparr>) s)))"
    moreover have "role = ''admin'' \<and> sock = AuthSocket cfg \<and> (\<exists>r. intended ep rq = Some r \<and> b = wire r)"
      using privileged_sends [OF x] by (auto simp: RoleFromContext_def c(2))
    ultimately show ?thesis
      using grants_vouched [OF a [unfolded c(1)]] unfolding az_cacheTTL_def by fastforce
  qed auto
qed

definition main_sample_request :: request where
  "main_sample_request = (admin_post ''/api/wan/up'' [])
     \<lparr>rq_authorization := basic_header ''ann'' ''pw'', rq_role := None\<rparr>"

definition main_sample_config :: config where
  "main_sample_config = (Load id Map.empty)\<lparr>AuthSocket := ''/s''\<rparr>"

definition main_sample_env :: app_env where
  "main_sample_env = \<lparr>pv_az = sample_env 5, pv_api = api_sample_env, pv_duration = ''1ms''\<rparr>"

definition main_sample_web :: web_env where
  "main_sample_web = \<lparr>we_assets = (\<lambda>rq r. r), we_moved = (\<lambda>rq q. write_header 307 new_response)\<rparr>"

lemma main_sample_facts:
  "AuthSocket main_sample_config \<noteq> []" "request_ok main_sample_request"
  "mux_route main_sample_request = Found (TPrivileged (EWanOp ''wan_up''))"
  "BasicAuth main_sample_request = Some (''ann'', ''pw'')"
  "rq_method main_sample_request = ''POST''"
  subgoal by (simp add: main_sample_config_def)
  subgoal by code_simp
  subgoal by code_simp
  subgoal by (rule basic_auth_header) (simp_all add: main_sample_request_def)
  subgoal by (simp add: main_sample_request_def admin_post_def)
  done

lemma main_sample_sends:
  "(''/s'', wire (op_request ''wan_up'')) \<in> sends (snd (snd (main_handler id main_sample_web main_sample_config
     main_sample_env main_sample_request (Map.empty, main_server main_sample_config 0))))"
proof -
  let ?s = "main_server main_sample_config 0"
  have "cache_get id 5 ''ann'' ''pw'' Map.empty = None" by (simp add: cache_get_def)
  then obtain cache' and effs :: "collector_effect effect list" where
    a: "authorize id ''/s'' (sample_env 5) main_sample_request Map.empty = (cache', Grant ''admin'', effs)"
    using sample_call [of "''/s''" "''ann''" "''pw''", where 'a = collector_effect] main_sample_facts(4)
    by (cases "callHelper sample_helper ''/s'' ''ann'' ''pw'' :: _ \<times> collector_effect effect list")
      (simp add: authorize_def main_sample_request_def admin_post_def Let_def)
  have sp: "AuthSocket main_sample_config = ''/s''" by (simp add: main_sample_config_def)
  let ?rq = "main_sample_request\<lparr>rq_role := Some ''admin''\<rparr>"
  have "mux_handler main_sample_web api_sample_env ?rq ?s = h_WanOp ''wan_up'' api_sample_env ?rq ?s"
    by (simp add: mux_handler_def target_handler_def main_sample_facts(3))
  moreover have "(''/s'', wire (op_request ''wan_up'')) \<in> sends (snd (snd (h_WanOp ''wan_up'' api_sample_env ?rq ?s)))"
    by (simp add: h_WanOp_def RoleFromContext_def CallOp_def callSocket_def sp main_sample_facts(5)
        api_sample_env_def sample_helper_def sample_response wire_def Let_def)
  ultimately show ?thesis
    by (simp add: main_handler_def logRequests_parts az_Middleware_def main_sample_env_def sp a)
      (auto split: prod.split)
qed

lemma main_commands_need_admin_witness:
  "accepts ''/s'' (sample_env 5) main_sample_request ''ann'' ''pw'' ''admin''"
proof -
  have "(''/s'', wire (op_request ''wan_up'')) \<in> sends (snd (snd (main_handler id main_sample_web main_sample_config
     main_sample_env main_sample_request (main_run id main_sample_web main_sample_config []
       (Map.empty, main_server main_sample_config 0)))))"
    using main_sample_sends by (simp add: main_run_def)
  note main_commands_need_admin [OF main_sample_facts(1,2) this]
  moreover have "wire (op_request ''wan_up'') \<noteq> auth_wire u p" for u p
  proof
    assume "wire (op_request ''wan_up'') = auth_wire u p"
    then have "request_utf8 (op_request ''wan_up'') =
        request_utf8 ((op_request ''auth'')\<lparr>aq_Username := u, aq_Password := p\<rparr>)"
      unfolding wire_def auth_wire_def by (metis decode_request_encode option.inject)
    moreover have "to_utf8 ''wan_up'' \<noteq> to_utf8 ''auth''" by code_simp
    ultimately show False by (simp add: request_utf8_def op_request_def)
  qed
  ultimately show ?thesis using main_sample_facts(4) by (auto simp: main_sample_env_def)
qed

text \<open>
  C4: with an authentication socket configured, a request that is not granted a role leaves
  the server and the authentication cache as they were, and is answered with 401 or 503,
  except that \<open>/healthz\<close> is answered with 200 and the text \<open>ok\<close>; the helper is
  sent nothing but the credentials of the request.
\<close>

theorem main_unauthenticated:
  assumes "AuthSocket cfg \<noteq> []" and "request_ok rq"
    and "\<nexists>role. fst (snd (authorize sha (AuthSocket cfg) (pv_az e) rq cache :: _ \<times> _ \<times> collector_effect effect list)) =
      Grant role"
  shows "\<exists>resp effs. main_handler sha w cfg e rq (cache, s) = ((cache, s), resp, effs) \<and>
    (if rq_path rq = ''/healthz'' then rs_status resp = 200 \<and> rs_body resp = ''ok'' @ [CHR 0x0A] \<and> sends effs = {}
     else rs_status resp \<in> {401, 503} \<and>
       (\<forall>x \<in> sends effs. \<exists>u p. BasicAuth rq = Some (u, p) \<and> x = (AuthSocket cfg, auth_wire u p)))"
proof -
  let ?a = "authorize sha (AuthSocket cfg) (pv_az e) rq cache :: _ \<times> _ \<times> collector_effect effect list"
  obtain cache' v effs where a: "?a = (cache', v, effs)" by (cases ?a) auto
  have g: "\<nexists>role. v = Grant role" using assms(3) by (simp add: a)
  have c: "cache' = cache" by (rule authorize_keeps_cache [OF a g])
  have p: "v = Pass \<and> effs = [] \<longleftrightarrow> rq_path rq = ''/healthz''" "v = Pass \<longrightarrow> rq_path rq = ''/healthz''"
    using a by (auto simp: authorize_def Let_def split: if_splits option.splits prod.splits sum.splits)
  note parts = main_handler_def logRequests_def az_Middleware_def a c Let_def
  show ?thesis
  proof (cases "rq_path rq = ''/healthz''")
    case True
    then show ?thesis
      using assms(1) p healthz_route [OF assms(2) True]
      by (simp add: parts mux_handler_def target_handler_def h_Healthz_def)
  next
    case False
    then have "v = Challenge \<or> v = Unavailable" using p g by (cases v) auto
    then show ?thesis
      using assms(1) False sends_authorize [OF a]
      by (auto simp: parts challenge_response_def unavailable_response_def)
  qed
qed

lemma main_unauthenticated_witness:
  "\<exists>resp effs. main_handler id main_sample_web main_sample_config main_sample_env
     (main_sample_request\<lparr>rq_authorization := []\<rparr>) (Map.empty, main_server main_sample_config 0) =
       ((Map.empty, main_server main_sample_config 0), resp, effs) \<and> rs_status resp \<in> {401, 503}"
proof -
  let ?rq = "main_sample_request\<lparr>rq_authorization := []\<rparr>"
  have ok: "request_ok ?rq" by code_simp
  have "rq_path ?rq \<noteq> ''/healthz''" by (simp add: main_sample_request_def admin_post_def)
  moreover from this have "\<nexists>role. fst (snd (authorize id (AuthSocket main_sample_config) (pv_az main_sample_env) ?rq
      Map.empty :: _ \<times> _ \<times> collector_effect effect list)) = Grant role"
    by (simp add: authorize_def BasicAuth_def)
  ultimately show ?thesis
    using main_unauthenticated [OF main_sample_facts(1) ok, of id main_sample_env Map.empty main_sample_web
        "main_server main_sample_config 0"] by fastforce
qed

text \<open>
  C20: without an authentication socket nobody is asked and nobody is obeyed: no request
  reaches a socket, the cache stays as it is, and every privileged route answers 403 or 405
  and leaves the server as it is.
\<close>

theorem main_without_socket:
  assumes "AuthSocket cfg = []" and "rq_role rq = None"
  shows "fst (fst (main_handler sha w cfg e rq (cache, s))) = cache \<and>
    sends (snd (snd (main_handler sha w cfg e rq (cache, s)))) = {} \<and>
    (\<forall>ep. mux_route rq = Found (TPrivileged ep) \<longrightarrow>
       snd (fst (main_handler sha w cfg e rq (cache, s))) = s \<and>
       rs_status (fst (snd (main_handler sha w cfg e rq (cache, s)))) \<in> {403, 405})"
proof -
  have r: "RoleFromContext rq \<noteq> ''admin''" using assms(2) by (simp add: RoleFromContext_def)
  have n: "sends (snd (snd (mux_handler w (pv_api e) rq s))) = {}"
    using mux_handler_sends [of _ w "pv_api e" rq s] privileged_sends r by fastforce
  obtain s' resp effs where h: "mux_handler w (pv_api e) rq s = (s', resp, effs)"
    by (cases "mux_handler w (pv_api e) rq s")
  have "s' = s \<and> rs_status resp \<in> {403, 405}" if "mux_route rq = Found (TPrivileged ep)" for ep
    using h privileged_refuses [OF r, of ep "pv_api e" s] that by (simp add: mux_handler_def target_handler_def)
  then show ?thesis
    using n assms(1) by (auto simp: main_handler_def logRequests_parts az_Middleware_def h Let_def)
qed

lemma main_without_socket_witness:
  "rs_status (fst (snd (main_handler id main_sample_web (main_sample_config\<lparr>AuthSocket := []\<rparr>) main_sample_env
     main_sample_request (Map.empty, main_server main_sample_config 0)))) \<in> {403, 405}"
proof -
  have "AuthSocket (main_sample_config\<lparr>AuthSocket := []\<rparr>) = []" "rq_role main_sample_request = None"
    by (simp_all add: main_sample_request_def)
  from main_without_socket [OF this] main_sample_facts(3) show ?thesis by blast
qed

text \<open>
  C38: an administrator's DELETE below \<open>/api/wifi/networks/\<close> is relayed to the helper as
  \<open>wifi_remove\<close> of exactly the network that the rest of the path encodes, in any percent
  encoding, encoded slashes included (ill-formed UTF-8 is replaced); the server stays as it
  is, and the answer is 200 if the helper accepts and 400 in every other case. Only where the
  rest is one of the two dot segments is nothing sent: those the routing cleans away, and the
  request is redirected.
\<close>

theorem main_remove_names_network:
  assumes "rq_escaped rq = ''/api/wifi/networks/'' @ t" and "slash \<notin> set t" and "path_unescape t = Some ssid"
    and "rq_path rq = ''/api/wifi/networks/'' @ ssid" and "rq_method rq = ''DELETE''" and "t \<noteq> []"
    and "RoleFromContext rq = ''admin''" and "AuthSocket (sv_cfg s) \<noteq> []"
  shows "case mux_handler w e rq s of (s', resp, effs) \<Rightarrow> s' = s \<and>
    (if t \<in> {''.'', ''..''} then effs = [] \<and> (\<exists>q. resp = we_moved w rq q)
     else relayed (av_helper e) (AuthSocket (sv_cfg s)) ((op_request ''wifi_remove'')\<lparr>aq_SSID := to_utf8 ssid\<rparr>) resp effs)"
proof (cases "t \<in> {''.'', ''..''}")
  case True
  have "mux_clean ''/api/wifi/networks/.'' = ''/api/wifi/networks''" "mux_clean ''/api/wifi/networks/..'' = ''/api/wifi''"
    by code_simp+
  then show ?thesis
    using True assms(1,5) by (auto simp: mux_handler_def mux_route_def Let_def)
next
  case False
  have nonempty: "ssid \<noteq> []" using assms(3,6) by (cases t) (auto split: if_splits list.splits option.splits)
  have route: "mux_handler w e rq s = h_WifiNetwork e rq s"
    using False assms(6) network_route [OF assms(1,2)] by (simp add: mux_handler_def target_handler_def)
  have ok: "wifiAdminCheck s rq ''DELETE'' = None" using assms(5,7,8) by (simp add: wifiAdminCheck_def)
  have path: "trim_prefix (rq_path rq) ''/api/wifi/networks/'' = ssid"
    by (simp add: assms(4) trim_prefix_def has_prefix_def)
  let ?r = "(op_request ''wifi_remove'')\<lparr>aq_SSID := ssid\<rparr>"
  obtain r effs where c: "checked_call (av_helper e) (AuthSocket (sv_cfg s)) ?r = (r, effs :: api_effect list)"
    by fastforce
  have "to_utf8 ''wifi_remove'' = ''wifi_remove''" by code_simp
  then have u: "request_utf8 ?r = (op_request ''wifi_remove'')\<lparr>aq_SSID := to_utf8 ssid\<rparr>"
    by (simp add: request_utf8_def op_request_def)
  show ?thesis
    using False nonempty ok
    by (simp add: checked_call_relays [OF c, unfolded u] route h_WifiNetwork_def path CallWifiRemove_def c
        jsonOK_def jsonErr_def json_content_type_def Let_def split: option.split)
qed

lemma main_remove_names_network_witness:
  "rs_status (fst (snd (mux_handler main_sample_web api_sample_env
     ((admin_post ''/api/wifi/networks/a/b'' [])\<lparr>rq_method := ''DELETE'', rq_escaped := ''/api/wifi/networks/a%2Fb''\<rparr>)
     api_sample_server))) = 200"
proof -
  let ?rq = "(admin_post ''/api/wifi/networks/a/b'' [])\<lparr>rq_method := ''DELETE'',
      rq_escaped := ''/api/wifi/networks/a%2Fb''\<rparr>"
  have h: "rq_escaped ?rq = ''/api/wifi/networks/'' @ ''a%2Fb''" "slash \<notin> set ''a%2Fb''"
    "rq_path ?rq = ''/api/wifi/networks/'' @ ''a/b''" "rq_method ?rq = ''DELETE''" "''a%2Fb'' \<noteq> []"
    "RoleFromContext ?rq = ''admin''" "AuthSocket (sv_cfg api_sample_server) \<noteq> []"
    by (simp_all add: admin_post_def slash_def RoleFromContext_def api_sample_server_def api_New_def)
  have u: "path_unescape ''a%2Fb'' = Some ''a/b''" by code_simp
  from main_remove_names_network [OF h(1,2) u h(3-7), of main_sample_web api_sample_env] show ?thesis
    by (auto simp: relayed_def api_sample_env_def sample_helper_def sample_response)
qed

text \<open>
  C40: the server starts without TLS only when neither of the two TLS variables has a value and
  \<open>REQUIRE_TLS\<close> is not one of the four spellings of true; with TLS only when both have one.
\<close>

theorem main_starts_plain_iff:
  "main_startup (Load uni env) = Inr tls \<longleftrightarrow>
     (let has = (\<lambda>k. \<exists>v. env k = Some v \<and> v \<noteq> []) in
      (has ''TLS_CERT_FILE'' \<longleftrightarrow> tls) \<and> (has ''TLS_KEY_FILE'' \<longleftrightarrow> tls) \<and>
      (\<nexists>v. \<not> tls \<and> env ''REQUIRE_TLS'' = Some v \<and> v \<noteq> [] \<and>
         to_lower uni (trim_space v) \<in> {''1'', ''true'', ''yes'', ''on''}))"
proof -
  have e: "getenv env k [] \<noteq> [] \<longleftrightarrow> (\<exists>v. env k = Some v \<and> v \<noteq> [])" for k
    by (auto simp: getenv_def split: option.split)
  show ?thesis
    using getenvBool_changes_iff [of uni env "''REQUIRE_TLS''" False] e [of "''TLS_CERT_FILE''"] e [of "''TLS_KEY_FILE''"]
    by (simp add: main_startup_def Load_def Let_def) blast
qed

end
