(* ===== verification/File_Server.thy ===== *)
theory File_Server
  imports Http Go_Path
begin

text \<open>
  \<open>ServeContent\<close> of \<open>net/http\<close>, as the file server of the embedded assets uses it: the
  conditional headers of a request (\<open>If-Match\<close>, \<open>If-None-Match\<close>, \<open>If-Range\<close>), which
  are compared with the response's own validators, and \<open>Range\<close>. Embedded files have a zero
  modification time, for which the conditions on dates count for nothing. The form of a
  response of several parts, with its random boundary, is an argument. Facts: which requests
  get a file in full, and that a part never goes beyond the file.
\<close>

section \<open>Entity tags\<close>

definition ows :: "char \<Rightarrow> bool" where
  "ows c \<longleftrightarrow> c \<in> {CHR '' '', CHR 0x09, CHR 0x0A, CHR 0x0D}"

text \<open>\<open>textproto.TrimString\<close>.\<close>

definition trim_ows :: "string \<Rightarrow> string" where
  "trim_ows s = rev (dropWhile ows (rev (dropWhile ows s)))"

definition etag_char :: "char \<Rightarrow> bool" where
  "etag_char c \<longleftrightarrow> byte c = 33 \<or> 35 \<le> byte c \<and> byte c \<le> 126 \<or> 128 \<le> byte c"

text \<open>\<open>scanETag\<close>: the tag at the beginning and what follows it, \<open>None\<close> without one.\<close>

definition scan_etag :: "string \<Rightarrow> (string \<times> string) option" where
  "scan_etag s =
     (let s = trim_ows s;
          start = (if has_prefix s ''W/'' then 2 else 0) in
      case drop start s of
        [] \<Rightarrow> None
      | q # t \<Rightarrow>
          if q \<noteq> CHR 0x22 then None
          else (case dropWhile etag_char t of
              [] \<Rightarrow> None
            | c # rest \<Rightarrow>
                if c = CHR 0x22 then Some (take start s @ CHR 0x22 # takeWhile etag_char t @ [CHR 0x22], rest) else None))"

lemma length_trim_ows: "length (trim_ows s) \<le> length s"
  using le_trans [OF length_dropWhile_le [of ows "rev (dropWhile ows s)"], of "length s"] by (simp add: trim_ows_def length_dropWhile_le)

lemma scan_etag_shorter:
  assumes "scan_etag s = Some (e, r)"
  shows "length r < length (trim_ows s)"
proof -
  define u where "u = trim_ows s"
  define n :: nat where "n = (if has_prefix u ''W/'' then 2 else 0)"
  obtain q t where d: "drop n u = q # t"
    using assms by (cases "drop n u") (simp_all add: scan_etag_def u_def n_def Let_def)
  have q: "q = CHR 0x22"
    using assms d by (simp add: scan_etag_def u_def [symmetric] n_def [symmetric] Let_def split: if_splits)
  obtain c rest where c: "dropWhile etag_char t = c # rest"
    using assms d q by (cases "dropWhile etag_char t") (simp_all add: scan_etag_def u_def [symmetric] n_def [symmetric] Let_def)
  have "r = rest"
    using assms d q c by (simp add: scan_etag_def u_def [symmetric] n_def [symmetric] Let_def split: if_splits)
  moreover have "length (dropWhile etag_char t) \<le> length t" by (rule length_dropWhile_le)
  moreover have "Suc (length t) \<le> length u" using d by (metis length_drop length_Cons diff_le_self)
  ultimately show ?thesis using c by (simp add: u_def)
qed

text \<open>The loops of \<open>checkIfMatch\<close> and \<open>checkIfNoneMatch\<close>: a star, or a tag that matches.\<close>

function etag_list :: "(string \<Rightarrow> bool) \<Rightarrow> string \<Rightarrow> bool" where
  "etag_list m buf =
     (case trim_ows buf of
        [] \<Rightarrow> False
      | c # rest \<Rightarrow>
          if c = CHR '','' then etag_list m rest
          else if c = CHR ''*'' then True
          else (case scan_etag (c # rest) of
              None \<Rightarrow> False
            | Some (etag, remain) \<Rightarrow> if m etag then True else etag_list m remain))"
  by pat_completeness auto

termination
proof (relation "measure (\<lambda>(m, buf). length buf)")
  show "((m, rest), m, buf) \<in> measure (\<lambda>(m, buf). length buf)" if "trim_ows buf = c # rest" for m buf c and rest :: string
    using length_trim_ows [of buf] that by simp
  show "((m, remain), m, buf) \<in> measure (\<lambda>(m, buf). length buf)"
    if "trim_ows buf = c # rest" "scan_etag (c # rest) = Some x" "(etag, remain) = x"
    for m buf c and rest remain :: string and x etag
    using length_trim_ows [of buf] scan_etag_shorter [of "c # rest" etag remain] length_trim_ows [of "c # rest"] that by simp
qed simp

declare etag_list.simps [simp del]

definition response_etag :: "response \<Rightarrow> string" where
  "response_etag r = (case rs_headers r ''Etag'' of None \<Rightarrow> [] | Some v \<Rightarrow> v)"

definition etagStrongMatch :: "string \<Rightarrow> string \<Rightarrow> bool" where
  "etagStrongMatch a b \<longleftrightarrow> a = b \<and> a \<noteq> [] \<and> hd a = CHR 0x22"

definition etagWeakMatch :: "string \<Rightarrow> string \<Rightarrow> bool" where
  "etagWeakMatch a b \<longleftrightarrow> trim_prefix a ''W/'' = trim_prefix b ''W/''"

section \<open>Preconditions\<close>

definition get_or_head :: "request \<Rightarrow> bool" where
  "get_or_head rq \<longleftrightarrow> rq_method rq \<in> {''GET'', ''HEAD''}"

text \<open>Without a validator of the response \<open>writeNotModified\<close> keeps what \<open>Last-Modified\<close> there is.\<close>

definition writeNotModified :: "response \<Rightarrow> response" where
  "writeNotModified r =
     (let h = (rs_headers r)(''Content-Type'' := None, ''Content-Length'' := None, ''Content-Encoding'' := None) in
      write_header 304 (r\<lparr>rs_headers := (if response_etag r \<noteq> [] then h(''Last-Modified'' := None) else h)\<rparr>))"

text \<open>\<open>checkPreconditions\<close> with a zero modification time: the answer, if that is all.\<close>

definition checkPreconditions :: "request \<Rightarrow> response \<Rightarrow> response option" where
  "checkPreconditions rq r =
     (let im = rq_header rq ''If-Match''; inm = rq_header rq ''If-None-Match'' in
      if im \<noteq> [] \<and> \<not> etag_list (\<lambda>e. etagStrongMatch e (response_etag r)) im then Some (write_header 412 r)
      else if inm \<noteq> [] \<and> etag_list (\<lambda>e. etagWeakMatch e (response_etag r)) inm then
        Some (if get_or_head rq then writeNotModified r else write_header 412 r)
      else None)"

text \<open>The range that is asked for, after \<open>checkIfRange\<close>.\<close>

definition range_header :: "request \<Rightarrow> response \<Rightarrow> string" where
  "range_header rq r =
     (let ir = rq_header rq ''If-Range'' in
      if get_or_head rq \<and> ir \<noteq> [] \<and>
         \<not> (case scan_etag ir of None \<Rightarrow> False | Some (e, rest) \<Rightarrow> etagStrongMatch e (response_etag r))
      then [] else rq_header rq ''Range'')"

section \<open>Ranges\<close>

datatype range_error = InvalidRange | NoOverlap

text \<open>One range: refused, beyond the end, or a start with a length.\<close>

definition range_spec :: "int \<Rightarrow> string \<Rightarrow> (int \<times> int) option option" where
  "range_spec len ra =
     (case cut_at CHR ''-'' ra of
        None \<Rightarrow> None
      | Some (a, b) \<Rightarrow>
          (let first = trim_ows a; last = trim_ows b in
           if first = [] then
             (if last = [] \<or> hd last = CHR ''-'' then None
              else case parse_int64 last of
                  Inl e \<Rightarrow> None
                | Inr i \<Rightarrow> if i < 0 then None else Some (Some (len - min i len, min i len)))
           else (case parse_int64 first of
               Inl e \<Rightarrow> None
             | Inr i \<Rightarrow>
                 if i < 0 then None
                 else if len \<le> i then Some None
                 else if last = [] then Some (Some (i, len - i))
                 else (case parse_int64 last of
                     Inl e \<Rightarrow> None
                   | Inr j \<Rightarrow> if j < i then None else Some (Some (i, (if len \<le> j then len - 1 else j) - i + 1))))))"

text \<open>The ranges of a list, with whether one of them was beyond the end; \<open>None\<close> when one is refused.\<close>

fun range_list :: "int \<Rightarrow> string list \<Rightarrow> (bool \<times> (int \<times> int) list) option" where
  "range_list len [] = Some (False, [])"
| "range_list len (ra # ras) =
     (if trim_ows ra = [] then range_list len ras
      else case range_spec len (trim_ows ra) of
          None \<Rightarrow> None
        | Some None \<Rightarrow> map_option (\<lambda>(beyond, rs). (True, rs)) (range_list len ras)
        | Some (Some r) \<Rightarrow> map_option (\<lambda>(beyond, rs). (beyond, r # rs)) (range_list len ras))"

definition parseRange :: "string \<Rightarrow> int \<Rightarrow> range_error + (int \<times> int) list" where
  "parseRange s len =
     (if s = [] then Inr []
      else if \<not> has_prefix s ''bytes='' then Inl InvalidRange
      else case range_list len (split_on CHR '','' (drop 6 s)) of
          None \<Rightarrow> Inl InvalidRange
        | Some (beyond, rs) \<Rightarrow> if beyond \<and> rs = [] then Inl NoOverlap else Inr rs)"

section \<open>Serving content\<close>

text \<open>An error clears the headers that were meant for the content.\<close>

definition serve_error :: "string \<Rightarrow> int \<Rightarrow> response \<Rightarrow> response" where
  "serve_error msg code r =
     http_error msg code (r\<lparr>rs_headers := (rs_headers r)
       (''Cache-Control'' := None, ''Content-Encoding'' := None, ''Etag'' := None, ''Last-Modified'' := None)\<rparr>)"

definition send_content :: "int \<Rightarrow> string \<Rightarrow> request \<Rightarrow> response \<Rightarrow> response" where
  "send_content code body rq r =
     (let r' = write_header code (header_set ''Content-Length'' (show_nat (length body))
        (header_set ''Accept-Ranges'' ''bytes'' r)) in
      if rq_method rq = ''HEAD'' then r' else write_body body r')"

definition slice :: "int \<times> int \<Rightarrow> string \<Rightarrow> string" where
  "slice ra s = take (nat (snd ra)) (drop (nat (fst ra)) s)"

text \<open>The content type and the body of several parts, for the type, the content and the ranges.\<close>

type_synonym multipart = "string \<Rightarrow> string \<Rightarrow> (int \<times> int) list \<Rightarrow> string \<times> string"

definition send_ranges :: "multipart \<Rightarrow> string \<Rightarrow> string \<Rightarrow> (int \<times> int) list \<Rightarrow> request \<Rightarrow> response \<Rightarrow> response" where
  "send_ranges multi ctype content ranges rq r =
     (case ranges of
        [] \<Rightarrow> send_content 200 content rq r
      | [ra] \<Rightarrow>
          send_content 206 (slice ra content) rq
            (header_set ''Content-Range'' (''bytes '' @ show_int (fst ra) @ ''-'' @ show_int (fst ra + snd ra - 1) @ ''/'' @
               show_nat (length content)) r)
      | _ \<Rightarrow> (let (mtype, body) = multi ctype content ranges in send_content 206 body rq (header_set ''Content-Type'' mtype r)))"

definition serveContent :: "multipart \<Rightarrow> string \<Rightarrow> string \<Rightarrow> request \<Rightarrow> response \<Rightarrow> response" where
  "serveContent multi ctype content rq r =
     (case checkPreconditions rq r of
        Some r' \<Rightarrow> r'
      | None \<Rightarrow>
          (let len = int (length content); r = header_set ''Content-Type'' ctype r in
           case parseRange (range_header rq r) len of
             Inl InvalidRange \<Rightarrow> serve_error ''invalid range'' 416 r
           | Inl NoOverlap \<Rightarrow>
               if len = 0 then send_ranges multi ctype content [] rq r
               else serve_error ''invalid range: failed to overlap'' 416
                 (header_set ''Content-Range'' (''bytes */'' @ show_int len) r)
           | Inr ranges \<Rightarrow>
               send_ranges multi ctype content (if len < sum_list (map snd ranges) then [] else ranges) rq r))"

section \<open>Facts\<close>

text \<open>A tag that was scanned is never empty, so none matches a response that has no tag.\<close>

lemma scan_etag_tag:
  assumes "scan_etag s = Some (e, r)"
  shows "e \<noteq> []" and "trim_prefix e ''W/'' \<noteq> []"
proof -
  obtain w t where e: "e = w @ CHR 0x22 # t" "w = [] \<or> w = ''W/''"
  proof -
    have "\<exists>t. e = (if has_prefix (trim_ows s) ''W/'' then take 2 (trim_ows s) else []) @ CHR 0x22 # t"
      using assms by (auto simp: scan_etag_def Let_def split: list.splits if_splits)
    moreover have "has_prefix (trim_ows s) ''W/'' \<Longrightarrow> take 2 (trim_ows s) = ''W/''"
      by (simp add: has_prefix_def numeral_2_eq_2)
    ultimately show thesis using that by (metis (full_types))
  qed
  then show "e \<noteq> []" "trim_prefix e ''W/'' \<noteq> []" by (auto simp: trim_prefix_def has_prefix_def)
qed

lemma etag_list_cong:
  assumes "\<And>s e r. scan_etag s = Some (e, r) \<Longrightarrow> m e = m' e"
  shows "etag_list m buf = etag_list m' buf"
proof (induction buf rule: length_induct)
  case (1 buf)
  have IH: "etag_list m s = etag_list m' s" if "length s < length buf" for s using 1 that by blast
  show ?case
  proof (cases "trim_ows buf")
    case Nil
    then show ?thesis by (simp add: etag_list.simps)
  next
    case (Cons c rest)
    have len: "length rest < length buf" using length_trim_ows [of buf] Cons by simp
    have "length r < length buf" if "scan_etag (c # rest) = Some (e, r)" for e r
      using scan_etag_shorter [OF that] length_trim_ows [of "c # rest"] length_trim_ows [of buf] Cons by simp
    then show ?thesis
      using Cons IH [OF len] IH assms
      by (subst (1 2) etag_list.simps) (auto split: option.split)
  qed
qed

text \<open>The star stands in the list before anything that is not a tag.\<close>

definition names_any :: "string \<Rightarrow> bool" where
  "names_any s \<longleftrightarrow> etag_list (\<lambda>e. False) s"

lemma no_tag_matches:
  "etag_list (\<lambda>e. etagStrongMatch e []) s \<longleftrightarrow> names_any s"
  "etag_list (\<lambda>e. etagWeakMatch e []) s \<longleftrightarrow> names_any s"
  using etag_list_cong [of "\<lambda>e. etagStrongMatch e []" "\<lambda>e. False" s]
    etag_list_cong [of "\<lambda>e. etagWeakMatch e []" "\<lambda>e. False" s] scan_etag_tag
  by (simp_all add: names_any_def etagStrongMatch_def etagWeakMatch_def trim_prefix_def [of "[]"] has_prefix_def)

lemma set_trim_ows: "set (trim_ows s) \<subseteq> set s"
  by (auto simp: trim_ows_def) (metis set_dropWhileD set_rev)

lemma scan_etag_rest: "scan_etag s = Some (e, r) \<Longrightarrow> set r \<subseteq> set s"
  using set_trim_ows [of s]
  by (auto simp: scan_etag_def Let_def split: list.splits if_splits)
    (metis (no_types) in_mono in_set_dropD list.set_intros(2) set_dropWhileD)+

lemma names_any_star: "names_any s \<Longrightarrow> CHR ''*'' \<in> set s"
  unfolding names_any_def
proof (induction "\<lambda>e :: string. False" s rule: etag_list.induct)
  case (1 buf)
  show ?case
  proof (cases "trim_ows buf")
    case Nil
    then show ?thesis using 1(3) by (simp add: etag_list.simps)
  next
    case (Cons c rest)
    then have sub: "set (c # rest) \<subseteq> set buf" using set_trim_ows [of buf] by simp
    have "CHR ''*'' \<in> set (c # rest)"
      using 1 Cons scan_etag_rest [of "c # rest"]
      by (subst (asm) (3) etag_list.simps) (fastforce split: if_splits option.splits)
    with sub show ?thesis by blast
  qed
qed

lemma names_any_samples:
  "names_any ''*''" and "\<not> names_any [CHR 0x22, CHR ''a'', CHR 0x22]"
  by code_simp+

text \<open>Ranges lie within the file.\<close>

lemma range_spec_within:
  assumes "range_spec len ra = Some (Some (i, k))" and "0 \<le> len"
  shows "0 \<le> i \<and> 0 \<le> k \<and> i + k \<le> len"
  using assms by (auto simp: range_spec_def Let_def split: option.splits sum.splits if_splits)

lemma range_list_within:
  "range_list len ras = Some (beyond, rs) \<Longrightarrow> (i, k) \<in> set rs \<Longrightarrow> 0 \<le> len \<Longrightarrow> 0 \<le> i \<and> 0 \<le> k \<and> i + k \<le> len"
proof (induction len ras arbitrary: beyond rs rule: range_list.induct)
  case (2 len ra ras)
  show ?case
  proof (cases "trim_ows ra = []")
    case True
    then show ?thesis using 2 by simp
  next
    case False
    then show ?thesis
      using 2 range_spec_within [of len "trim_ows ra"] by (auto split: option.splits)
  qed
qed simp

lemma parseRange_within:
  "parseRange s len = Inr rs \<Longrightarrow> (i, k) \<in> set rs \<Longrightarrow> 0 \<le> len \<Longrightarrow> 0 \<le> i \<and> 0 \<le> k \<and> i + k \<le> len"
  by (auto simp: parseRange_def dest: range_list_within split: if_splits option.splits)

text \<open>
  What a request gets of a file, by its headers: a part lies within the file, and only a star
  in \<open>If-None-Match\<close> can make the answer 304.
\<close>

definition full_answer :: "string \<Rightarrow> string \<Rightarrow> request \<Rightarrow> response \<Rightarrow> bool" where
  "full_answer ctype content rq resp \<longleftrightarrow>
     rs_status resp = 200 \<and> rs_body resp = (if rq_method rq = ''HEAD'' then [] else content) \<and>
     rs_headers resp ''Content-Type'' = Some ctype \<and>
     rs_headers resp ''Content-Length'' = Some (show_nat (length content))"

definition part_answer :: "multipart \<Rightarrow> string \<Rightarrow> string \<Rightarrow> request \<Rightarrow> response \<Rightarrow> bool" where
  "part_answer multi ctype content rq resp \<longleftrightarrow> rs_status resp = 206 \<and>
     (\<exists>ranges. (\<forall>(i, k) \<in> set ranges. 0 \<le> i \<and> 0 \<le> k \<and> i + k \<le> int (length content)) \<and>
        (rs_body resp = [] \<and> rq_method rq = ''HEAD'' \<or>
         (case ranges of [] \<Rightarrow> False | [ra] \<Rightarrow> rs_body resp = slice ra content
            | _ \<Rightarrow> rs_body resp = snd (multi ctype content ranges))))"

definition file_answer :: "multipart \<Rightarrow> string \<Rightarrow> string \<Rightarrow> request \<Rightarrow> response \<Rightarrow> bool" where
  "file_answer multi ctype content rq resp \<longleftrightarrow>
     (let im = rq_header rq ''If-Match''; inm = rq_header rq ''If-None-Match'' in
      if im \<noteq> [] \<and> \<not> names_any im then rs_status resp = 412 \<and> rs_body resp = []
      else if inm \<noteq> [] \<and> names_any inm then
        rs_status resp = (if get_or_head rq then 304 else 412) \<and> rs_body resp = []
      else if rq_header rq ''Range'' = [] \<or> get_or_head rq \<and> rq_header rq ''If-Range'' \<noteq> [] then
        full_answer ctype content rq resp
      else full_answer ctype content rq resp \<or> part_answer multi ctype content rq resp \<or>
        rs_status resp = 416 \<and> rs_headers resp ''Content-Type'' = Some ''text/plain; charset=utf-8'')"

lemma send_ranges_answer:
  assumes "\<And>i k. (i, k) \<in> set ranges \<Longrightarrow> 0 \<le> i \<and> 0 \<le> k \<and> i + k \<le> int (length content)"
    and "rs_headers r ''Content-Type'' = Some ctype" and "rs_body r = []"
  shows "if ranges = [] then full_answer ctype content rq (send_ranges multi ctype content ranges rq r)
    else part_answer multi ctype content rq (send_ranges multi ctype content ranges rq r)"
proof -
  consider "ranges = []" | ra where "ranges = [ra]" | ra rb ras where "ranges = ra # rb # ras"
    by (metis list.exhaust)
  then show ?thesis
  proof cases
    case 1
    then show ?thesis using assms(2,3) by (simp add: send_ranges_def send_content_def full_answer_def Let_def)
  next
    case 2
    then show ?thesis
      using assms unfolding part_answer_def
      by (auto simp: send_ranges_def send_content_def Let_def intro!: exI [of _ "[ra]"])
  next
    case 3
    then show ?thesis
      using assms unfolding part_answer_def
      by (auto simp: send_ranges_def send_content_def Let_def split: prod.split intro!: exI [of _ "ra # rb # ras"])
  qed
qed

lemma serveContent_answer:
  assumes "rs_headers r ''Etag'' = None" and "rs_body r = []"
  shows "file_answer multi ctype content rq (serveContent multi ctype content rq r)"
proof (cases "checkPreconditions rq r")
  case (Some r')
  then show ?thesis
    using assms
    by (auto simp: checkPreconditions_def serveContent_def file_answer_def response_etag_def no_tag_matches
        writeNotModified_def Let_def split: if_splits)
next
  case None
  define r1 where "r1 = header_set ''Content-Type'' ctype r"
  have r1: "rs_headers r1 ''Content-Type'' = Some ctype" "rs_body r1 = []" "response_etag r1 = []"
    using assms by (simp_all add: r1_def response_etag_def)
  have strong: "\<not> etagStrongMatch e []" for e by (auto simp: etagStrongMatch_def)
  let ?full = "full_answer ctype content rq (serveContent multi ctype content rq r)"
  have any: "?full \<or> part_answer multi ctype content rq (serveContent multi ctype content rq r) \<or>
      rs_status (serveContent multi ctype content rq r) = 416 \<and>
      rs_headers (serveContent multi ctype content rq r) ''Content-Type'' = Some ''text/plain; charset=utf-8''"
  proof (cases "parseRange (range_header rq r1) (int (length content))")
    case (Inl err)
    have "full_answer ctype content rq (send_ranges multi ctype content [] rq r1)"
      using send_ranges_answer [of "[]" content r1 ctype rq multi] r1 by simp
    with Inl None show ?thesis
      by (cases err; cases "content = []") (simp_all add: serveContent_def r1_def [symmetric] serve_error_def Let_def)
  next
    case (Inr rs)
    let ?rs = "if int (length content) < sum_list (map snd rs) then [] else rs"
    have "0 \<le> i \<and> 0 \<le> k \<and> i + k \<le> int (length content)" if "(i, k) \<in> set ?rs" for i k
      using parseRange_within [OF Inr] that by (auto split: if_splits)
    from send_ranges_answer [of ?rs content r1 ctype rq multi, OF this r1(1,2)] show ?thesis
      using None Inr by (auto simp: serveContent_def r1_def [symmetric] Let_def split: if_splits)
  qed
  have full: ?full if "range_header rq r1 = []"
    using None send_ranges_answer [of "[]" content r1 ctype rq multi] r1 that
    by (simp add: serveContent_def r1_def [symmetric] parseRange_def Let_def)
  have rh: "range_header rq r1 = []" if "rq_header rq ''Range'' = [] \<or> get_or_head rq \<and> rq_header rq ''If-Range'' \<noteq> []"
    using that r1(3) strong by (auto simp: range_header_def Let_def split: option.split)
  have pre: "(rq_header rq ''If-Match'' \<noteq> [] \<and> \<not> names_any (rq_header rq ''If-Match'')) = False"
    "(rq_header rq ''If-None-Match'' \<noteq> [] \<and> names_any (rq_header rq ''If-None-Match'')) = False"
    using None assms by (auto simp: checkPreconditions_def response_etag_def no_tag_matches Let_def split: if_splits)
  show ?thesis unfolding file_answer_def Let_def pre if_False using any full rh by presburger
qed

text \<open>No answer has a validator that the response did not have, and only 416 loses \<open>Cache-Control\<close>.\<close>

lemma serveContent_headers:
  assumes "k \<in> {''Etag'', ''Last-Modified'', ''Cache-Control''}"
  shows "rs_headers (serveContent multi ctype content rq r) k =
    (if rs_status (serveContent multi ctype content rq r) = 416 then None else rs_headers r k) \<or>
    rs_headers r ''Etag'' \<noteq> None"
proof -
  have send: "rs_headers (send_content code body rq r') k = rs_headers r' k \<and>
      rs_status (send_content code body rq r') = code" for code body r'
    using assms by (auto simp: send_content_def Let_def)
  have ranges: "rs_headers (send_ranges multi ctype body ranges rq r') k = rs_headers r' k \<and>
      rs_status (send_ranges multi ctype body ranges rq r') \<noteq> 416" for body ranges r'
    using assms by (auto simp: send_ranges_def send Let_def split: list.split prod.split)
  have error: "rs_headers (serve_error msg 416 r') k = None" "rs_status (serve_error msg 416 r') = 416" for msg r'
    using assms by (auto simp: serve_error_def)
  define r1 where "r1 = header_set ''Content-Type'' ctype r"
  have set: "rs_headers r1 k = rs_headers r k" using assms by (auto simp: r1_def)
  show ?thesis
  proof (cases "checkPreconditions rq r")
    case (Some r')
    then show ?thesis
      using assms
      by (auto simp: checkPreconditions_def serveContent_def writeNotModified_def response_etag_def Let_def split: if_splits)
  next
    case None
    show ?thesis
    proof (cases "parseRange (range_header rq r1) (int (length content))")
      case (Inl err)
      with None show ?thesis
        by (cases err; cases "content = []") (simp_all add: serveContent_def r1_def [symmetric] ranges error set Let_def)
    next
      case (Inr rs)
      with None show ?thesis by (simp add: serveContent_def r1_def [symmetric] ranges set Let_def)
    qed
  qed
qed

end
