(* ===== verification/Web_Assets.thy ===== *)
theory Web_Assets
  imports Main_App File_Server
begin

text \<open>
  \<open>internal/web/embed.go\<close>: the embedded assets, and the file server of \<open>net/http\<close>
  through which \<open>main\<close> serves them. The contents of the files, the content type of a name
  and the form of an answer of several parts are arguments. Facts: every embedded file is
  served at its URL, and nothing but an embedded file is ever served, whatever the path and
  whatever conditions and ranges the request names.
\<close>

section \<open>The embedded file system\<close>

text \<open>What \<open>go:embed static\<close> finds, as the subtree of \<open>static\<close> names it.\<close>

definition staticFS :: "string list" where
  "staticFS = [''app.js'', ''favicon.svg'', ''index.html'', ''style.css'', ''wifi.html'', ''wifi.js'']"

text \<open>
  Opening a cleaned rooted path: the root, a file, a name that does not exist, or one that is
  not valid. A path that goes on below a file does not exist, valid or not.
\<close>

datatype opened = Directory | Regular string | Missing | Invalid

definition FS_open :: "string \<Rightarrow> opened" where
  "FS_open name =
     (let n = trim_prefix name [slash] in
      if n = [] then Directory
      else if n \<in> set staticFS then Regular n
      else if to_utf8 n = n \<or> hd (split_on slash n) \<in> set staticFS then Missing
      else Invalid)"

section \<open>The file server\<close>

definition has_suffix :: "string \<Rightarrow> string \<Rightarrow> bool" where
  "has_suffix s t \<longleftrightarrow> has_prefix (rev s) (rev t)"

text \<open>\<open>path.Base\<close>.\<close>

definition path_base :: "string \<Rightarrow> string" where
  "path_base p =
     (if p = [] then ''.''
      else let q = rev (dropWhile (\<lambda>c. c = slash) (rev p));
               b = rev (takeWhile (\<lambda>c. c \<noteq> slash) (rev q)) in
           if b = [] then [slash] else b)"

text \<open>A redirection relative to the request's URL, its query left out.\<close>

definition local_redirect :: "string \<Rightarrow> response \<Rightarrow> response" where
  "local_redirect to r = write_header 301 (header_set ''Location'' to r)"

definition url_path :: "request \<Rightarrow> string" where
  "url_path rq = (if has_prefix (rq_path rq) [slash] then rq_path rq else slash # rq_path rq)"

definition file_server :: "multipart \<Rightarrow> (string \<Rightarrow> string) \<Rightarrow> (string \<Rightarrow> string) \<Rightarrow> static_server" where
  "file_server multi ctype content rq r =
     (let url = url_path rq in
      if has_suffix url ''/index.html'' then local_redirect ''./'' r
      else case FS_open (path_clean url) of
          Missing \<Rightarrow> serve_error ''404 page not found'' 404 r
        | Invalid \<Rightarrow> serve_error ''500 Internal Server Error'' 500 r
        | Directory \<Rightarrow>
            if last url \<noteq> slash then local_redirect (path_base url @ [slash]) r
            else serveContent multi (ctype ''index.html'') (content ''index.html'') rq r
        | Regular n \<Rightarrow>
            if last url = slash then local_redirect (''../'' @ path_base url) r
            else serveContent multi (ctype n) (content n) rq r)"

definition embedded_web ::
  "multipart \<Rightarrow> (string \<Rightarrow> string) \<Rightarrow> (string \<Rightarrow> string) \<Rightarrow> (request \<Rightarrow> string \<Rightarrow> response) \<Rightarrow> web_env" where
  "embedded_web multi ctype content moved = \<lparr>we_assets = file_server multi ctype content, we_moved = moved\<rparr>"

section \<open>Facts\<close>

text \<open>A response that is a file in full.\<close>

definition served :: "(string \<Rightarrow> string) \<Rightarrow> (string \<Rightarrow> string) \<Rightarrow> request \<Rightarrow> string \<Rightarrow> response \<Rightarrow> bool" where
  "served ctype content rq n resp \<longleftrightarrow>
     full_answer (ctype n) (content n) rq resp \<and>
     rs_headers resp ''Cache-Control'' = Some ''no-cache, must-revalidate''"

text \<open>The files a path denotes.\<close>

definition denotes :: "request \<Rightarrow> string \<Rightarrow> bool" where
  "denotes rq n \<longleftrightarrow> n \<in> set staticFS \<and>
     (if last (url_path rq) = slash then n = ''index.html'' \<and> path_clean (url_path rq) = [slash]
      else path_clean (url_path rq) = slash # n)"

lemma index_embedded: "''index.html'' \<in> set staticFS"
  by (simp add: staticFS_def)

lemma FS_open_cases:
  "FS_open (slash # n) = Directory \<longleftrightarrow> n = []"
  "FS_open (slash # n) = Regular k \<longleftrightarrow> n = k \<and> n \<in> set staticFS"
  by (auto simp: FS_open_def trim_prefix_def has_prefix_def staticFS_def Let_def)

lemma path_clean_rooted: "\<exists>n. path_clean (slash # p) = slash # n"
  by (simp add: path_clean_def has_prefix_def Let_def)

lemma url_path_rooted: "\<exists>p. url_path rq = slash # p"
  by (cases "rq_path rq") (auto simp: url_path_def has_prefix_def)

text \<open>A file is served with the header that forbids a cached copy, which only a refused range loses.\<close>

definition no_cache :: response where
  "no_cache = header_set ''Cache-Control'' ''no-cache, must-revalidate'' new_response"

lemma serveContent_no_cache:
  "file_answer multi ctype content rq (serveContent multi ctype content rq no_cache)"
  "rs_headers (serveContent multi ctype content rq no_cache) ''Etag'' = None"
  "rs_headers (serveContent multi ctype content rq no_cache) ''Last-Modified'' = None"
  "rs_headers (serveContent multi ctype content rq no_cache) ''Cache-Control'' =
     (if rs_status (serveContent multi ctype content rq no_cache) = 416 then None else Some ''no-cache, must-revalidate'')"
  using serveContent_answer [of no_cache multi ctype content rq]
    serveContent_headers [of _ multi ctype content rq no_cache]
  by (auto simp: no_cache_def)

text \<open>The file server's answer, by what the path denotes.\<close>

definition static_outcome :: "multipart \<Rightarrow> (string \<Rightarrow> string) \<Rightarrow> (string \<Rightarrow> string) \<Rightarrow> request \<Rightarrow> response \<Rightarrow> bool" where
  "static_outcome multi ctype content rq resp \<longleftrightarrow>
     rs_headers resp ''Etag'' = None \<and> rs_headers resp ''Last-Modified'' = None \<and>
     (if has_suffix (url_path rq) ''/index.html'' then rs_status resp = 301 \<and> rs_headers resp ''Location'' = Some ''./''
      else if \<exists>n. denotes rq n then
        (\<exists>n. denotes rq n \<and> file_answer multi (ctype n) (content n) rq resp) \<and>
        rs_headers resp ''Cache-Control'' =
          (if rs_status resp = 416 then None else Some ''no-cache, must-revalidate'')
      else rs_status resp = 301 \<and> rs_headers resp ''Cache-Control'' = Some ''no-cache, must-revalidate'' \<or>
        rs_status resp \<in> {404, 500} \<and> rs_headers resp ''Cache-Control'' = None)"

lemma static_file:
  assumes "\<not> has_suffix (url_path rq) ''/index.html''" and "denotes rq n"
  shows "static_outcome multi ctype content rq (serveContent multi (ctype n) (content n) rq no_cache)"
proof -
  have "\<exists>n. denotes rq n" using assms(2) ..
  then show ?thesis
    unfolding static_outcome_def if_not_P [OF assms(1)]
    using serveContent_no_cache [of multi "ctype n" "content n" rq] assms(2) by metis
qed

lemma static_other:
  assumes "\<not> has_suffix (url_path rq) ''/index.html''" and "\<And>n. \<not> denotes rq n"
  shows "static_outcome multi ctype content rq (local_redirect to no_cache)"
    and "code \<in> {404, 500} \<Longrightarrow> static_outcome multi ctype content rq (serve_error msg code no_cache)"
  using assms by (auto simp: static_outcome_def local_redirect_def serve_error_def no_cache_def)

lemma static_response:
  "static_outcome multi ctype content rq (noCacheStatic (file_server multi ctype content) rq new_response)"
proof (cases "has_suffix (url_path rq) ''/index.html''")
  case True
  then show ?thesis
    by (simp add: static_outcome_def noCacheStatic_def file_server_def local_redirect_def Let_def)
next
  case False
  obtain p n where p: "url_path rq = slash # p" "path_clean (url_path rq) = slash # n"
    using url_path_rooted path_clean_rooted by metis
  have d: "denotes rq k \<longleftrightarrow> k \<in> set staticFS \<and>
      (if last (url_path rq) = slash then k = ''index.html'' \<and> n = [] else n = k)" for k
    by (simp add: denotes_def p(2))
  have nil: "[] \<notin> set staticFS" by (simp add: staticFS_def)
  have web: "noCacheStatic (file_server multi ctype content) rq new_response =
      (case FS_open (slash # n) of
          Missing \<Rightarrow> serve_error ''404 page not found'' 404 no_cache
        | Invalid \<Rightarrow> serve_error ''500 Internal Server Error'' 500 no_cache
        | Directory \<Rightarrow>
            if last (url_path rq) \<noteq> slash then local_redirect (path_base (url_path rq) @ [slash]) no_cache
            else serveContent multi (ctype ''index.html'') (content ''index.html'') rq no_cache
        | Regular k \<Rightarrow>
            if last (url_path rq) = slash then local_redirect (''../'' @ path_base (url_path rq)) no_cache
            else serveContent multi (ctype k) (content k) rq no_cache)"
    using False by (simp only: noCacheStatic_def file_server_def no_cache_def [symmetric] p(2) Let_def if_False)
  show ?thesis
  proof (cases "FS_open (slash # n)")
    case Directory
    then have n: "n = []" using FS_open_cases(1) by blast
    show ?thesis
    proof (cases "last (url_path rq) = slash")
      case True
      then have "denotes rq ''index.html''" using d n index_embedded by simp
      then show ?thesis using static_file [OF False] True Directory by (simp only: web opened.case) simp
    next
      case last: False
      then have "\<not> denotes rq k" for k using d n nil by auto
      then show ?thesis using static_other(1) [OF False] last Directory by (simp only: web opened.case) simp
    qed
  next
    case (Regular k)
    then have k: "n = k" "n \<in> set staticFS" using FS_open_cases(2) by blast+
    show ?thesis
    proof (cases "last (url_path rq) = slash")
      case True
      then have "\<not> denotes rq j" for j using d k nil by auto
      then show ?thesis using static_other(1) [OF False] True Regular by (simp only: web opened.case) simp
    next
      case last: False
      then have "denotes rq k" using d k by simp
      then show ?thesis using static_file [OF False] last Regular by (simp only: web opened.case) simp
    qed
  next
    case Missing
    then have "\<not> denotes rq k" for k using d FS_open_cases [of n] index_embedded by auto
    then show ?thesis using static_other(2) [OF False] Missing by (simp only: web opened.case) simp
  next
    case Invalid
    then have "\<not> denotes rq k" for k using d FS_open_cases [of n] index_embedded by auto
    then show ?thesis using static_other(2) [OF False] Invalid by (simp only: web opened.case) simp
  qed
qed

lemma static_handled:
  assumes "mux_route rq = Found TStatic"
  shows "\<exists>resp. mux_handler (embedded_web multi ctype content moved) e rq s = (s, resp, []) \<and>
    static_outcome multi ctype content rq resp"
  using static_response by (simp add: mux_handler_def target_handler_def embedded_web_def assms)

section \<open>Properties\<close>



text \<open>The page's files, as its links name them.\<close>

definition asset_request :: "string \<Rightarrow> string \<Rightarrow> request \<Rightarrow> request" where
  "asset_request method n rq = rq\<lparr>rq_method := method, rq_path := slash # n, rq_escaped := slash # n\<rparr>"

lemma asset_route:
  "method \<noteq> ''CONNECT'' \<Longrightarrow> n \<in> set ([] # staticFS) \<Longrightarrow> mux_route (asset_request method n rq) = Found TStatic"
proof -
  assume m: "method \<noteq> ''CONNECT''" and n: "n \<in> set ([] # staticFS)"
  have "\<forall>n \<in> set ([] # staticFS). mux_clean (slash # n) = slash # n \<and> routes (segments (slash # n)) = TStatic"
    by code_simp
  then show ?thesis using m n by (auto simp: mux_route_def asset_request_def slash_def Let_def)
qed

lemma asset_paths:
  "\<forall>n \<in> set staticFS. \<not> has_suffix (slash # (if n = ''index.html'' then [] else n)) ''/index.html''"
  "\<forall>n \<in> set staticFS. path_clean (slash # (if n = ''index.html'' then [] else n)) =
     slash # (if n = ''index.html'' then [] else n)"
  "\<forall>n \<in> set staticFS. last (slash # (if n = ''index.html'' then [] else n)) = slash \<longleftrightarrow> n = ''index.html''"
  by code_simp+

text \<open>
  Every embedded file is served, with its own content, at the path that is its name, and
  the dashboard at the root, to a request without conditions and ranges; only the name of the
  dashboard's file is redirected there.
\<close>

theorem assets_served:
  assumes "n \<in> set staticFS" and "method \<noteq> ''CONNECT''"
    and "rq_header rq ''If-Match'' = []" "rq_header rq ''If-None-Match'' = []" "rq_header rq ''Range'' = []"
  shows "let rq' = asset_request method (if n = ''index.html'' then [] else n) rq in
    \<exists>resp. mux_handler (embedded_web multi ctype content moved) e rq' s = (s, resp, []) \<and> served ctype content rq' n resp"
proof -
  let ?n = "if n = ''index.html'' then [] else n"
  let ?rq = "asset_request method ?n rq"
  have mem: "?n \<in> set ([] # staticFS)" using assms(1) by simp
  obtain resp where r: "mux_handler (embedded_web multi ctype content moved) e ?rq s = (s, resp, [])"
    "static_outcome multi ctype content ?rq resp"
    using static_handled [OF asset_route [OF assms(2) mem]] by blast
  have u: "url_path ?rq = slash # ?n" by (simp add: url_path_def asset_request_def has_prefix_def)
  have "\<not> has_suffix (url_path ?rq) ''/index.html''" using assms(1) asset_paths unfolding u by blast
  moreover have "denotes ?rq k \<longleftrightarrow> k = n" for k
  proof -
    have "path_clean (slash # ?n) = slash # ?n" "last (slash # ?n) = slash \<longleftrightarrow> n = ''index.html''"
      using bspec [OF asset_paths(2) assms(1)] bspec [OF asset_paths(3) assms(1)] .
    then show ?thesis using assms(1) unfolding denotes_def u by (cases "n = ''index.html''") auto
  qed
  ultimately have "file_answer multi (ctype n) (content n) ?rq resp \<and>
      rs_headers resp ''Cache-Control'' = (if rs_status resp = 416 then None else Some ''no-cache, must-revalidate'')"
    using r(2) unfolding static_outcome_def by presburger
  then have "served ctype content ?rq n resp"
    using assms(3-5) by (simp add: file_answer_def served_def full_answer_def asset_request_def)
  with r(1) show ?thesis unfolding Let_def by blast
qed

lemma assets_served_witness:
  "\<exists>resp. mux_handler (embedded_web (\<lambda>c b rs. (c, b)) id id (\<lambda>rq q. new_response)) api_sample_env
      (asset_request ''GET'' ''app.js'' main_sample_request) api_sample_server = (api_sample_server, resp, []) \<and>
    served id id (asset_request ''GET'' ''app.js'' main_sample_request) ''app.js'' resp"
proof -
  have h: "''app.js'' \<in> set staticFS" "''GET'' \<noteq> ''CONNECT''" by (simp_all add: staticFS_def)
  have hs: "rq_header main_sample_request ''If-Match'' = []" "rq_header main_sample_request ''If-None-Match'' = []"
    "rq_header main_sample_request ''Range'' = []"
    by (simp_all add: main_sample_request_def admin_post_def)
  have n: "(if ''app.js'' = ''index.html'' then [] else ''app.js'') = ''app.js''" by simp
  show ?thesis
    using assets_served [OF h hs, where multi = "\<lambda>c b rs. (c, b)" and ctype = id and content = id and moved = "\<lambda>rq q. new_response"
        and e = api_sample_env and s = api_sample_server]
    by (simp only: n Let_def)
qed

end
