(* ===== verification/Payload_Json.thy ===== *)
theory Payload_Json
  imports Api
begin

text \<open>
  The payload of \<open>/api/stats\<close> as the client reads it: the indented JSON that the handler
  writes parses back to the payload's document, for whatever the collectors gathered. The
  text of a float is an argument of the encoder, which has to be a number literal of JSON.
\<close>

section \<open>Number literals\<close>

lemma digit_in_bytes: "d < 10 \<Longrightarrow> in_bytes 48 57 (digit_char d) \<and> (0 < d \<longrightarrow> in_bytes 49 57 (digit_char d))"
  by (simp add: in_bytes_def byte_def digit_char_def of_char_int)

lemma num_run_append:
  "num_run n (u @ v) = (case num_run n u of None \<Rightarrow> None | Some n' \<Rightarrow> num_run n' v)"
  by (induction u arbitrary: n) (auto split: option.split)

lemma show_nat_literal:
  "0 < n \<Longrightarrow> \<exists>c u. show_nat n = c # u \<and> in_bytes 49 57 c \<and> num_run NInt u = Some NInt"
proof (induction n rule: show_nat.induct)
  case (1 n)
  show ?case
  proof (cases "n < 10")
    case True
    then show ?thesis using 1 digit_in_bytes [of n] by (simp add: show_nat.simps [of n])
  next
    case False
    then have "0 < n div 10" by (simp add: div_greater_zero_iff)
    with False 1 obtain c u where "show_nat (n div 10) = c # u" "in_bytes 49 57 c" "num_run NInt u = Some NInt"
      by blast
    then show ?thesis
      using False digit_in_bytes [of "n mod 10"] by (simp add: show_nat.simps [of n] num_run_append)
  qed
qed

lemma num_literal_show_nat: "num_literal (show_nat n)"
proof (cases "n = 0")
  case False
  then obtain c u where s: "show_nat n = c # u" "in_bytes 49 57 c" "num_run NInt u = Some NInt"
    using show_nat_literal [of n] by auto
  moreover have "c \<noteq> CHR ''-'' \<and> c \<noteq> CHR ''0''" using s(2) by (auto simp: in_bytes_def byte_def)
  ultimately show ?thesis by (simp add: num_literal_def num_start_def num_done_def)
qed (simp add: num_literal_def num_start_def num_done_def)

lemma num_literal_show_int: "num_literal (show_int i)"
proof (cases "i < 0")
  case True
  then obtain c u where s: "show_nat (nat (- i)) = c # u" "in_bytes 49 57 c" "num_run NInt u = Some NInt"
    using show_nat_literal [of "nat (- i)"] by auto
  moreover have "c \<noteq> CHR ''0''" using s(2) by (auto simp: in_bytes_def byte_def)
  ultimately show ?thesis using True by (simp add: show_int_def num_literal_def num_start_def num_done_def)
qed (simp add: show_int_def num_literal_show_nat)

section \<open>Sections fit the reader's limits\<close>

definition section_ok :: "int \<Rightarrow> json option \<Rightarrow> bool" where
  "section_ok d v \<longleftrightarrow> (\<forall>j. v = Some j \<longrightarrow> json_ok d j)"

lemma section_ok_leaf [simp]:
  "section_ok d (json_str s)" "section_ok d (json_u64 u)" "section_ok d (json_int i)" "section_ok d (json_bool b)"
  by (simp_all add: section_ok_def json_str_def json_u64_def json_int_def json_bool_def num_literal_show_nat
      num_literal_show_int)

lemma section_ok_f64 [simp]: "(\<And>a. num_literal (fmt a)) \<Longrightarrow> section_ok d (json_f64 fmt x)"
  by (simp add: section_ok_def json_f64_def split: float64.split)

lemma all_members_ok:
  "all_members ms = Some xs \<Longrightarrow> list_all (\<lambda>m. section_ok d (snd m)) ms \<Longrightarrow> x \<in> set xs \<Longrightarrow> json_ok d (snd x)"
  by (induction ms arbitrary: xs rule: all_members.induct) (auto simp: section_ok_def split: option.splits)

lemma section_ok_obj:
  assumes "d < max_depth" and "list_all (\<lambda>m. section_ok (d + 1) (snd m)) ms"
  shows "section_ok d (json_obj ms)"
  using assms(1) all_members_ok [OF _ assms(2)] by (auto simp: section_ok_def json_obj_def)

lemma section_ok_error: "list_all (\<lambda>m. section_ok d (snd m)) (error_member err)"
  by (simp add: error_member_def)

lemma those_member: "those os = Some ys \<Longrightarrow> y \<in> set ys \<Longrightarrow> Some y \<in> set os"
  by (induction os arbitrary: ys) (auto split: option.splits)

lemma section_ok_arr:
  assumes "d < max_depth" and "\<And>x. x \<in> set xs \<Longrightarrow> section_ok (d + 1) (f x)"
  shows "section_ok d (map_option JArr (those (map f xs)))"
proof -
  have "json_ok (d + 1) y" if "those (map f xs) = Some ys" "y \<in> set ys" for y ys
    using those_member [OF that] assms(2) by (auto simp: section_ok_def image_iff)
  then show ?thesis using assms(1) by (auto simp: section_ok_def)
qed

lemma sections_ok:
  assumes "\<And>a. num_literal (fmt a)" and "d + 3 < max_depth"
  shows "section_ok d (interface_json fmt i)" "section_ok d (client_json c)" "section_ok d (hotspot_json h)"
    "section_ok d (wan_json fmt w)" "section_ok d (admin_json a)" "section_ok d (system_json fmt y)"
    "section_ok d (meta_json m)" "section_ok d (interfaces_json fmt ifs)"
proof -
  have i: "section_ok k (interface_json fmt i)" if "k < max_depth" for k i
    unfolding interface_json_def using that assms(1) by (intro section_ok_obj) simp_all
  have c: "section_ok k (client_json c)" if "k < max_depth" for k c
    unfolding client_json_def using that by (intro section_ok_obj) simp_all
  show "section_ok d (interface_json fmt i)" "section_ok d (client_json c)" using i c assms(2) by simp_all
  have "section_ok (d + 1) (map_option JArr (those (map client_json (ho_Clients h))))"
    by (rule section_ok_arr) (use assms(2) c in simp_all)
  then show "section_ok d (hotspot_json h)"
    unfolding hotspot_json_def using assms(2) by (intro section_ok_obj) (simp_all add: section_ok_error)
  show "section_ok d (wan_json fmt w)"
    unfolding wan_json_def Let_def using assms by (intro section_ok_obj) (simp_all add: section_ok_error)
  show "section_ok d (admin_json a)"
    unfolding admin_json_def using assms by (intro section_ok_obj) (simp_all add: section_ok_error)
  show "section_ok d (system_json fmt y)"
    unfolding system_json_def Let_def using assms by (intro section_ok_obj) (simp_all add: section_ok_error)
  show "section_ok d (meta_json m)"
    unfolding meta_json_def using assms by (intro section_ok_obj) simp_all
  have "section_ok (d + 1) (case ifs k of None \<Rightarrow> None | Some v \<Rightarrow> interface_json fmt v)" for k
    using i assms(2) by (simp add: section_ok_def split: option.split)
  then show "section_ok d (interfaces_json fmt ifs)"
    unfolding interfaces_json_def using assms(2) by (intro section_ok_obj) (simp_all add: list_all_iff)
qed

lemma stats_json_ok:
  assumes "\<And>a. num_literal (fmt a)" and "stats_json fmt p = Some j"
  shows "json_ok 0 j \<and> (\<nexists>w. j = JNum w)"
proof -
  have "section_ok 0 (stats_json fmt p)"
    unfolding stats_json_def
    by (intro section_ok_obj) (simp_all add: max_depth_def sections_ok [where fmt = fmt, OF assms(1)])
  moreover have "\<nexists>w. j = JNum w" using assms(2) by (auto simp: stats_json_def json_obj_def)
  ultimately show ?thesis using assms(2) by (simp add: section_ok_def)
qed

lemma h_Stats_body:
  assumes "\<And>a. num_literal (av_fmt e a)"
  shows "(case stats_json (av_fmt e) (fst (snd (stats_of e rq s))) of
      None \<Rightarrow> rs_body (fst (snd (h_Stats e rq s))) = []
    | Some j \<Rightarrow> json_whole (rs_body (fst (snd (h_Stats e rq s)))) = Some (json_utf8 j))"
proof -
  obtain s' p effs where p: "stats_of e rq s = (s', p, effs)" by (cases "stats_of e rq s")
  show ?thesis
    using stats_json_ok [OF assms, where p = p] json_whole_indented
    by (auto simp: p h_Stats_def json_content_type_def Let_def split: option.split)
qed

end
