(* ===== verification/Whole_System.thy ===== *)
theory Whole_System
  imports Main_App Payload_Json
begin

text \<open>
  The running server as one state machine: the ticks of the two background collectors and
  the requests that pass through the whole handler, in any order, on the state that
  \<open>main\<close> builds. Facts: an invariant of the collectors and the payload, in particular
  that every Go \<open>int\<close> and \<open>int64\<close> field, which the model holds as an unbounded
  integer, stays within 64 bits.
\<close>

section \<open>Steps\<close>

text \<open>A conversion from a float that is out of range gives some \<open>int64\<close>.\<close>

definition int64 :: "int \<Rightarrow> bool" where
  "int64 i \<longleftrightarrow> - (2 ^ 63) \<le> i \<and> i < 2 ^ 63"

definition env_ok :: "api_env \<Rightarrow> bool" where
  "env_ok e \<longleftrightarrow> (\<forall>x. int64 (av_oor e x))"

type_synonym app_state = "authCache \<times> Server"

definition app_start :: "config \<Rightarrow> time \<Rightarrow> app_state" where
  "app_start cfg t = (Map.empty, main_server cfg t)"

inductive app_step :: "(string \<Rightarrow> string) \<Rightarrow> web_env \<Rightarrow> config \<Rightarrow> app_state \<Rightarrow> app_state \<Rightarrow> bool" for sha w cfg where
  netstats_tick: "sv_netstats s = Some c \<Longrightarrow>
     app_step sha w cfg (cache, s) (cache, s\<lparr>sv_netstats := Some (ns_tick e c)\<rparr>)"
| system_tick: "sv_system s = Some c \<Longrightarrow>
     app_step sha w cfg (cache, s) (cache, s\<lparr>sv_system := Some (sy_tick e c)\<rparr>)"
| request: "env_ok (pv_api e) \<Longrightarrow>
     app_step sha w cfg (cache, s) (fst (main_handler sha w cfg e rq (cache, s)))"

inductive_cases app_stepE: "app_step sha w cfg st st'"

section \<open>The collectors' invariants\<close>

lemma int64_0 [simp]: "int64 0"
  by (simp add: int64_def)

lemma parseFirstInt_int64: "int64 (parseFirstInt s)" "int64 (wan_parseFirstInt s)"
  using parse_int64_bound
  by (auto simp: parseFirstInt_def wan_parseFirstInt_def int64_def split: list.split sum.split)

lemma f64_to_int_int64: "(\<And>x. int64 (oor x)) \<Longrightarrow> int64 (f64_to_int oor x)"
  by (auto simp: f64_to_int_def int64_def Let_def split: float64.split)

subsection \<open>Stations\<close>

definition clients_typed :: "Client list \<Rightarrow> bool" where
  "clients_typed cs \<longleftrightarrow> (\<forall>cl \<in> set cs. int64 (cl_SignalDBm cl))"

definition station_typed :: "station_state \<Rightarrow> bool" where
  "station_typed st \<longleftrightarrow> (\<forall>cl. fst st = Some cl \<longrightarrow> int64 (cl_SignalDBm cl)) \<and> clients_typed (snd st)"

lemma flush_typed: "station_typed st \<Longrightarrow> station_typed (flush st) \<and> clients_typed (snd (flush st))"
  by (auto simp: flush_def station_typed_def clients_typed_def split: prod.split option.split)

lemma station_line_typed:
  assumes "station_typed st"
  shows "station_typed (station_line uni l st)"
proof -
  have "int64 (cl_SignalDBm (client_field k v cl))" if "int64 (cl_SignalDBm cl)" for k v cl
    using that by (simp add: client_field_def parseFirstInt_int64)
  then have f: "station_typed (Some (client_field k v cl), snd st)" if "fst st = Some cl" for k v cl
    using assms that by (simp add: station_typed_def)
  have n: "station_typed (Some (new_Client m), snd (flush st))" for m
    using flush_typed [OF assms] by (simp add: station_typed_def new_Client_def)
  show ?thesis
    using assms flush_typed [OF assms] f n
    by (simp add: station_line_def Let_def split: option.split prod.split)
qed

lemma parseStationDump_typed: "clients_typed (parseStationDump uni raw)"
proof -
  have "station_typed (fold (station_line uni) ls st)" if "station_typed st" for ls st
    using that by (induction ls arbitrary: st) (simp_all add: station_line_typed)
  moreover have "station_typed (None, [])" by (simp add: station_typed_def clients_typed_def)
  ultimately have "station_typed (fold (station_line uni) (scan_lines large_token_limit raw) (None, []))" by blast
  from flush_typed [OF this] show ?thesis by (simp only: parseStationDump_def)
qed

definition hs_typed :: "string \<Rightarrow> hs_Collector \<Rightarrow> bool" where
  "hs_typed iface c \<longleftrightarrow> hs_iface c = iface \<and> clients_typed (hs_Clients (hs_snap c))"

lemma hs_stations_typed: "clients_typed (hs_stations uni e out)"
  using parseStationDump_typed [of uni out]
  by (auto simp: hs_stations_def clients_typed_def enrich_def split: sum.split option.split)

lemma clients_typed_Nil [simp]: "clients_typed []"
  by (simp add: clients_typed_def)

lemma hs_refresh_typed: "hs_typed iface c \<Longrightarrow> hs_typed iface (fst (hs_refresh uni e c))"
  by (simp add: hs_typed_def hs_refresh_def hs_refresh_ok_def hs_stations_typed Let_def split: sum.split)

subsection \<open>The link\<close>

definition link_typed :: "linkResult \<Rightarrow> bool" where
  "link_typed l \<longleftrightarrow> int64 (lr_signalDBm l) \<and> int64 (lr_freqMHz l)"

lemma link_loop_typed:
  assumes "\<And>x. int64 (oor x)"
  shows "link_typed out \<Longrightarrow> link_typed (link_loop uni oor out ls)"
proof (induction ls arbitrary: out)
  case (Cons l ls)
  have "int64 (f64_to_int oor (parseFirstFloat v))" for v using assms by (rule f64_to_int_int64)
  then have f: "link_typed (link_field oor k v out)" for k v
    using Cons.prems by (simp add: link_field_def link_typed_def parseFirstInt_int64)
  have c: "link_typed (out\<lparr>lr_connected := True\<rparr>)" "link_typed (out\<lparr>lr_connected := True, lr_bssid := m\<rparr>)" for m
    using Cons.prems by (simp_all add: link_typed_def)
  have z: "link_typed zero_link" by (simp add: link_typed_def zero_link_def)
  show ?case
    using Cons.IH [OF f] Cons.IH [OF c(1)] Cons.IH [OF c(2)] Cons.IH [OF Cons.prems] z
    by (simp add: Let_def split: option.split prod.split)
qed simp

lemma parseIwLink_typed: "(\<And>x. int64 (oor x)) \<Longrightarrow> link_typed (parseIwLink uni oor raw)"
  unfolding parseIwLink_def by (rule link_loop_typed) (simp_all add: link_typed_def zero_link_def)

definition wn_typed :: "string \<Rightarrow> wn_Collector \<Rightarrow> bool" where
  "wn_typed iface c \<longleftrightarrow> wn_iface c = iface \<and> info_ok iface (wn_Info (wn_snap c)) \<and>
     int64 (wi_SignalDBm (wn_Info (wn_snap c))) \<and> int64 (wi_FreqMHz (wn_Info (wn_snap c)))"

lemma wn_refresh_typed:
  assumes "\<And>x. int64 (oor x)" and "wn_typed iface c"
  shows "wn_typed iface (fst (wn_refresh uni oor e c))"
proof -
  have "link_typed (parseIwLink uni oor raw)" for raw using assms(1) by (rule parseIwLink_typed)
  then have "int64 (wi_SignalDBm (wn_Info (wn_snap (fst (wn_refresh uni oor e c))))) \<and>
      int64 (wi_FreqMHz (wn_Info (wn_snap (fst (wn_refresh uni oor e c)))))"
    using assms(2)
    by (auto simp: wn_typed_def wn_refresh_defs blank_Info_def connected_Info_def link_typed_def split: sum.split)
  then show ?thesis
    using assms(2) wn_refresh_info_ok [of c uni oor e] by (simp add: wn_typed_def)
qed

subsection \<open>The others\<close>

definition ad_typed :: "string \<Rightarrow> ad_Collector \<Rightarrow> bool" where
  "ad_typed iface c \<longleftrightarrow> ad_iface c = iface \<and> ad_Interface (ad_Info (ad_snap c)) = iface"

lemma ad_refresh_typed: "ad_typed iface c \<Longrightarrow> ad_typed iface (fst (ad_refresh e c))"
  by (auto simp: ad_typed_def ad_refresh_defs new_ad_Info_def split: sum.split)

definition ns_typed :: "string set \<Rightarrow> ns_Collector \<Rightarrow> bool" where
  "ns_typed names c \<longleftrightarrow> set (ns_ifaces c) = names \<and> dom (ns_Interfaces (ns_snap c)) = names \<and>
     (\<forall>name st. ns_Interfaces (ns_snap c) name = Some st \<longrightarrow> is_rate (is_RxMbps st) \<and> is_rate (is_TxMbps st))"

lemma ns_tick_typed: "ns_typed names c \<Longrightarrow> ns_typed names (ns_tick e c)"
  using iface_stats_rates [of e "ns_prev c" "current_samples e (ns_ifaces c)"]
  by (auto simp: ns_typed_def dom_tick ns_tick_interfaces ns_tick_def [of e c] Let_def fold_upd split: if_splits)

definition sy_typed :: "sy_Collector \<Rightarrow> bool" where
  "sy_typed c \<longleftrightarrow> f64_finite (TempCelsius (sy_Info (sy_snap c)))"

lemma sy_tick_typed: "sy_typed (sy_tick e c)"
  by (simp add: sy_typed_def sy_tick_eq tick_temp_finite)

section \<open>The server's invariant\<close>

definition configured :: "config \<Rightarrow> string set" where
  "configured cfg = {HotspotIf cfg, WANIf cfg, AdminIf cfg} - {[]}"

definition server_inv :: "config \<Rightarrow> Server \<Rightarrow> bool" where
  "server_inv cfg s \<longleftrightarrow> sv_cfg s = cfg \<and>
     (\<exists>c. sv_netstats s = Some c \<and> ns_typed (configured cfg) c) \<and>
     (\<exists>c. sv_hotspot s = Some c \<and> hs_typed (HotspotIf cfg) c) \<and>
     (\<exists>c. sv_wan s = Some c \<and> wn_typed (WANIf cfg) c) \<and>
     (\<exists>c. sv_admin s = Some c \<and> ad_typed (AdminIf cfg) c) \<and>
     (\<exists>c. sv_system s = Some c \<and> sy_typed c)"

lemma server_start: "server_inv cfg (main_server cfg t)"
proof -
  have "ns_typed (configured cfg) (ns_New cfg t)"
    by (auto simp: ns_typed_def configured_def ns_New_def ns_newWithDeps_def dom_initialInterfaces set_filterEmpty
        initialInterfaces_def fold_upd empty_stats_def split: if_splits)
  moreover have "hs_typed (HotspotIf cfg) (hs_New cfg t)" by (simp add: hs_typed_def hs_New_def hs_newWithDeps_def)
  moreover have "wn_typed (WANIf cfg) (wn_New cfg t)"
    using info_ok_unlinked(2) by (simp add: wn_typed_def wn_New_def wn_newWithDeps_def) (simp add: blank_Info_def)
  moreover have "ad_typed (AdminIf cfg) (ad_New cfg t)"
    by (simp add: ad_typed_def ad_New_def ad_newWithDeps_def new_ad_Info_def)
  moreover have "sy_typed (sy_New t)"
    by (simp add: sy_typed_def sy_New_def sy_newWithDeps_def zero_Info_def f64_finite_def)
  ultimately show ?thesis by (simp add: server_inv_def main_server_def api_New_def)
qed

text \<open>Each section of the payload: the collector after its call, and what is shown of it.\<close>

lemma hotspot_section:
  assumes "server_inv cfg s"
  obtains c s' ho effs where "hotspotFromCollector e s = (s', ho, effs)" "server_inv cfg s'"
    "hs_typed (HotspotIf cfg) c" "ho_Interface ho = HotspotIf cfg"
    "ho_Clients ho = map api_client (hs_Clients (hs_snap c))" "ho_ClientCount ho = length (ho_Clients ho)"
proof -
  obtain c0 where c0: "sv_hotspot s = Some c0" "hs_typed (HotspotIf cfg) c0" using assms by (auto simp: server_inv_def)
  obtain c' effs snap where sn: "hs_Snapshot_of (av_uni e) (fst (av_hs e)) (snd (av_hs e)) c0 = ((c', effs), snap)"
    by (metis prod.exhaust)
  have typed: "hs_typed (HotspotIf cfg) c'"
    using hs.snapshot_keeps [of "hs_typed (HotspotIf cfg)", OF c0(2) hs_refresh_typed] sn by (metis fst_conv)
  have "snap = hs_snap c'" using hs.snapshot_loads sn by (metis fst_conv snd_conv)
  then show ?thesis
    using that [of "s\<lparr>sv_hotspot := Some c'\<rparr>" _ _ c'] typed assms c0(1) sn
    by (simp add: hotspotFromCollector_def hotspot_shown_def server_inv_def)
qed

lemma wan_section:
  assumes "server_inv cfg s" and "env_ok e"
  obtains c s' wa effs where "wanFromCollector e s = (s', wa, effs)" "server_inv cfg s'"
    "wn_typed (WANIf cfg) c" "wa_Info wa = wn_Info (wn_snap c)"
proof -
  obtain c0 where c0: "sv_wan s = Some c0" "wn_typed (WANIf cfg) c0" using assms by (auto simp: server_inv_def)
  obtain c' effs snap where
    sn: "wn_Snapshot_of (av_uni e) (av_oor e) (fst (av_wn e)) (snd (av_wn e)) c0 = ((c', effs), snap)"
    by (metis prod.exhaust)
  have oor: "int64 (av_oor e x)" for x using assms(2) by (simp add: env_ok_def)
  have "wn_typed (WANIf cfg) (fst (fst (wn_Snapshot_of (av_uni e) (av_oor e) (fst (av_wn e)) (snd (av_wn e)) c0)))"
    by (rule wn.snapshot_keeps [of "wn_typed (WANIf cfg)", OF c0(2)]) (rule wn_refresh_typed [OF oor])
  then have typed: "wn_typed (WANIf cfg) c'" by (simp add: sn)
  have "snap = wn_snap c'" using wn.snapshot_loads sn by (metis fst_conv snd_conv)
  then show ?thesis
    using that [of "s\<lparr>sv_wan := Some c'\<rparr>" _ _ c'] typed assms c0(1) sn
    by (simp add: wanFromCollector_def wan_shown_def server_inv_def)
qed

lemma admin_section:
  assumes "server_inv cfg s"
  obtains c s' am effs where "adminFromCollector e s = (s', am, effs)" "server_inv cfg s'"
    "ad_typed (AdminIf cfg) c" "am_Info am = ad_Info (ad_snap c)"
proof -
  obtain c0 where c0: "sv_admin s = Some c0" "ad_typed (AdminIf cfg) c0" using assms by (auto simp: server_inv_def)
  obtain c' effs snap where sn: "ad_Snapshot_of (fst (av_ad e)) (snd (av_ad e)) c0 = ((c', effs), snap)"
    by (metis prod.exhaust)
  have typed: "ad_typed (AdminIf cfg) c'"
    using ad.snapshot_keeps [of "ad_typed (AdminIf cfg)", OF c0(2) ad_refresh_typed] sn by (metis fst_conv)
  have "snap = ad_snap c'" using ad.snapshot_loads sn by (metis fst_conv snd_conv)
  then show ?thesis
    using that [of "s\<lparr>sv_admin := Some c'\<rparr>" _ _ c'] typed assms c0(1) sn
    by (simp add: adminFromCollector_def admin_shown_def server_inv_def)
qed

text \<open>The whole payload.\<close>

definition payload_typed :: "config \<Rightarrow> Stats \<Rightarrow> bool" where
  "payload_typed cfg p \<longleftrightarrow>
     (\<forall>cl \<in> set (ho_Clients (st_Hotspot p)). int64 (hc_SignalDBm cl)) \<and>
     int64 (wi_SignalDBm (wa_Info (st_WAN p))) \<and> int64 (wi_FreqMHz (wa_Info (st_WAN p))) \<and>
     int64 (me_UptimeSeconds (st_Meta p))"

definition payload_sections :: "config \<Rightarrow> Stats \<Rightarrow> bool" where
  "payload_sections cfg p \<longleftrightarrow>
     dom (st_Interfaces p) = configured cfg \<and>
     ho_Interface (st_Hotspot p) = HotspotIf cfg \<and> ho_ClientCount (st_Hotspot p) = length (ho_Clients (st_Hotspot p)) \<and>
     info_ok (WANIf cfg) (wa_Info (st_WAN p)) \<and>
     ad_Interface (am_Info (st_Admin p)) = AdminIf cfg"

lemma stats_of_inv:
  assumes "server_inv cfg s" and "env_ok e"
  obtains s' p effs where "stats_of e rq s = (s', p, effs)" "server_inv cfg s'" "payload_typed cfg p"
    "payload_sections cfg p"
proof -
  obtain c1 s1 ho e1 where 1: "hotspotFromCollector e s = (s1, ho, e1)" "server_inv cfg s1"
    "hs_typed (HotspotIf cfg) c1" "ho_Interface ho = HotspotIf cfg"
    "ho_Clients ho = map api_client (hs_Clients (hs_snap c1))" "ho_ClientCount ho = length (ho_Clients ho)"
    using hotspot_section [OF assms(1)] by metis
  obtain c2 s2 wa e2 where 2: "wanFromCollector e s1 = (s2, wa, e2)" "server_inv cfg s2"
    "wn_typed (WANIf cfg) c2" "wa_Info wa = wn_Info (wn_snap c2)"
    using wan_section [OF 1(2) assms(2)] by metis
  obtain c3 s3 am e3 where 3: "adminFromCollector e s2 = (s3, am, e3)" "server_inv cfg s3"
    "ad_typed (AdminIf cfg) c3" "am_Info am = ad_Info (ad_snap c3)"
    using admin_section [OF 2(2)] by metis
  obtain p effs where p: "stats_of e rq s = (s3, p, effs)" "st_Interfaces p = interfacesFromNetstats s"
    "st_Hotspot p = ho" "st_WAN p = wa" "st_Admin p = am" "st_Meta p = meta_of e rq s3"
    by (simp add: stats_of_def 1(1) 2(1) 3(1))
  have up: "int64 (me_UptimeSeconds (meta_of e rq s3))"
    using assms(2) by (simp add: meta_of_def request_meta_def env_ok_def f64_to_int_int64)
  obtain c0 where "sv_netstats s = Some c0" "ns_typed (configured cfg) c0"
    using assms(1) by (auto simp: server_inv_def)
  then have "dom (interfacesFromNetstats s) = configured cfg"
    by (simp add: interfacesFromNetstats_def interfaces_shown_def ns_Snapshot_of_def ns_typed_def dom_map_option_comp)
  then have "payload_sections cfg p"
    using 1 2 3 by (simp add: payload_sections_def p wn_typed_def ad_typed_def)
  moreover have "payload_typed cfg p"
    using 1 2 up by (auto simp: payload_typed_def p hs_typed_def clients_typed_def api_client_def wn_typed_def)
  ultimately show ?thesis using that p(1) 3(2) by blast
qed

lemma main_handler_inv:
  assumes "server_inv cfg s" and "env_ok (pv_api e)"
  shows "server_inv cfg (snd (fst (main_handler sha w cfg' e rq (cache, s))))"
proof -
  have "server_inv cfg (fst (h_Stats (pv_api e) rq' s))" for rq'
  proof -
    obtain s' p effs where "stats_of (pv_api e) rq' s = (s', p, effs)" "server_inv cfg s'"
      using stats_of_inv [OF assms, of rq'] by blast
    then show ?thesis by (simp add: h_Stats_def Let_def)
  qed
  then have "server_inv cfg (fst (mux_handler w (pv_api e) rq' s))" for rq'
    using assms(1) privileged_keeps
    by (auto simp: mux_handler_def target_handler_def h_Healthz_def split: mux_result.split target.split)
  then have k: "server_inv cfg s'" if "mux_handler w (pv_api e) rq' s = (s', out)" for rq' s' out
    using that by (metis fst_conv)
  then show ?thesis
    using assms(1)
    by (auto simp: main_handler_def logRequests_parts az_Middleware_def Let_def split: verdict.split prod.split dest: k)
qed

lemma app_reach_inv:
  assumes "(app_step sha w cfg)\<^sup>*\<^sup>* (app_start cfg t) st"
  shows "server_inv cfg (snd st)"
  using assms
proof (induction rule: rtranclp_induct)
  case (step st st')
  from step(2,3) show ?case
    by (elim app_stepE) (auto simp: main_handler_inv, auto simp: server_inv_def ns_tick_typed sy_tick_typed)
qed (simp add: app_start_def server_start)

section \<open>Properties\<close>

text \<open>A run of one tick of the system collector, whose load file holds a \<open>nan\<close>.\<close>

definition app_sample_state :: app_state where
  "app_sample_state = (Map.empty, (main_server main_sample_config 0)\<lparr>sv_system := Some (sy_tick sample_sy_env (sy_New 0))\<rparr>)"

lemma app_sample_run: "(app_step id w main_sample_config)\<^sup>*\<^sup>* (app_start main_sample_config 0) app_sample_state"
proof -
  have "app_step id w main_sample_config (Map.empty, main_server main_sample_config 0) app_sample_state"
    unfolding app_sample_state_def by (rule app_step.system_tick) (simp add: main_server_def api_New_def)
  then show ?thesis by (auto simp: app_start_def)
qed

lemma api_sample_env_ok: "env_ok api_sample_env"
  by (simp add: env_ok_def api_sample_env_def)

text \<open>
  However ticks and requests interleave, the numbers of the payload that the code holds
  as Go integers fit in 64 bits: the signal of every station and of the WAN link, its
  frequency, and the uptime.
\<close>

theorem app_payload_typed:
  assumes "(app_step sha w cfg)\<^sup>*\<^sup>* (app_start cfg t) st" and "env_ok e"
  shows "payload_typed cfg (fst (snd (stats_of e rq (snd st))))"
  by (rule stats_of_inv [OF app_reach_inv [OF assms(1)] assms(2), of rq]) simp

lemma app_payload_typed_witness:
  "payload_typed main_sample_config (fst (snd (stats_of api_sample_env main_sample_request (snd app_sample_state))))"
  by (rule app_payload_typed [OF app_sample_run [of main_sample_web] api_sample_env_ok])

text \<open>
  However ticks and requests interleave, the payload's sections agree with the
  configuration: there is an entry for each configured interface and for no other, the
  hotspot's count is that of its clients, and the WAN section is that of a connected, present
  interface or blank.
\<close>

theorem app_payload_sections:
  assumes "(app_step sha w cfg)\<^sup>*\<^sup>* (app_start cfg t) st" and "env_ok e"
  shows "payload_sections cfg (fst (snd (stats_of e rq (snd st))))"
  by (rule stats_of_inv [OF app_reach_inv [OF assms(1)] assms(2), of rq]) simp

lemma app_payload_sections_witness:
  "payload_sections main_sample_config (fst (snd (stats_of api_sample_env main_sample_request (snd app_sample_state))))"
  by (rule app_payload_sections [OF app_sample_run [of main_sample_web] api_sample_env_ok])

lemma payload_finite:
  assumes "server_inv cfg s"
  shows "interfaces_json fmt (interfacesFromNetstats s) \<noteq> None" "f64_finite (TempCelsius (ss_Info (systemFromCollector e s)))"
proof -
  obtain c y where c: "sv_netstats s = Some c" "ns_typed (configured cfg) c" "sv_system s = Some y" "sy_typed y"
    using assms by (auto simp: server_inv_def)
  have fin: "finite (dom (interfacesFromNetstats s))"
    using c(1,2) by (simp add: interfacesFromNetstats_def interfaces_shown_def ns_Snapshot_of_def ns_typed_def dom_map_option_comp configured_def)
  have "f64_finite (if_RxMbps i) \<and> f64_finite (if_TxMbps i)" if "interfacesFromNetstats s k = Some i" for k i
    using that c(1,2) is_rate_finite
    by (auto simp: interfacesFromNetstats_def interfaces_shown_def ns_Snapshot_of_def ns_typed_def)
  then show "interfaces_json fmt (interfacesFromNetstats s) \<noteq> None"
    using interfaces_json_None [OF fin, of fmt] by blast
  show "f64_finite (TempCelsius (ss_Info (systemFromCollector e s)))"
    using c(3,4) by (simp add: systemFromCollector_def system_shown_def sy_Snapshot_of_def sy_typed_def Let_def)
qed

text \<open>
  C10: what a client of \<open>/api/stats\<close> reads, however ticks and requests interleave: the
  answer is 200 and its body parses, as a whole, to the payload's document with ill-formed
  bytes replaced, unless a load average or the WAN bit rate is not finite (the texts
  \<open>nan\<close> and \<open>inf\<close> are accepted by their parsers); then the body is empty. The
  interface rates and the temperature can never be the cause.
\<close>

theorem app_client_reads_payload:
  assumes "(app_step sha w cfg)\<^sup>*\<^sup>* (app_start cfg t) st" and "env_ok e" and "\<And>a. num_literal (av_fmt e a)"
  shows "let p = fst (snd (stats_of e rq (snd st))); r = fst (snd (h_Stats e rq (snd st))); i = ss_Info (st_System p) in
    rs_status r = 200 \<and>
    (if f64_finite (Load1m i) \<and> f64_finite (Load5m i) \<and> f64_finite (Load15m i) \<and>
        f64_finite (wi_TxBitrateMbps (wa_Info (st_WAN p)))
     then \<exists>j. stats_json (av_fmt e) p = Some j \<and> json_whole (rs_body r) = Some (json_utf8 j)
     else rs_body r = [])"
proof -
  have inv: "server_inv cfg (snd st)" by (rule app_reach_inv [OF assms(1)])
  define p where "p = fst (snd (stats_of e rq (snd st)))"
  have "stats_json (av_fmt e) p = None \<longleftrightarrow> \<not> (let i = ss_Info (st_System p) in
      f64_finite (Load1m i) \<and> f64_finite (Load5m i) \<and> f64_finite (Load15m i) \<and>
      f64_finite (wi_TxBitrateMbps (wa_Info (st_WAN p))))"
    using payload_finite [OF inv]
    by (simp only: p_def stats_json_None stats_of_sections section_json_None(3,5) Let_def) blast
  moreover have "stats_json (av_fmt e) p = None \<longrightarrow> rs_body (fst (snd (h_Stats e rq (snd st)))) = []"
    "\<forall>j. stats_json (av_fmt e) p = Some j \<longrightarrow> json_whole (rs_body (fst (snd (h_Stats e rq (snd st))))) = Some (json_utf8 j)"
    using h_Stats_body [of e rq "snd st", OF assms(3)] by (auto simp: p_def split: option.splits)
  ultimately show ?thesis
    by (cases "stats_json (av_fmt e) p") (simp_all add: p_def [symmetric] h_Stats_parts(1) Let_def)
qed

lemma app_client_reads_payload_witness:
  "rs_body (fst (snd (h_Stats api_sample_env main_sample_request (snd app_sample_state)))) = []"
proof -
  have "parseLoadavg ''nan 0.1 0.2'' = Inr (NaN, f64_round (1 / 10), f64_round (2 / 10))" by code_simp
  then have "\<not> f64_finite (Load1m (ss_Info (systemFromCollector api_sample_env (snd app_sample_state))))"
    by (simp add: systemFromCollector_def system_shown_def app_sample_state_def sy_Snapshot_of_def sy_tick_eq tick_parts
        sample_sy_env_def read_with_def f64_finite_def)
  moreover have "num_literal (av_fmt api_sample_env a)" for a
    by (simp add: api_sample_env_def num_literal_def num_start_def num_done_def)
  ultimately show ?thesis
    using app_client_reads_payload [OF app_sample_run [of main_sample_web] api_sample_env_ok, of main_sample_request]
    by (simp add: Let_def stats_of_sections)
qed

end
