(* ===== verification/Run_Loops.thy ===== *)
theory Run_Loops
  imports Netstats System_Stats
begin

text \<open>
  The goroutines of the two background collectors: \<open>Run\<close> of \<open>netstats/throughput.go\<close>
  and \<open>system/info.go\<close> as a state machine with its ticker, the cancellation of its
  context and its log lines. A \<open>time.Ticker\<close> has a channel of one element, into which it
  puts a tick when it is due, unless one is there still; \<open>select\<close> takes either of a tick
  and the cancellation. Facts: the loop is the sequential run of the collector on the
  instants it sampled, never faster than its interval; readers never see a snapshot older
  than one they saw; and nothing changes after the loop has stopped.
\<close>

section \<open>Steps\<close>

datatype run_phase = RunStart | RunLoop | RunStopped

text \<open>\<open>rn_aux\<close> holds the loop's own variables; \<open>rn_sampled\<close> records what the ticks met, in order.\<close>

record ('c, 'e, 'a, 'l) runner =
  rn_coll :: 'c
  rn_phase :: run_phase
  rn_aux :: 'a
  rn_clk :: time
  rn_due :: time
  rn_full :: bool
  rn_cancelled :: bool
  rn_log :: "'l list"
  rn_sampled :: "'e list"

definition runner_start :: "'c \<Rightarrow> 'a \<Rightarrow> time \<Rightarrow> ('c, 'e, 'a, 'l) runner" where
  "runner_start c a t = \<lparr>rn_coll = c, rn_phase = RunStart, rn_aux = a, rn_clk = t, rn_due = t, rn_full = False,
     rn_cancelled = False, rn_log = [], rn_sampled = []\<rparr>"

text \<open>
  A late ticker skips the periods it missed, as Go's timers do. \<open>react\<close> is what the loop
  does after a tick, with the lines it logs.
\<close>

inductive run_step ::
  "('e \<Rightarrow> 'c \<Rightarrow> 'c) \<Rightarrow> ('e \<Rightarrow> time) \<Rightarrow> ('a \<Rightarrow> 'c \<Rightarrow> 'a \<times> 'l list) \<Rightarrow> duration \<Rightarrow> 'l \<Rightarrow> 'l \<Rightarrow>
   ('c, 'e, 'a, 'l) runner \<Rightarrow> ('c, 'e, 'a, 'l) runner \<Rightarrow> bool"
  for tick now react interval hello bye where
  start: "rn_phase r = RunStart \<Longrightarrow> rn_clk r \<le> now e \<Longrightarrow> now e \<le> t \<Longrightarrow>
     run_step tick now react interval hello bye r
       (r\<lparr>rn_phase := RunLoop, rn_coll := tick e (rn_coll r), rn_clk := t, rn_due := t + interval, rn_full := False,
          rn_log := rn_log r @ [hello], rn_sampled := [e]\<rparr>)"
| fire: "rn_phase r = RunLoop \<Longrightarrow> rn_due r \<le> rn_clk r \<Longrightarrow>
     run_step tick now react interval hello bye r
       (r\<lparr>rn_full := True, rn_due := rn_due r + interval * (1 + (rn_clk r - rn_due r) div interval)\<rparr>)"
| sample: "rn_phase r = RunLoop \<Longrightarrow> rn_full r \<Longrightarrow> rn_clk r \<le> now e \<Longrightarrow>
     react (rn_aux r) (tick e (rn_coll r)) = (a, ls) \<Longrightarrow>
     run_step tick now react interval hello bye r
       (r\<lparr>rn_full := False, rn_coll := tick e (rn_coll r), rn_clk := now e, rn_aux := a,
          rn_log := rn_log r @ ls, rn_sampled := rn_sampled r @ [e]\<rparr>)"
| cancel: "run_step tick now react interval hello bye r (r\<lparr>rn_cancelled := True\<rparr>)"
| stop: "rn_phase r = RunLoop \<Longrightarrow> rn_cancelled r \<Longrightarrow>
     run_step tick now react interval hello bye r (r\<lparr>rn_phase := RunStopped, rn_log := rn_log r @ [bye]\<rparr>)"
| pass: "rn_clk r < t \<Longrightarrow> run_step tick now react interval hello bye r (r\<lparr>rn_clk := t\<rparr>)"

section \<open>The contract\<close>

text \<open>What the loop relies on: a tick publishes a snapshot of its own instant.\<close>

locale ticker =
  fixes tick :: "'e \<Rightarrow> 'c \<Rightarrow> 'c"
    and now :: "'e \<Rightarrow> time"
    and react :: "'a \<Rightarrow> 'c \<Rightarrow> 'a \<times> 'l list"
    and stamp :: "'c \<Rightarrow> time"
  assumes at_tick: "stamp (tick e c) = now e"
begin

abbreviation loop_step where
  "loop_step \<equiv> run_step tick now react"

text \<open>One pass of the loop, on the collector, the loop's variables and the lines so far.\<close>

definition handle :: "'e \<Rightarrow> 'c \<times> 'a \<times> 'l list \<Rightarrow> 'c \<times> 'a \<times> 'l list" where
  "handle e st = (let (c, a, ls) = st; c' = tick e c; (a', ls') = react a c' in (c', a', ls @ ls'))"

text \<open>
  The invariant: what the loop did is the sequential run on what it sampled, in the order
  of the instants; and the ticker bounds how much that can be.
\<close>

definition run_inv :: "'c \<Rightarrow> 'a \<Rightarrow> duration \<Rightarrow> 'l \<Rightarrow> 'l \<Rightarrow> ('c, 'e, 'a, 'l) runner \<Rightarrow> bool" where
  "run_inv c0 a0 interval hello bye r \<longleftrightarrow>
     stamp (rn_coll r) \<le> rn_clk r \<and>
     (if rn_phase r = RunStart then rn_coll r = c0 \<and> rn_aux r = a0 \<and> rn_log r = [] \<and> rn_sampled r = []
      else \<exists>e es ls. rn_sampled r = e # es \<and> fold handle es (tick e c0, a0, []) = (rn_coll r, rn_aux r, ls) \<and>
        rn_log r = hello # ls @ (if rn_phase r = RunStopped then [bye] else []) \<and>
        sorted (map now (e # es)) \<and> now (last (e # es)) \<le> rn_clk r \<and>
        (int (length es) + (if rn_full r then 1 else 0)) * interval \<le> rn_due r - interval - now e \<and>
        rn_due r - interval \<le> rn_clk r)"

lemma run_inv_start: "stamp c0 \<le> t \<Longrightarrow> run_inv c0 a0 interval hello bye (runner_start c0 a0 t)"
  by (simp add: run_inv_def runner_start_def)

lemma run_inv_loopE:
  assumes "run_inv c0 a0 interval hello bye r" and "rn_phase r \<noteq> RunStart"
  obtains e es ls where "rn_sampled r = e # es"
    and "fold handle es (tick e c0, a0, []) = (rn_coll r, rn_aux r, ls)"
    and "rn_log r = hello # ls @ (if rn_phase r = RunStopped then [bye] else [])"
    and "sorted (map now (e # es))" and "now (last (e # es)) \<le> rn_clk r"
    and "(int (length es) + (if rn_full r then 1 else 0)) * interval \<le> rn_due r - interval - now e"
    and "rn_due r - interval \<le> rn_clk r" and "stamp (rn_coll r) \<le> rn_clk r"
  using assms by (auto simp: run_inv_def)

lemma run_inv_step:
  assumes "loop_step interval hello bye r r'" and inv: "run_inv c0 a0 interval hello bye r" and "0 < interval"
  shows "run_inv c0 a0 interval hello bye r'"
  using assms(1)
proof (cases rule: run_step.cases)
  case (start e t)
  then show ?thesis using inv by (auto simp: run_inv_def at_tick)
next
  case fire
  obtain e es ls where o: "rn_sampled r = e # es" "fold handle es (tick e c0, a0, []) = (rn_coll r, rn_aux r, ls)"
    "rn_log r = hello # ls" "sorted (map now (e # es))" "now (last (e # es)) \<le> rn_clk r"
    "(int (length es) + (if rn_full r then 1 else 0)) * interval \<le> rn_due r - interval - now e"
    "rn_due r - interval \<le> rn_clk r" "stamp (rn_coll r) \<le> rn_clk r"
    by (rule run_inv_loopE [OF inv]) (use fire(2) in simp_all)
  let ?k = "(rn_clk r - rn_due r) div interval"
  have "0 \<le> ?k" using fire(3) assms(3) by (simp add: pos_imp_zdiv_nonneg_iff)
  then have "0 \<le> interval * ?k" using assms(3) by simp
  moreover have "interval * ?k \<le> rn_clk r - rn_due r"
    using assms(3) by (metis mult.commute pos_mod_sign diff_ge_0_iff_ge minus_div_mult_eq_mod)
  moreover have "(int (length es) + 1) * interval \<le> rn_due r - now e"
    using o(6) assms(3) by (simp add: algebra_simps split: if_splits)
  ultimately show ?thesis using o fire by (auto simp: run_inv_def algebra_simps)
next
  case (sample e a ls')
  obtain e0 es ls where o: "rn_sampled r = e0 # es" "fold handle es (tick e0 c0, a0, []) = (rn_coll r, rn_aux r, ls)"
    "rn_log r = hello # ls" "sorted (map now (e0 # es))" "now (last (e0 # es)) \<le> rn_clk r"
    "(int (length es) + 1) * interval \<le> rn_due r - interval - now e0" "rn_due r - interval \<le> rn_clk r" "stamp (rn_coll r) \<le> rn_clk r"
    by (rule run_inv_loopE [OF inv]) (use sample(2,3) in simp_all)
  have "sorted (map now (e0 # es @ [e]))"
    using o(4,5) sample(4) by (cases es rule: rev_cases) (auto simp: sorted_append)
  moreover have "fold handle (es @ [e]) (tick e0 c0, a0, []) = (tick e (rn_coll r), a, ls @ ls')"
    using o(2) sample(5) by (simp add: handle_def)
  ultimately show ?thesis using o sample by (auto simp: run_inv_def at_tick algebra_simps)
next
  case cancel
  have "run_inv c0 a0 interval hello bye (r\<lparr>rn_cancelled := True\<rparr>) = run_inv c0 a0 interval hello bye r"
    by (simp add: run_inv_def)
  with cancel inv show ?thesis by simp
next
  case stop
  show ?thesis
    by (rule run_inv_loopE [OF inv])
       (use stop in \<open>simp_all add: run_inv_def del: sorted_wrt.simps sorted_simps last.simps\<close>)
next
  case (pass t)
  show ?thesis
  proof (cases "rn_phase r = RunStart")
    case True
    then show ?thesis using inv pass by (auto simp: run_inv_def)
  next
    case False
    show ?thesis
      by (rule run_inv_loopE [OF inv False])
         (use False pass in \<open>simp add: run_inv_def del: sorted_wrt.simps sorted_simps last.simps\<close>)
  qed
qed

lemma run_inv_reach:
  assumes "(loop_step interval hello bye)\<^sup>*\<^sup>* (runner_start c0 a0 t) r" and "stamp c0 \<le> t" and "0 < interval"
  shows "run_inv c0 a0 interval hello bye r"
  using assms(1)
  by (induction rule: rtranclp_induct) (auto intro: run_inv_start run_inv_step assms(2,3))

text \<open>Readers: the published instant never goes back, and is final when the loop has stopped.\<close>

lemma reader_step:
  assumes "loop_step interval hello bye r r'" and "run_inv c0 a0 interval hello bye r" and "0 < interval"
  shows "stamp (rn_coll r) \<le> stamp (rn_coll r') \<and>
    (rn_phase r = RunStopped \<longrightarrow> rn_phase r' = RunStopped \<and> rn_coll r' = rn_coll r \<and> rn_log r' = rn_log r)"
  using assms(1,2) by (cases rule: run_step.cases) (auto simp: run_inv_def at_tick)

lemma reader_run:
  assumes "(loop_step interval hello bye)\<^sup>*\<^sup>* r r'" and "run_inv c0 a0 interval hello bye r" and "0 < interval"
  shows "stamp (rn_coll r) \<le> stamp (rn_coll r') \<and>
    (rn_phase r = RunStopped \<longrightarrow> rn_phase r' = RunStopped \<and> rn_coll r' = rn_coll r \<and> rn_log r' = rn_log r)"
proof -
  have "run_inv c0 a0 interval hello bye r' \<and> stamp (rn_coll r) \<le> stamp (rn_coll r') \<and>
    (rn_phase r = RunStopped \<longrightarrow> rn_phase r' = RunStopped \<and> rn_coll r' = rn_coll r \<and> rn_log r' = rn_log r)"
    using assms(1)
  proof (induction rule: rtranclp_induct)
    case (step r1 r2)
    then show ?case
      using reader_step [OF step(2) _ assms(3)] run_inv_step [OF step(2) _ assms(3)] by fastforce
  qed (use assms(2) in simp)
  then show ?thesis by blast
qed

end

section \<open>The two collectors\<close>

datatype ns_line = NsStarting duration "string list" | NsStopped

definition ns_react :: "unit \<Rightarrow> ns_Collector \<Rightarrow> unit \<times> ns_line list" where
  "ns_react u c = ((), [])"

abbreviation ns_run_step ::
  "config \<Rightarrow> (ns_Collector, ns_env, unit, ns_line) runner \<Rightarrow> (ns_Collector, ns_env, unit, ns_line) runner \<Rightarrow> bool" where
  "ns_run_step cfg \<equiv> run_step ns_tick ne_now ns_react second
     (NsStarting second (filterEmpty [HotspotIf cfg, WANIf cfg, AdminIf cfg])) NsStopped"

interpretation nsr: ticker ns_tick ne_now ns_react "\<lambda>c. ns_At (ns_Snapshot_of c)"
  by unfold_locales (simp add: ns_tick_def ns_Snapshot_of_def Let_def)

datatype sy_line = SyStarting duration | SyThrottle throttle_event | SyStopped

definition sy_react :: "bool \<Rightarrow> sy_Collector \<Rightarrow> bool \<times> sy_line list" where
  "sy_react prevThrottled c =
     (let (prevThrottled', evs) = throttle_log prevThrottled (sy_Info (sy_Snapshot_of c)) in
      (prevThrottled', map SyThrottle evs))"

abbreviation sy_run_step ::
  "(sy_Collector, sy_env, bool, sy_line) runner \<Rightarrow> (sy_Collector, sy_env, bool, sy_line) runner \<Rightarrow> bool" where
  "sy_run_step \<equiv> run_step sy_tick ye_now sy_react second (SyStarting second) SyStopped"

interpretation syr: ticker sy_tick ye_now sy_react "\<lambda>c. sy_At (sy_Snapshot_of c)"
  by unfold_locales (simp add: sy_tick_eq sy_Snapshot_of_def)

lemma ns_handle_fold: "fold nsr.handle es (c, u, ls) = (fold ns_tick es c, u, ls)"
  by (induction es arbitrary: c) (simp_all add: nsr.handle_def ns_react_def Let_def)

lemma sy_handle:
  "syr.handle e (c, a, ls) = (let (a', evs) = throttle_log a (sy_Info (sy_snap (sy_tick e c))) in
     (sy_tick e c, a', ls @ map SyThrottle evs))"
  by (simp add: syr.handle_def sy_react_def sy_Snapshot_of_def Let_def split: prod.split)

lemma sy_handle_fold:
  "\<exists>a'. fold syr.handle es (c, a, ls) = (fst (sy_loop a es c), a', ls @ map SyThrottle (snd (sy_loop a es c)))"
proof (induction es arbitrary: c a ls)
  case (Cons e es)
  obtain a' evs where t: "throttle_log a (sy_Info (sy_snap (sy_tick e c))) = (a', evs)" by fastforce
  show ?case
    using Cons.IH [of "sy_tick e c" a' "ls @ map SyThrottle evs"]
    by (auto simp: sy_handle t Let_def split: prod.split)
qed simp

text \<open>A run of the loop: its first sample, one period, and the second one.\<close>

lemma two_samples_run:
  assumes "now e = t" and "now e' = t + interval" and "0 < interval"
    and "react a (tick e' (tick e c)) = (a', ls)"
  shows "(run_step tick now react interval hello bye)\<^sup>*\<^sup>* (runner_start c a t)
    \<lparr>rn_coll = tick e' (tick e c), rn_phase = RunLoop, rn_aux = a', rn_clk = t + interval, rn_due = 2 * interval + t,
     rn_full = False, rn_cancelled = False, rn_log = [hello] @ ls, rn_sampled = [e, e']\<rparr>"
proof -
  let ?S = "run_step tick now react interval hello bye"
  let ?r1 = "\<lparr>rn_coll = tick e c, rn_phase = RunLoop, rn_aux = a, rn_clk = t, rn_due = t + interval, rn_full = False,
     rn_cancelled = False, rn_log = [hello], rn_sampled = [e]\<rparr>"
  have "?S (runner_start c a t) ?r1"
    using run_step.start [of "runner_start c a t" now e t tick react interval hello bye] assms(1)
    by (simp add: runner_start_def)
  moreover have "?S ?r1 (?r1\<lparr>rn_clk := t + interval\<rparr>)"
    by (rule run_step.pass) (use assms(3) in simp)
  moreover have "?S (?r1\<lparr>rn_clk := t + interval\<rparr>)
      (?r1\<lparr>rn_clk := t + interval, rn_due := 2 * interval + t, rn_full := True\<rparr>)"
    using run_step.fire [of "?r1\<lparr>rn_clk := t + interval\<rparr>" tick now react interval hello bye] by simp
  moreover have "?S (?r1\<lparr>rn_clk := t + interval, rn_due := 2 * interval + t, rn_full := True\<rparr>)
      \<lparr>rn_coll = tick e' (tick e c), rn_phase = RunLoop, rn_aux = a', rn_clk = t + interval, rn_due = 2 * interval + t,
       rn_full = False, rn_cancelled = False, rn_log = [hello] @ ls, rn_sampled = [e, e']\<rparr>"
    using run_step.sample [of "?r1\<lparr>rn_clk := t + interval, rn_due := 2 * interval + t, rn_full := True\<rparr>" now e'
        react tick a' ls interval hello bye] assms(2,4) by simp
  ultimately show ?thesis
    by (blast intro: converse_rtranclp_into_rtranclp)
qed

definition sample_run_config :: config where
  "sample_run_config = Load id Map.empty"

definition sample_temp_env :: "time \<Rightarrow> string \<Rightarrow> sy_env" where
  "sample_temp_env t temp = \<lparr>ye_now = t, ye_load = Inr ''0.1 0.2 0.3'', ye_mem = Inl (NewError ''x''), ye_temp = Inr temp\<rparr>"

section \<open>Properties\<close>

text \<open>
  C19: the goroutine of the interface counters, whatever its ticker and the cancellation of
  its context do: what it publishes is the sequential run over what it sampled, in the order
  of the instants, and it samples at most once a second after the first time.
\<close>

theorem netstats_run_paced:
  assumes "(ns_run_step cfg)\<^sup>*\<^sup>* (runner_start (ns_New cfg t0) () t0) r"
  shows "if rn_phase r = RunStart then rn_coll r = ns_New cfg t0 \<and> rn_sampled r = []
    else \<exists>e es. rn_sampled r = e # es \<and> rn_coll r = ns_Run e es (ns_New cfg t0) \<and>
      sorted (map ne_now (e # es)) \<and> int (length es) * second \<le> rn_clk r - ne_now e"
proof -
  have "nsr.run_inv (ns_New cfg t0) () second
      (NsStarting second (filterEmpty [HotspotIf cfg, WANIf cfg, AdminIf cfg])) NsStopped r"
    using nsr.run_inv_reach [OF assms] by (simp add: ns_New_def ns_newWithDeps_def ns_Snapshot_of_def second_def)
  then show ?thesis
    by (auto simp: nsr.run_inv_def ns_handle_fold ns_Run_def second_def split: if_splits)
qed

lemma netstats_run_paced_witness:
  "\<exists>r. (ns_run_step sample_run_config)\<^sup>*\<^sup>* (runner_start (ns_New sample_run_config 0) () 0) r \<and>
    rn_sampled r = [env_none, env_none\<lparr>ne_now := second\<rparr>] \<and>
    rn_coll r = ns_Run env_none [env_none\<lparr>ne_now := second\<rparr>] (ns_New sample_run_config 0)"
proof -
  note r = two_samples_run [of ne_now env_none 0 "env_none\<lparr>ne_now := second\<rparr>" second ns_react "()" ns_tick
      "ns_New sample_run_config 0" "()" "[]"]
  show ?thesis
    by (rule exI, rule conjI, rule r)
       (use netstats_run_paced [OF r] in \<open>auto simp: env_none_def ns_react_def second_def\<close>)
qed

text \<open>
  Readers of the interface counters never see a snapshot older than one they saw before,
  and once the goroutine has stopped nothing is published any more.
\<close>

theorem netstats_readers_monotone:
  assumes "(ns_run_step cfg)\<^sup>*\<^sup>* (runner_start (ns_New cfg t0) () t0) r" and "(ns_run_step cfg)\<^sup>*\<^sup>* r r'"
  shows "ns_At (ns_Snapshot_of (rn_coll r)) \<le> ns_At (ns_Snapshot_of (rn_coll r')) \<and>
    (rn_phase r = RunStopped \<longrightarrow> ns_Snapshot_of (rn_coll r') = ns_Snapshot_of (rn_coll r))"
proof -
  have "nsr.run_inv (ns_New cfg t0) () second
      (NsStarting second (filterEmpty [HotspotIf cfg, WANIf cfg, AdminIf cfg])) NsStopped r"
    using nsr.run_inv_reach [OF assms(1)] by (simp add: ns_New_def ns_newWithDeps_def ns_Snapshot_of_def second_def)
  from nsr.reader_run [OF assms(2) this] show ?thesis by (auto simp: second_def)
qed

lemma netstats_readers_monotone_witness:
  "\<exists>r. (ns_run_step sample_run_config)\<^sup>*\<^sup>* (runner_start (ns_New sample_run_config 0) () 0) r \<and>
    rn_phase r = RunLoop \<and> ns_At (ns_Snapshot_of (ns_New sample_run_config 0)) \<le> ns_At (ns_Snapshot_of (rn_coll r))"
proof -
  note r = two_samples_run [of ne_now env_none 0 "env_none\<lparr>ne_now := second\<rparr>" second ns_react "()" ns_tick
      "ns_New sample_run_config 0" "()" "[]"]
  show ?thesis
    by (rule exI, rule conjI, rule r)
       (use netstats_readers_monotone [OF rtranclp.rtrancl_refl r]
        in \<open>auto simp: env_none_def ns_react_def second_def runner_start_def\<close>)
qed

text \<open>
  C36: the log of the system collector's goroutine is, in this order, the line of its start, the
  throttle events of the sequential run over what it sampled, and, once its context was
  cancelled and it stopped, the line of its end. The events alternate, starting with
  throttled. The first sample, which the goroutine takes before its loop, is never logged,
  however hot; with at least one sample of the loop the last event, or the absence of any,
  agrees with the throttle flag of the published snapshot.
\<close>

theorem system_run_log:
  assumes "sy_run_step\<^sup>*\<^sup>* (runner_start (sy_New t0) False t0) r"
  shows "if rn_phase r = RunStart then rn_log r = []
    else \<exists>e es. rn_sampled r = e # es \<and> rn_coll r = fst (sy_Run e es (sy_New t0)) \<and>
      rn_log r = SyStarting second # map SyThrottle (snd (sy_Run e es (sy_New t0))) @
        (if rn_phase r = RunStopped then [SyStopped] else []) \<and>
      alternates False (snd (sy_Run e es (sy_New t0))) \<and>
      (if es = [] then snd (sy_Run e es (sy_New t0)) = []
       else logged_flag False (snd (sy_Run e es (sy_New t0))) = Throttled (sy_Info (sy_Snapshot_of (rn_coll r))))"
proof -
  have "syr.run_inv (sy_New t0) False second (SyStarting second) SyStopped r"
    using syr.run_inv_reach [OF assms] by (simp add: sy_New_def sy_newWithDeps_def sy_Snapshot_of_def second_def)
  moreover have "rn_coll r = fst (sy_Run e es (sy_New t0)) \<and> ls = map SyThrottle (snd (sy_Run e es (sy_New t0)))"
    if "fold syr.handle es (sy_tick e (sy_New t0), False, []) = (rn_coll r, rn_aux r, ls)" for e es ls
    using sy_handle_fold [of es "sy_tick e (sy_New t0)" False "[]"] that by (auto simp: sy_Run_def)
  moreover note system_throttle_log_alternates [of _ _ "sy_New t0"]
  ultimately show ?thesis by (fastforce simp: syr.run_inv_def)
qed

lemma system_run_log_witness:
  "\<exists>r. sy_run_step\<^sup>*\<^sup>* (runner_start (sy_New 0) False 0) r \<and> rn_phase r = RunLoop \<and>
    rn_log r = SyStarting second #
      map SyThrottle (snd (sy_Run (sample_temp_env 0 ''45000'') [sample_temp_env second ''85000''] (sy_New 0)))"
proof -
  let ?e = "sample_temp_env 0 ''45000''" and ?f = "sample_temp_env second ''85000''"
  obtain a ls where l: "sy_react False (sy_tick ?f (sy_tick ?e (sy_New 0))) = (a, ls)" by fastforce
  note r = two_samples_run [of ye_now ?e 0 ?f second sy_react False sy_tick "sy_New 0" a ls]
  show ?thesis
    by (rule exI, rule conjI, rule r)
       (use system_run_log [OF r] l in \<open>auto simp: sample_temp_env_def second_def\<close>)
qed

end
