(* ===== verification/Lazy_Callers.thy ===== *)
theory Lazy_Callers
  imports Lazy_Cache
begin

text \<open>
  The callers of a lazily refreshed collector, as seen from a larger machine whose requests
  call its \<open>Snapshot\<close> and go on with what it returned: which steps the collector may take
  for them, and the invariant of its cache together with that of the calls.
\<close>

section \<open>Callers\<close>

text \<open>
  The calls of a lazy collector are made by the requests \<open>A\<close> that have reached it, once
  each: a step of the collector changes the phase of no other, and of no call that has
  returned.
\<close>

definition calls_by :: "nat set \<Rightarrow> ('c, 's) world \<Rightarrow> ('c, 's) world \<Rightarrow> bool" where
  "calls_by A h h' \<longleftrightarrow>
     (\<forall>i. phase_of h' i \<noteq> phase_of h i \<longrightarrow> i \<in> A \<and> (\<forall>t s. phase_of h i \<noteq> Done t s))"

text \<open>A step of the collector at or after the present instant, with the instant that it reaches.\<close>

definition client_step ::
  "(('c, 's) world \<Rightarrow> ('c, 's) world \<Rightarrow> bool) \<Rightarrow> nat set \<Rightarrow> time \<times> ('c, 's) world \<Rightarrow> time \<times> ('c, 's) world \<Rightarrow> bool" where
  "client_step stp A x y \<longleftrightarrow> stp ((snd x)\<lparr>clk := fst x\<rparr>) (snd y) \<and> calls_by A (snd x) (snd y) \<and> fst y = clk (snd y)"

lemma client_run_lift:
  assumes "(client_step stp A)\<^sup>*\<^sup>* x y" and "\<And>x y. client_step stp A x y \<Longrightarrow> R (f x) (f y)"
  shows "R\<^sup>*\<^sup>* (f x) (f y)"
  using assms(1)
proof (induction rule: rtranclp_induct)
  case (step y z)
  from step(3) assms(2) [OF step(2)] show ?case by (rule rtranclp.rtrancl_into_rtrancl)
qed simp

text \<open>What a call returns is what the collector published when the call loaded it.\<close>

lemma done_loaded:
  assumes "client_step (snap_step lastAt ttl load refresh recheck now) A (t, h) (t', h')"
    and "phase_of h' i = Done u s"
  shows "phase_of h i = Done u s \<or> s = load (coll h)"
proof -
  have "snap_step lastAt ttl load refresh recheck now (h\<lparr>clk := t\<rparr>) h'" using assms(1) by (simp add: client_step_def)
  then show ?thesis using assms(2) by (cases rule: snap_step.cases) (auto split: if_splits)
qed

definition call_return :: "nat \<Rightarrow> ('c, 's) world \<Rightarrow> ('c, 's) world" where
  "call_return i h = h\<lparr>phase_of := (phase_of h)(i := Idle)\<rparr>"

section \<open>The contract of a called collector\<close>

text \<open>A property that every refresh keeps, and what it says of the snapshots.\<close>

locale called_collector = lazy_snapshot lastAt ttl load at refresh recheck now snapshot
  for lastAt :: "'c \<Rightarrow> time"
    and ttl :: "'c \<Rightarrow> duration"
    and load :: "'c \<Rightarrow> 's"
    and at :: "'s \<Rightarrow> time"
    and refresh :: "'e \<Rightarrow> 'c \<Rightarrow> 'c \<times> 'o list"
    and recheck :: "'e \<Rightarrow> time"
    and now :: "'e \<Rightarrow> time"
    and snapshot :: "time \<Rightarrow> 'e \<Rightarrow> 'c \<Rightarrow> ('c \<times> 'o list) \<times> 's" +
  fixes kept :: "'c \<Rightarrow> bool"
    and shown :: "'s \<Rightarrow> bool"
  assumes refresh_keeps: "kept c \<Longrightarrow> kept (fst (refresh e c))"
    and load_shows: "kept c \<Longrightarrow> shown (load c)"
begin

text \<open>
  The invariant of the cache together with that of its callers: no check is older than its
  request's arrival.
\<close>

definition call_ok :: "time \<Rightarrow> 's phase \<Rightarrow> bool" where
  "call_ok u p = (case p of Idle \<Rightarrow> True | Stale t \<Rightarrow> u \<le> t | Ready t \<Rightarrow> u \<le> t | Done t s \<Rightarrow> u \<le> t \<and> shown s)"

definition call_inv ::
  "duration \<Rightarrow> time \<Rightarrow> nat set \<Rightarrow> (nat \<Rightarrow> time) \<Rightarrow> ('c, 's) world \<Rightarrow> bool" where
  "call_inv d t A since h \<longleftrightarrow> cache_inv d h \<and> clk h \<le> t \<and> kept (coll h) \<and>
     (\<forall>i. if i \<in> A then since i \<le> t \<and> call_ok (since i) (phase_of h i) else phase_of h i = Idle)"

lemma call_ok_simps [simp]:
  "call_ok u Idle" "call_ok u (Stale t) \<longleftrightarrow> u \<le> t" "call_ok u (Ready t) \<longleftrightarrow> u \<le> t"
  "call_ok u (Done t s) \<longleftrightarrow> u \<le> t \<and> shown s"
  by (simp_all add: call_ok_def)

lemma cache_inv_clk: "cache_inv d h \<Longrightarrow> clk h \<le> t \<Longrightarrow> cache_inv d (h\<lparr>clk := t\<rparr>)"
  using phase_step_inv [of d h t "phase_of h 0" 0] phase_ok_mono [OF cache_inv_phase [of d h 0], of t]
  by simp

lemma call_inv_later:
  "call_inv d t A since h \<Longrightarrow> t \<le> t' \<Longrightarrow> call_inv d t' A since h"
  by (auto simp: call_inv_def split: if_splits intro: order_trans)

lemma call_inv_enter:
  assumes "call_inv d t A since h" and "i \<notin> A" and "since' i \<le> t" and "\<And>j. j \<in> A \<Longrightarrow> since' j = since j"
  shows "call_inv d t (insert i A) since' h"
  using assms by (auto simp: call_inv_def split: if_splits)

lemma call_inv_since:
  assumes "call_inv d t A since h" and "\<And>j. j \<in> A \<Longrightarrow> since' j = since j"
  shows "call_inv d t A since' h"
  using assms by (auto simp: call_inv_def split: if_splits)

lemma call_inv_return:
  assumes "call_inv d t A since h" and "i \<in> A" and "phase_of h i = Done u s"
  shows "call_inv d t (A - {i}) since (call_return i h)" and "shown s" and "since i - at s < d"
proof -
  have "call_ok (since i) (Done u s)" "cache_inv d h"
    using assms by (auto simp: call_inv_def dest: spec [of _ i])
  then show "shown s" "since i - at s < d" using cache_inv_phase [of d h i] assms(3) by auto
  show "call_inv d t (A - {i}) since (call_return i h)"
    using assms(1) by (auto simp: call_inv_def call_return_def cache_inv_def split: if_splits)
qed

lemma call_inv_start:
  "lastAt c \<le> at (load c) \<Longrightarrow> at (load c) \<le> t \<Longrightarrow> kept c \<Longrightarrow> call_inv (ttl c) t {} since (start_world c t)"
  using start_inv [of c t] by (simp add: call_inv_def start_world_def)

text \<open>A step of a call that belongs to \<open>A\<close>, from the present instant on.\<close>

lemma call_inv_step:
  assumes inv: "call_inv d t A since h" and cl: "client_step step A (t, h) (t', h')"
    and d: "is_duration d" "0 < d"
  shows "call_inv d t' A since h' \<and> t \<le> t'"
proof -
  have st: "step (h\<lparr>clk := t\<rparr>) h'" and own: "calls_by A h h'" and t': "t' = clk h'"
    using cl by (simp_all add: client_step_def)
  have "cache_inv d (h\<lparr>clk := t\<rparr>)" using inv cache_inv_clk by (simp add: call_inv_def)
  then have c: "cache_inv d h'" using step_inv [OF st _ d] by blast
  have t: "t \<le> clk h'" and k: "kept (coll h')"
    using st inv refresh_keeps by (cases rule: snap_step.cases; auto simp: call_inv_def)+
  have ok: "call_ok (since i) (phase_of h' i)" if "i \<in> A" for i
  proof -
    have o: "since i \<le> t" "call_ok (since i) (phase_of h i)" using inv that by (auto simp: call_inv_def)
    have l: "shown (load (coll h))" using inv load_shows by (simp add: call_inv_def)
    from st o l show ?thesis by (cases rule: snap_step.cases) auto
  qed
  have idle: "phase_of h' i = Idle" if "i \<notin> A" for i
  proof -
    have "phase_of h i = Idle" using inv that by (simp add: call_inv_def)
    with own that show ?thesis by (metis calls_by_def)
  qed
  have "since i \<le> clk h'" if "i \<in> A" for i
    using inv that t unfolding call_inv_def by (metis order_trans)
  with c k t ok idle show ?thesis by (simp add: call_inv_def t')
qed

text \<open>A call that no other interferes with has the result of \<open>snapshot\<close>.\<close>

lemma solo_call:
  assumes "i \<in> A" and "phase_of h i = Idle" and "t0 \<le> t" and "t \<le> recheck e" and "recheck e \<le> now e"
  shows "\<exists>t1 h1. (client_step step A)\<^sup>*\<^sup>* (t0, h) (t1, h1) \<and> t1 \<le> now e \<and>
    coll h1 = fst (fst (snapshot t e (coll h))) \<and> phase_of h1 = (phase_of h)(i := Done t (snd (snapshot t e (coll h))))"
proof -
  let ?S = "client_step step A"
  let ?r = "\<lambda>c. if ttl (coll h) \<le> time_sub t (lastAt (coll h)) then fst (refresh e c) else c"
  define h1 where "h1 = h\<lparr>clk := t, phase_of := (phase_of h)(i :=
      if ttl (coll h) \<le> time_sub t (lastAt (coll h)) then Stale t else Ready t)\<rparr>"
  have 1: "?S (t0, h) (t, h1)"
    using snap_step.check [of "h\<lparr>clk := t0\<rparr>" i t lastAt ttl load refresh recheck now] assms
    by (simp add: client_step_def calls_by_def h1_def)
  have "\<exists>t2 h2. ?S\<^sup>*\<^sup>* (t, h1) (t2, h2) \<and> t2 \<le> now e \<and> coll h2 = ?r (coll h) \<and> phase_of h2 = (phase_of h)(i := Ready t)"
  proof (cases "ttl (coll h) \<le> time_sub t (lastAt (coll h))")
    case False
    then show ?thesis using assms(4,5) by (intro exI [of _ t] exI [of _ h1]) (simp add: h1_def)
  next
    case stale: True
    let ?fresh = "time_sub (recheck e) (lastAt (coll h)) < ttl (coll h)"
    define t2 where "t2 = (if ?fresh then recheck e else now e)"
    define h2 where "h2 = h\<lparr>clk := t2, coll := fst (refresh e (coll h)),
      refreshed := (if ?fresh then refreshed h else now e # refreshed h), phase_of := (phase_of h)(i := Ready t)\<rparr>"
    have "step (h1\<lparr>clk := t\<rparr>) h2"
    proof (cases ?fresh)
      case True
      then show ?thesis
        using snap_step.refresh_fresh [of "h1\<lparr>clk := t\<rparr>" i t recheck e lastAt ttl load refresh now] assms(4) stale
        by (simp add: h1_def h2_def t2_def)
    next
      case False
      then show ?thesis
        using snap_step.refresh_stale [of "h1\<lparr>clk := t\<rparr>" i t recheck e now lastAt ttl load refresh] assms(4,5) stale
        by (simp add: h1_def h2_def t2_def)
    qed
    then have "?S (t, h1) (t2, h2)"
      using assms(1) by (simp add: client_step_def calls_by_def h1_def h2_def)
    then have "?S\<^sup>*\<^sup>* (t, h1) (t2, h2)" by simp
    moreover have "t2 \<le> now e" using assms(5) by (simp add: t2_def)
    ultimately show ?thesis using stale by (intro exI [of _ t2] exI [of _ h2]) (simp add: h2_def)
  qed
  then obtain t2 h2 where 2: "?S\<^sup>*\<^sup>* (t, h1) (t2, h2)" "t2 \<le> now e" "coll h2 = ?r (coll h)"
    "phase_of h2 = (phase_of h)(i := Ready t)"
    by blast
  let ?h3 = "h2\<lparr>clk := t2, phase_of := (phase_of h)(i := Done t (load (coll h2)))\<rparr>"
  have "?S (t2, h2) (t2, ?h3)"
    using snap_step.load [of "h2\<lparr>clk := t2\<rparr>" i t lastAt ttl load refresh recheck now] assms(1) 2(4)
    by (simp add: client_step_def calls_by_def)
  then have "?S\<^sup>*\<^sup>* (t0, h) (t2, ?h3)"
    using 1 2(1) by (meson converse_rtranclp_into_rtranclp rtranclp.rtrancl_into_rtrancl)
  then show ?thesis
    using 2(2,3) by (intro exI [of _ t2] exI [of _ ?h3]) (simp add: snapshot_stale snapshot_fresh)
qed

end

end
