(* ===== verification/Concurrent_Stats.thy ===== *)
theory Concurrent_Stats
  imports Whole_System Run_Loops Lazy_Callers
begin

text \<open>
  Concurrent requests for \<open>/api/stats\<close>: the handler \<open>Stats\<close> of \<open>api/handlers.go\<close> as a
  sequence of steps that interleave with those of other requests, with the goroutines of the
  background collectors and with the refreshes of the lazy ones. Facts: every payload is
  well typed and its sections are no older than one second at the request's arrival; and a
  request that runs alone has the payload of \<open>stats_of\<close>, the handler in one step.
\<close>

section \<open>Steps\<close>

text \<open>
  Where a request is in the composite literal of \<open>Stats\<close>, whose fields Go evaluates in
  their order, with what it has so far: no request; the clock read; waiting for the hotspot's,
  the WAN's, the administration interface's snapshot; all of them there; answered.
\<close>

datatype stats_pc =
    PcIdle
  | PcTimed
  | is_PcHotspot: PcHotspot "string \<rightharpoonup> api_Interface"
  | is_PcWan: PcWan "string \<rightharpoonup> api_Interface" hs_Snapshot
  | is_PcAdmin: PcAdmin "string \<rightharpoonup> api_Interface" hs_Snapshot wn_Snapshot
  | PcSystem "string \<rightharpoonup> api_Interface" hs_Snapshot wn_Snapshot ad_Snapshot
  | PcDone hs_Snapshot wn_Snapshot ad_Snapshot Stats

definition at_hotspot :: "(nat \<Rightarrow> stats_pc) \<Rightarrow> nat set" where
  "at_hotspot pc = {i. is_PcHotspot (pc i)}"

definition at_wan :: "(nat \<Rightarrow> stats_pc) \<Rightarrow> nat set" where
  "at_wan pc = {i. is_PcWan (pc i)}"

definition at_admin :: "(nat \<Rightarrow> stats_pc) \<Rightarrow> nat set" where
  "at_admin pc = {i. is_PcAdmin (pc i)}"

text \<open>
  The state: the collectors with their goroutines or callers, one clock for all, and the
  requests, each with its own environment \<open>api_env\<close>.
\<close>

record stats_world =
  cw_ns :: "(ns_Collector, ns_env, unit, ns_line) runner"
  cw_sy :: "(sy_Collector, sy_env, bool, sy_line) runner"
  cw_hs :: "(hs_Collector, hs_Snapshot) world"
  cw_wn :: "(wn_Collector, wn_Snapshot) world"
  cw_ad :: "(ad_Collector, ad_Snapshot) world"
  cw_clk :: time
  cw_req :: "nat \<Rightarrow> request \<times> api_env"
  cw_pc :: "nat \<Rightarrow> stats_pc"

definition stats_start :: "config \<Rightarrow> (nat \<Rightarrow> request \<times> api_env) \<Rightarrow> time \<Rightarrow> stats_world" where
  "stats_start cfg rqs t =
     \<lparr>cw_ns = runner_start (ns_New cfg t) () t, cw_sy = runner_start (sy_New t) False t,
      cw_hs = start_world (hs_New cfg t) t, cw_wn = start_world (wn_New cfg t) t, cw_ad = start_world (ad_New cfg t) t,
      cw_clk = t, cw_req = rqs, cw_pc = (\<lambda>_. PcIdle)\<rparr>"

abbreviation hs_call_step :: "(string \<Rightarrow> string) \<Rightarrow> (hs_Collector, hs_Snapshot) world \<Rightarrow> (hs_Collector, hs_Snapshot) world \<Rightarrow> bool" where
  "hs_call_step uni \<equiv> snap_step hs_lastAt hs_ttl hs_snap (hs_refresh uni) he_recheck he_now"

abbreviation wn_call_step ::
  "(string \<Rightarrow> string) \<Rightarrow> (float64 \<Rightarrow> int) \<Rightarrow> (wn_Collector, wn_Snapshot) world \<Rightarrow> (wn_Collector, wn_Snapshot) world \<Rightarrow> bool" where
  "wn_call_step uni oor \<equiv> snap_step wn_lastAt wn_ttl wn_snap (wn_refresh uni oor) we_recheck we_now"

abbreviation ad_call_step :: "(ad_Collector, ad_Snapshot) world \<Rightarrow> (ad_Collector, ad_Snapshot) world \<Rightarrow> bool" where
  "ad_call_step \<equiv> snap_step ad_lastAt ad_ttl ad_snap ad_refresh ae_recheck ae_now"

inductive stats_step ::
  "(string \<Rightarrow> string) \<Rightarrow> (float64 \<Rightarrow> int) \<Rightarrow> config \<Rightarrow> time \<Rightarrow> stats_world \<Rightarrow> stats_world \<Rightarrow> bool"
  for uni oor cfg started where
  netstats: "ns_run_step cfg ((cw_ns w)\<lparr>rn_clk := cw_clk w\<rparr>) r \<Longrightarrow>
     stats_step uni oor cfg started w (w\<lparr>cw_ns := r, cw_clk := rn_clk r\<rparr>)"
| system: "sy_run_step ((cw_sy w)\<lparr>rn_clk := cw_clk w\<rparr>) r \<Longrightarrow>
     stats_step uni oor cfg started w (w\<lparr>cw_sy := r, cw_clk := rn_clk r\<rparr>)"
| hotspot: "client_step (hs_call_step uni) (at_hotspot (cw_pc w)) (cw_clk w, cw_hs w) (t, h) \<Longrightarrow>
     stats_step uni oor cfg started w (w\<lparr>cw_hs := h, cw_clk := t\<rparr>)"
| wan: "client_step (wn_call_step uni oor) (at_wan (cw_pc w)) (cw_clk w, cw_wn w) (t, h) \<Longrightarrow>
     stats_step uni oor cfg started w (w\<lparr>cw_wn := h, cw_clk := t\<rparr>)"
| admin: "client_step ad_call_step (at_admin (cw_pc w)) (cw_clk w, cw_ad w) (t, h) \<Longrightarrow>
     stats_step uni oor cfg started w (w\<lparr>cw_ad := h, cw_clk := t\<rparr>)"
| arrive: "cw_pc w i = PcIdle \<Longrightarrow> cw_clk w \<le> av_now e \<Longrightarrow> av_oor e = oor \<Longrightarrow>
     stats_step uni oor cfg started w
       (w\<lparr>cw_clk := av_now e, cw_req := (cw_req w)(i := (rq, e)), cw_pc := (cw_pc w)(i := PcTimed)\<rparr>)"
| interfaces: "cw_pc w i = PcTimed \<Longrightarrow>
     stats_step uni oor cfg started w
       (w\<lparr>cw_pc := (cw_pc w)(i := PcHotspot (interfaces_shown (rn_coll (cw_ns w))))\<rparr>)"
| got_hotspot: "cw_pc w i = PcHotspot ifs \<Longrightarrow> phase_of (cw_hs w) i = Done u hs \<Longrightarrow>
     stats_step uni oor cfg started w
       (w\<lparr>cw_hs := call_return i (cw_hs w), cw_pc := (cw_pc w)(i := PcWan ifs hs)\<rparr>)"
| got_wan: "cw_pc w i = PcWan ifs hs \<Longrightarrow> phase_of (cw_wn w) i = Done u wn \<Longrightarrow>
     stats_step uni oor cfg started w
       (w\<lparr>cw_wn := call_return i (cw_wn w), cw_pc := (cw_pc w)(i := PcAdmin ifs hs wn)\<rparr>)"
| got_admin: "cw_pc w i = PcAdmin ifs hs wn \<Longrightarrow> phase_of (cw_ad w) i = Done u ad \<Longrightarrow>
     stats_step uni oor cfg started w
       (w\<lparr>cw_ad := call_return i (cw_ad w), cw_pc := (cw_pc w)(i := PcSystem ifs hs wn ad)\<rparr>)"
| answer: "cw_pc w i = PcSystem ifs hs wn ad \<Longrightarrow> cw_req w i = (rq, e) \<Longrightarrow> cw_clk w \<le> av_since e \<Longrightarrow>
     stats_step uni oor cfg started w
       (w\<lparr>cw_clk := av_since e, cw_pc := (cw_pc w)(i := PcDone hs wn ad
          \<lparr>st_Timestamp = unix_seconds (av_now e), st_Interfaces = ifs, st_Hotspot = hotspot_shown e cfg hs,
           st_WAN = wan_shown e wn, st_Admin = admin_shown e ad, st_System = system_shown e (rn_coll (cw_sy w)),
           st_Meta = request_meta e rq started\<rparr>)\<rparr>)"
| leave: "cw_pc w i = PcDone hs wn ad p \<Longrightarrow>
     stats_step uni oor cfg started w (w\<lparr>cw_pc := (cw_pc w)(i := PcIdle)\<rparr>)"

section \<open>The invariant\<close>

definition oor_ok :: "(float64 \<Rightarrow> int) \<Rightarrow> bool" where
  "oor_ok oor \<longleftrightarrow> (\<forall>x. int64 (oor x))"

definition wn_shown_ok :: "(float64 \<Rightarrow> int) \<Rightarrow> string \<Rightarrow> wn_Snapshot \<Rightarrow> bool" where
  "wn_shown_ok oor iface s \<longleftrightarrow> (oor_ok oor \<longrightarrow>
     info_ok iface (wn_Info s) \<and> int64 (wi_SignalDBm (wn_Info s)) \<and> int64 (wi_FreqMHz (wn_Info s)))"

interpretation hsc: called_collector hs_lastAt hs_ttl hs_snap hs_At "hs_refresh uni" he_recheck he_now
  "hs_Snapshot_of uni" "hs_typed iface" "\<lambda>s. clients_typed (hs_Clients s)" for uni iface
  by unfold_locales (simp_all add: hs_refresh_typed, simp add: hs_typed_def)

interpretation wnc: called_collector wn_lastAt wn_ttl wn_snap wn_At "wn_refresh uni oor" we_recheck we_now
  "wn_Snapshot_of uni oor" "\<lambda>c. oor_ok oor \<longrightarrow> wn_typed iface c" "wn_shown_ok oor iface" for uni oor iface
  by unfold_locales (simp add: oor_ok_def wn_refresh_typed, simp add: wn_shown_ok_def wn_typed_def)

interpretation adc: called_collector ad_lastAt ad_ttl ad_snap ad_At ad_refresh ae_recheck ae_now
  ad_Snapshot_of "ad_typed iface" "\<lambda>s. ad_Interface (ad_Info s) = iface" for iface
  by unfold_locales (simp_all add: ad_refresh_typed, simp add: ad_typed_def)

text \<open>What a request has got of each collector.\<close>

definition hs_got :: "config \<Rightarrow> time \<Rightarrow> hs_Snapshot \<Rightarrow> bool" where
  "hs_got cfg t s \<longleftrightarrow> clients_typed (hs_Clients s) \<and> t - hs_At s < second"

definition wn_got :: "(float64 \<Rightarrow> int) \<Rightarrow> config \<Rightarrow> time \<Rightarrow> wn_Snapshot \<Rightarrow> bool" where
  "wn_got oor cfg t s \<longleftrightarrow> wn_shown_ok oor (WANIf cfg) s \<and> t - wn_At s < second"

definition ad_got :: "config \<Rightarrow> time \<Rightarrow> ad_Snapshot \<Rightarrow> bool" where
  "ad_got cfg t s \<longleftrightarrow> ad_Interface (ad_Info s) = AdminIf cfg \<and> t - ad_At s < second"

definition done_ok :: "config \<Rightarrow> api_env \<Rightarrow> hs_Snapshot \<Rightarrow> wn_Snapshot \<Rightarrow> ad_Snapshot \<Rightarrow> Stats \<Rightarrow> bool" where
  "done_ok cfg e hs wn ad p \<longleftrightarrow>
     st_Hotspot p = hotspot_shown e cfg hs \<and> st_WAN p = wan_shown e wn \<and> st_Admin p = admin_shown e ad \<and>
     dom (st_Interfaces p) = configured cfg \<and> (\<exists>sc. me_UptimeSeconds (st_Meta p) = f64_to_int (av_oor e) sc)"

fun pc_ok :: "(float64 \<Rightarrow> int) \<Rightarrow> config \<Rightarrow> api_env \<Rightarrow> stats_pc \<Rightarrow> bool" where
  "pc_ok oor cfg e PcIdle = True"
| "pc_ok oor cfg e PcTimed = (av_oor e = oor)"
| "pc_ok oor cfg e (PcHotspot ifs) = (av_oor e = oor \<and> dom ifs = configured cfg)"
| "pc_ok oor cfg e (PcWan ifs hs) = (av_oor e = oor \<and> dom ifs = configured cfg \<and> hs_got cfg (av_now e) hs)"
| "pc_ok oor cfg e (PcAdmin ifs hs wn) =
     (av_oor e = oor \<and> dom ifs = configured cfg \<and> hs_got cfg (av_now e) hs \<and> wn_got oor cfg (av_now e) wn)"
| "pc_ok oor cfg e (PcSystem ifs hs wn ad) =
     (av_oor e = oor \<and> dom ifs = configured cfg \<and> hs_got cfg (av_now e) hs \<and> wn_got oor cfg (av_now e) wn \<and>
      ad_got cfg (av_now e) ad)"
| "pc_ok oor cfg e (PcDone hs wn ad p) =
     (av_oor e = oor \<and> done_ok cfg e hs wn ad p \<and> hs_got cfg (av_now e) hs \<and> wn_got oor cfg (av_now e) wn \<and>
      ad_got cfg (av_now e) ad)"

definition arrival :: "stats_world \<Rightarrow> nat \<Rightarrow> time" where
  "arrival w i = av_now (snd (cw_req w i))"

lemma arrival_simps [simp]:
  "arrival (w\<lparr>cw_ns := x0\<rparr>) = arrival w"
  "arrival (w\<lparr>cw_sy := x1\<rparr>) = arrival w"
  "arrival (w\<lparr>cw_hs := x2\<rparr>) = arrival w"
  "arrival (w\<lparr>cw_wn := x3\<rparr>) = arrival w"
  "arrival (w\<lparr>cw_ad := x4\<rparr>) = arrival w"
  "arrival (w\<lparr>cw_clk := x5\<rparr>) = arrival w"
  "arrival (w\<lparr>cw_pc := x6\<rparr>) = arrival w"
  by (simp_all add: arrival_def fun_eq_iff)

definition stats_inv :: "(float64 \<Rightarrow> int) \<Rightarrow> config \<Rightarrow> stats_world \<Rightarrow> bool" where
  "stats_inv oor cfg w \<longleftrightarrow>
     ns_typed (configured cfg) (rn_coll (cw_ns w)) \<and>
     hsc.call_inv (HotspotIf cfg) second (cw_clk w) (at_hotspot (cw_pc w)) (arrival w) (cw_hs w) \<and>
     wnc.call_inv oor (WANIf cfg) second (cw_clk w) (at_wan (cw_pc w)) (arrival w) (cw_wn w) \<and>
     adc.call_inv (AdminIf cfg) second (cw_clk w) (at_admin (cw_pc w)) (arrival w) (cw_ad w) \<and>
     (\<forall>i. cw_pc w i \<noteq> PcIdle \<longrightarrow> arrival w i \<le> cw_clk w) \<and>
     (\<forall>i. pc_ok oor cfg (snd (cw_req w i)) (cw_pc w i))"

lemma at_upd:
  "at_hotspot (pc(i := x)) = (if is_PcHotspot x then insert i (at_hotspot pc) else at_hotspot pc - {i})"
  "at_wan (pc(i := x)) = (if is_PcWan x then insert i (at_wan pc) else at_wan pc - {i})"
  "at_admin (pc(i := x)) = (if is_PcAdmin x then insert i (at_admin pc) else at_admin pc - {i})"
  by (auto simp: at_hotspot_def at_wan_def at_admin_def split: if_splits)

lemma at_none:
  "\<not> is_PcHotspot (pc i) \<Longrightarrow> at_hotspot pc - {i} = at_hotspot pc"
  "\<not> is_PcWan (pc i) \<Longrightarrow> at_wan pc - {i} = at_wan pc"
  "\<not> is_PcAdmin (pc i) \<Longrightarrow> at_admin pc - {i} = at_admin pc"
  by (auto simp: at_hotspot_def at_wan_def at_admin_def)

lemma at_in:
  "pc i = PcHotspot ifs \<Longrightarrow> i \<in> at_hotspot pc"
  "pc i = PcWan ifs hs \<Longrightarrow> i \<in> at_wan pc"
  "pc i = PcAdmin ifs hs wn \<Longrightarrow> i \<in> at_admin pc"
  by (simp_all add: at_hotspot_def at_wan_def at_admin_def)

lemma at_not_idle:
  "pc i = PcIdle \<Longrightarrow> i \<notin> at_hotspot pc \<and> i \<notin> at_wan pc \<and> i \<notin> at_admin pc"
  by (simp add: at_hotspot_def at_wan_def at_admin_def)

lemmas call_inv_defs = hsc.call_inv_def wnc.call_inv_def adc.call_inv_def

lemma stats_inv_clk: "stats_inv oor cfg w \<Longrightarrow> cw_clk w \<le> t \<Longrightarrow> stats_inv oor cfg (w\<lparr>cw_clk := t\<rparr>)"
  unfolding stats_inv_def arrival_def
  by (auto intro: hsc.call_inv_later wnc.call_inv_later adc.call_inv_later order_trans)

lemma run_step_parts:
  assumes "run_step tick now react interval hello bye r r'"
  shows "rn_clk r \<le> rn_clk r'" and "rn_coll r' = rn_coll r \<or> (\<exists>e. rn_coll r' = tick e (rn_coll r))"
  using assms by (cases rule: run_step.cases; auto)+

lemma second_duration: "is_duration second" "0 < second"
  by (simp_all add: is_duration_def duration_defs)

lemma stats_inv_start:
  assumes "0 \<le> t"
  shows "stats_inv oor cfg (stats_start cfg rqs t)"
proof -
  have inv: "server_inv cfg (main_server cfg t)" by (rule server_start)
  have at: "at_hotspot (\<lambda>_. PcIdle) = {}" "at_wan (\<lambda>_. PcIdle) = {}" "at_admin (\<lambda>_. PcIdle) = {}"
    by (simp_all add: at_hotspot_def at_wan_def at_admin_def)
  have "hsc.call_inv (HotspotIf cfg) (hs_ttl (hs_New cfg t)) t {} since (start_world (hs_New cfg t) t)" for since
    using inv assms by (intro hsc.call_inv_start) (simp_all add: server_inv_def main_server_def api_New_def, simp_all add: hs_New_def hs_newWithDeps_def)
  moreover have "wnc.call_inv oor (WANIf cfg) (wn_ttl (wn_New cfg t)) t {} since (start_world (wn_New cfg t) t)" for since
    using inv assms by (intro wnc.call_inv_start) (simp_all add: server_inv_def main_server_def api_New_def, simp_all add: wn_New_def wn_newWithDeps_def)
  moreover have "adc.call_inv (AdminIf cfg) (ad_ttl (ad_New cfg t)) t {} since (start_world (ad_New cfg t) t)" for since
    using inv assms by (intro adc.call_inv_start) (simp_all add: server_inv_def main_server_def api_New_def, simp_all add: ad_New_def ad_newWithDeps_def)
  moreover have "ns_typed (configured cfg) (ns_New cfg t)"
    using inv by (simp add: server_inv_def main_server_def api_New_def)
  moreover have "hs_ttl (hs_New cfg t) = second" "wn_ttl (wn_New cfg t) = second" "ad_ttl (ad_New cfg t) = second"
    by (simp_all add: hs_New_def hs_newWithDeps_def wn_New_def wn_newWithDeps_def ad_New_def ad_newWithDeps_def)
  ultimately show ?thesis by (simp add: stats_inv_def stats_start_def at runner_start_def)
qed

text \<open>The steps of a request: one changes its place, and with it who calls what.\<close>

lemma stats_inv_move:
  assumes "stats_inv oor cfg w" and "cw_pc w i \<noteq> PcIdle" and "pc_ok oor cfg (snd (cw_req w i)) x"
    and "hsc.call_inv (HotspotIf cfg) second (cw_clk w) (at_hotspot ((cw_pc w)(i := x))) (arrival w) h"
    and "wnc.call_inv oor (WANIf cfg) second (cw_clk w) (at_wan ((cw_pc w)(i := x))) (arrival w) l"
    and "adc.call_inv (AdminIf cfg) second (cw_clk w) (at_admin ((cw_pc w)(i := x))) (arrival w) a"
  shows "stats_inv oor cfg (w\<lparr>cw_hs := h, cw_wn := l, cw_ad := a, cw_pc := (cw_pc w)(i := x)\<rparr>)"
  using assms by (simp add: stats_inv_def)

lemma stats_invD:
  assumes "stats_inv oor cfg w"
  shows "ns_typed (configured cfg) (rn_coll (cw_ns w))"
    and "hsc.call_inv (HotspotIf cfg) second (cw_clk w) (at_hotspot (cw_pc w)) (arrival w) (cw_hs w)"
    and "wnc.call_inv oor (WANIf cfg) second (cw_clk w) (at_wan (cw_pc w)) (arrival w) (cw_wn w)"
    and "adc.call_inv (AdminIf cfg) second (cw_clk w) (at_admin (cw_pc w)) (arrival w) (cw_ad w)"
    and "cw_pc w i \<noteq> PcIdle \<Longrightarrow> arrival w i \<le> cw_clk w"
    and "cw_pc w i = x \<Longrightarrow> pc_ok oor cfg (snd (cw_req w i)) x"
  using assms unfolding stats_inv_def by blast+

lemma dom_interfaces_shown: "ns_typed names c \<Longrightarrow> dom (interfaces_shown c) = names"
  by (simp add: interfaces_shown_def ns_Snapshot_of_def ns_typed_def dom_map_option_comp)

lemma stats_inv_step:
  assumes "stats_step uni oor cfg started w w'" and inv: "stats_inv oor cfg w"
  shows "stats_inv oor cfg w'"
  using assms(1)
proof (cases rule: stats_step.cases)
  case (netstats r)
  note p = run_step_parts [OF netstats(2)]
  have "ns_typed (configured cfg) (rn_coll r)" using p(2) stats_invD(1) [OF inv] ns_tick_typed by auto
  with stats_inv_clk [OF inv, of "rn_clk r"] p(1) netstats(1) show ?thesis by (simp add: stats_inv_def)
next
  case (system r)
  with stats_inv_clk [OF inv, of "rn_clk r"] run_step_parts(1) [OF system(2)] show ?thesis
    by (simp add: stats_inv_def)
next
  case (hotspot t h)
  have "hsc.call_inv (HotspotIf cfg) second t (at_hotspot (cw_pc w)) (arrival w) h \<and> cw_clk w \<le> t"
    using hsc.call_inv_step [OF stats_invD(2) [OF inv] hotspot(2) second_duration] .
  with stats_inv_clk [OF inv, of t] hotspot(1) show ?thesis by (simp add: stats_inv_def)
next
  case (wan t h)
  have "wnc.call_inv oor (WANIf cfg) second t (at_wan (cw_pc w)) (arrival w) h \<and> cw_clk w \<le> t"
    using wnc.call_inv_step [OF stats_invD(3) [OF inv] wan(2) second_duration] .
  with stats_inv_clk [OF inv, of t] wan(1) show ?thesis by (simp add: stats_inv_def)
next
  case (admin t h)
  have "adc.call_inv (AdminIf cfg) second t (at_admin (cw_pc w)) (arrival w) h \<and> cw_clk w \<le> t"
    using adc.call_inv_step [OF stats_invD(4) [OF inv] admin(2) second_duration] .
  with stats_inv_clk [OF inv, of t] admin(1) show ?thesis by (simp add: stats_inv_def)
next
  case (arrive i e rq)
  let ?w = "w\<lparr>cw_clk := av_now e\<rparr>"
  have inv': "stats_inv oor cfg ?w" using stats_inv_clk [OF inv] arrive by simp
  have out: "i \<notin> at_hotspot (cw_pc w)" "i \<notin> at_wan (cw_pc w)" "i \<notin> at_admin (cw_pc w)"
    using at_not_idle arrive(2) by auto
  have same: "arrival w' j = arrival ?w j" if "j \<noteq> i" for j using that arrive(1) by (simp add: arrival_def)
  have "hsc.call_inv (HotspotIf cfg) second (av_now e) (at_hotspot (cw_pc w)) (arrival w') (cw_hs w)"
    using hsc.call_inv_since [OF stats_invD(2) [OF inv'], of "arrival w'"] same out by force
  moreover have "wnc.call_inv oor (WANIf cfg) second (av_now e) (at_wan (cw_pc w)) (arrival w') (cw_wn w)"
    using wnc.call_inv_since [OF stats_invD(3) [OF inv'], of "arrival w'"] same out by force
  moreover have "adc.call_inv (AdminIf cfg) second (av_now e) (at_admin (cw_pc w)) (arrival w') (cw_ad w)"
    using adc.call_inv_since [OF stats_invD(4) [OF inv'], of "arrival w'"] same out by force
  ultimately show ?thesis
    using inv' out arrive by (auto simp: stats_inv_def at_upd arrival_def)
next
  case (interfaces i)
  have "pc_ok oor cfg (snd (cw_req w i)) PcTimed" using stats_invD(6) [OF inv interfaces(2)] .
  moreover have "hsc.call_inv (HotspotIf cfg) second (cw_clk w) (insert i (at_hotspot (cw_pc w))) (arrival w) (cw_hs w)"
    using hsc.call_inv_enter [OF stats_invD(2) [OF inv]] stats_invD(5) [OF inv, of i] interfaces(2)
    by (simp add: at_hotspot_def)
  ultimately show ?thesis
    using stats_inv_move [OF inv, of i "PcHotspot (interfaces_shown (rn_coll (cw_ns w)))" "cw_hs w" "cw_wn w" "cw_ad w"]
      interfaces stats_invD [OF inv] dom_interfaces_shown
    by (simp add: at_upd at_none)
next
  case (got_hotspot i ifs u hs)
  note r = hsc.call_inv_return [OF stats_invD(2) [OF inv] at_in(1) [where pc = "cw_pc w", OF got_hotspot(2)] got_hotspot(3)]
  have "wnc.call_inv oor (WANIf cfg) second (cw_clk w) (insert i (at_wan (cw_pc w))) (arrival w) (cw_wn w)"
    using wnc.call_inv_enter [OF stats_invD(3) [OF inv]] stats_invD(5) [OF inv, of i] got_hotspot(2)
    by (simp add: at_wan_def)
  moreover have "pc_ok oor cfg (snd (cw_req w i)) (PcWan ifs hs)"
    using stats_invD(6) [OF inv got_hotspot(2)] r(2,3) by (simp add: hs_got_def arrival_def)
  ultimately show ?thesis
    using stats_inv_move [OF inv, of i "PcWan ifs hs" "call_return i (cw_hs w)" "cw_wn w" "cw_ad w"]
      got_hotspot stats_invD(4) [OF inv] r(1)
    by (simp add: at_upd at_none)
next
  case (got_wan i ifs hs u wn)
  note r = wnc.call_inv_return [OF stats_invD(3) [OF inv] at_in(2) [where pc = "cw_pc w", OF got_wan(2)] got_wan(3)]
  have "adc.call_inv (AdminIf cfg) second (cw_clk w) (insert i (at_admin (cw_pc w))) (arrival w) (cw_ad w)"
    using adc.call_inv_enter [OF stats_invD(4) [OF inv]] stats_invD(5) [OF inv, of i] got_wan(2)
    by (simp add: at_admin_def)
  moreover have "pc_ok oor cfg (snd (cw_req w i)) (PcAdmin ifs hs wn)"
    using stats_invD(6) [OF inv got_wan(2)] r(2,3) by (simp add: wn_got_def arrival_def)
  ultimately show ?thesis
    using stats_inv_move [OF inv, of i "PcAdmin ifs hs wn" "cw_hs w" "call_return i (cw_wn w)" "cw_ad w"]
      got_wan stats_invD(2) [OF inv] r(1)
    by (simp add: at_upd at_none)
next
  case (got_admin i ifs hs wn u ad)
  note r = adc.call_inv_return [OF stats_invD(4) [OF inv] at_in(3) [where pc = "cw_pc w", OF got_admin(2)] got_admin(3)]
  have "pc_ok oor cfg (snd (cw_req w i)) (PcSystem ifs hs wn ad)"
    using stats_invD(6) [OF inv got_admin(2)] r(2,3) by (simp add: ad_got_def arrival_def)
  then show ?thesis
    using stats_inv_move [OF inv, of i "PcSystem ifs hs wn ad" "cw_hs w" "cw_wn w" "call_return i (cw_ad w)"]
      got_admin stats_invD(2,3) [OF inv] r(1)
    by (simp add: at_upd at_none)
next
  case (answer i ifs hs wn ad rq e)
  let ?w = "w\<lparr>cw_clk := av_since e\<rparr>"
  have inv': "stats_inv oor cfg ?w" using stats_inv_clk [OF inv] answer by simp
  obtain p where w': "w' = ?w\<lparr>cw_pc := (cw_pc w)(i := PcDone hs wn ad p)\<rparr>" and p: "st_Hotspot p = hotspot_shown e cfg hs"
    "st_WAN p = wan_shown e wn" "st_Admin p = admin_shown e ad" "st_Interfaces p = ifs" "st_Meta p = request_meta e rq started"
    using answer(1) by simp
  have "pc_ok oor cfg (snd (cw_req ?w i)) (PcDone hs wn ad p)"
    using stats_invD(6) [OF inv answer(2)] answer(3) p by (auto simp: done_ok_def request_meta_def)
  then show ?thesis
    using stats_inv_move [OF inv', of i "PcDone hs wn ad p" "cw_hs w" "cw_wn w" "cw_ad w"] stats_invD(2-4) [OF inv']
      answer(2) w'
    by (simp add: at_upd at_none)
next
  case (leave i hs wn ad p)
  then show ?thesis
    using stats_inv_move [OF inv, of i PcIdle "cw_hs w" "cw_wn w" "cw_ad w"] stats_invD(2-4) [OF inv]
    by (simp add: at_upd at_none)
qed

lemma stats_reach_inv:
  assumes "(stats_step uni oor cfg started)\<^sup>*\<^sup>* (stats_start cfg rqs t) w" and "0 \<le> t"
  shows "stats_inv oor cfg w"
  using assms(1) by (induction rule: rtranclp_induct) (auto intro: stats_inv_start stats_inv_step assms(2))

section \<open>What a request saw\<close>

text \<open>Runs that pass through states with the given properties, in this order.\<close>

fun passing :: "('w \<Rightarrow> 'w \<Rightarrow> bool) \<Rightarrow> ('w \<Rightarrow> bool) list \<Rightarrow> 'w \<Rightarrow> 'w \<Rightarrow> bool" where
  "passing S [] w w' \<longleftrightarrow> S\<^sup>*\<^sup>* w w'"
| "passing S (P # Ps) w w' \<longleftrightarrow> (\<exists>v. S\<^sup>*\<^sup>* w v \<and> P v \<and> passing S Ps v w')"

lemma passing_step: "passing S Ps w w' \<Longrightarrow> S w' w'' \<Longrightarrow> passing S Ps w w''"
  by (induction Ps arbitrary: w) auto

lemma passing_snoc: "passing S Ps w w' \<Longrightarrow> P w' \<Longrightarrow> passing S (Ps @ [P]) w w'"
  by (induction Ps arbitrary: w) auto

text \<open>States in which a collector publishes what a section of a payload shows.\<close>

definition publishes_ifs :: "time \<Rightarrow> (string \<rightharpoonup> api_Interface) \<Rightarrow> stats_world \<Rightarrow> bool" where
  "publishes_ifs t ifs v \<longleftrightarrow> t \<le> cw_clk v \<and> interfaces_shown (rn_coll (cw_ns v)) = ifs"

definition publishes_hs :: "hs_Snapshot \<Rightarrow> stats_world \<Rightarrow> bool" where
  "publishes_hs s v \<longleftrightarrow> hs_snap (coll (cw_hs v)) = s"

definition publishes_wn :: "wn_Snapshot \<Rightarrow> stats_world \<Rightarrow> bool" where
  "publishes_wn s v \<longleftrightarrow> wn_snap (coll (cw_wn v)) = s"

definition publishes_ad :: "ad_Snapshot \<Rightarrow> stats_world \<Rightarrow> bool" where
  "publishes_ad s v \<longleftrightarrow> ad_snap (coll (cw_ad v)) = s"

definition publishes_sy :: "api_env \<Rightarrow> api_System \<Rightarrow> stats_world \<Rightarrow> bool" where
  "publishes_sy e y v \<longleftrightarrow> system_shown e (rn_coll (cw_sy v)) = y"

text \<open>What has been published since the arrival, by the place of the request.\<close>

fun story :: "(stats_world \<Rightarrow> stats_world \<Rightarrow> bool) \<Rightarrow> stats_world \<Rightarrow> stats_world \<Rightarrow> nat \<Rightarrow> api_env \<Rightarrow> stats_pc \<Rightarrow> bool" where
  "story S w0 w i e (PcHotspot ifs) \<longleftrightarrow> passing S [publishes_ifs (av_now e) ifs] w0 w \<and>
     (\<forall>u s. phase_of (cw_hs w) i = Done u s \<longrightarrow> passing S [publishes_ifs (av_now e) ifs, publishes_hs s] w0 w)"
| "story S w0 w i e (PcWan ifs hs) \<longleftrightarrow> passing S [publishes_ifs (av_now e) ifs, publishes_hs hs] w0 w \<and>
     (\<forall>u s. phase_of (cw_wn w) i = Done u s \<longrightarrow>
       passing S [publishes_ifs (av_now e) ifs, publishes_hs hs, publishes_wn s] w0 w)"
| "story S w0 w i e (PcAdmin ifs hs wn) \<longleftrightarrow>
     passing S [publishes_ifs (av_now e) ifs, publishes_hs hs, publishes_wn wn] w0 w \<and>
     (\<forall>u s. phase_of (cw_ad w) i = Done u s \<longrightarrow>
       passing S [publishes_ifs (av_now e) ifs, publishes_hs hs, publishes_wn wn, publishes_ad s] w0 w)"
| "story S w0 w i e (PcSystem ifs hs wn ad) \<longleftrightarrow>
     passing S [publishes_ifs (av_now e) ifs, publishes_hs hs, publishes_wn wn, publishes_ad ad] w0 w"
| "story S w0 w i e (PcDone hs wn ad p) \<longleftrightarrow>
     passing S [publishes_ifs (av_now e) (st_Interfaces p), publishes_hs hs, publishes_wn wn, publishes_ad ad,
       publishes_sy e (st_System p)] w0 w"
| "story S w0 w i e pc \<longleftrightarrow> True"

text \<open>A step that leaves the calls of a request alone, and one that loads a snapshot for one.\<close>

lemma story_step:
  assumes "story S w0 w i e pc" and "S w w'"
    and "is_PcHotspot pc \<Longrightarrow> phase_of (cw_hs w') i = phase_of (cw_hs w) i"
    and "is_PcWan pc \<Longrightarrow> phase_of (cw_wn w') i = phase_of (cw_wn w) i"
    and "is_PcAdmin pc \<Longrightarrow> phase_of (cw_ad w') i = phase_of (cw_ad w) i"
  shows "story S w0 w' i e pc"
  using assms passing_step [of S _ w0 w w'] by (cases pc) (simp_all del: passing.simps)

lemma story_loads:
  assumes "story S w0 w i e pc" and "S w w'"
    and "\<And>u s. is_PcHotspot pc \<Longrightarrow> phase_of (cw_hs w') i = Done u s \<Longrightarrow>
      phase_of (cw_hs w) i = Done u s \<or> publishes_hs s w"
    and "\<And>u s. is_PcWan pc \<Longrightarrow> phase_of (cw_wn w') i = Done u s \<Longrightarrow>
      phase_of (cw_wn w) i = Done u s \<or> publishes_wn s w"
    and "\<And>u s. is_PcAdmin pc \<Longrightarrow> phase_of (cw_ad w') i = Done u s \<Longrightarrow>
      phase_of (cw_ad w) i = Done u s \<or> publishes_ad s w"
  shows "story S w0 w' i e pc"
proof (cases pc)
  case (PcHotspot ifs)
  then show ?thesis
    using assms passing_step [of S _ w0 w w'] passing_snoc [of S "[publishes_ifs (av_now e) ifs]" w0 w]
    by (auto simp del: passing.simps)
next
  case (PcWan ifs hs)
  then show ?thesis
    using assms passing_step [of S _ w0 w w']
      passing_snoc [of S "[publishes_ifs (av_now e) ifs, publishes_hs hs]" w0 w]
    by (auto simp del: passing.simps)
next
  case (PcAdmin ifs hs wn)
  then show ?thesis
    using assms passing_step [of S _ w0 w w']
      passing_snoc [of S "[publishes_ifs (av_now e) ifs, publishes_hs hs, publishes_wn wn]" w0 w]
    by (auto simp del: passing.simps)
qed (use assms passing_step [of S _ w0 w w'] in \<open>simp_all del: passing.simps\<close>)

lemma stats_step_story:
  assumes st: "stats_step uni oor cfg started w w'" and inv: "stats_inv oor cfg w"
    and all: "\<And>i. story (stats_step uni oor cfg started) w0 w i (snd (cw_req w i)) (cw_pc w i)"
    and run: "(stats_step uni oor cfg started)\<^sup>*\<^sup>* w0 w"
  shows "story (stats_step uni oor cfg started) w0 w' i (snd (cw_req w' i)) (cw_pc w' i)"
proof -
  let ?S = "stats_step uni oor cfg started"
  note keep = story_step [OF all st]
  note snoc = passing_step [where S = ?S, OF passing_snoc st]
  have now: "av_now (snd (cw_req w j)) \<le> cw_clk w" if "cw_pc w j \<noteq> PcIdle" for j
    using stats_invD(5) [OF inv that] by (simp add: arrival_def)
  have quiet: "\<not> is_PcHotspot (cw_pc w j) \<Longrightarrow> phase_of (cw_hs w) j = Idle"
    "\<not> is_PcWan (cw_pc w j) \<Longrightarrow> phase_of (cw_wn w) j = Idle"
    "\<not> is_PcAdmin (cw_pc w j) \<Longrightarrow> phase_of (cw_ad w) j = Idle" for j
    using stats_invD(2-4) [OF inv] unfolding call_inv_defs at_hotspot_def at_wan_def at_admin_def by auto
  from st show ?thesis
  proof (cases rule: stats_step.cases)
    case (netstats r)
    then show ?thesis using keep [of i] by simp
  next
    case (system r)
    then show ?thesis using keep [of i] by simp
  next
    case (hotspot t h)
    then show ?thesis
      using story_loads [OF all [of i] st] done_loaded [OF hotspot(2)] by (simp add: publishes_hs_def) metis
  next
    case (wan t h)
    then show ?thesis
      using story_loads [OF all [of i] st] done_loaded [OF wan(2)] by (simp add: publishes_wn_def) metis
  next
    case (admin t h)
    then show ?thesis
      using story_loads [OF all [of i] st] done_loaded [OF admin(2)] by (simp add: publishes_ad_def) metis
  next
    case (arrive j e rq)
    then show ?thesis using keep [of i] by (cases "i = j") simp_all
  next
    case (interfaces j)
    have "passing ?S [publishes_ifs (av_now (snd (cw_req w j))) (interfaces_shown (rn_coll (cw_ns w)))] w0 w'"
      using run now [of j] interfaces(2) st by (auto simp: publishes_ifs_def intro!: exI [of _ w])
    then show ?thesis
      using interfaces keep [of i] quiet(1) [of j] by (cases "i = j") (simp_all del: passing.simps)
  next
    case (got_hotspot j ifs u hs)
    then show ?thesis
      using keep [of i] quiet(2) [of j] all [of j] passing_step [where S = ?S and w = w0, OF _ st]
      by (cases "i = j") (simp_all add: call_return_def del: passing.simps)
  next
    case (got_wan j ifs hs u wn)
    then show ?thesis
      using keep [of i] quiet(3) [of j] all [of j] passing_step [where S = ?S and w = w0, OF _ st]
      by (cases "i = j") (simp_all add: call_return_def del: passing.simps)
  next
    case (got_admin j ifs hs wn u ad)
    then show ?thesis
      using keep [of i] all [of j] passing_step [where S = ?S and w = w0, OF _ st]
      by (cases "i = j") (simp_all add: call_return_def del: passing.simps)
  next
    case (answer j ifs hs wn ad rq e)
    have "publishes_sy e (system_shown e (rn_coll (cw_sy w))) w" by (simp add: publishes_sy_def)
    then show ?thesis
      using answer keep [of i] all [of j]
        snoc [of "[publishes_ifs (av_now e) ifs, publishes_hs hs, publishes_wn wn, publishes_ad ad]" w0]
      by (cases "i = j") (simp_all del: passing.simps)
  next
    case (leave j hs wn ad p)
    then show ?thesis using keep [of i] by (cases "i = j") simp_all
  qed
qed

lemma stats_reach_story:
  assumes "(stats_step uni oor cfg started)\<^sup>*\<^sup>* (stats_start cfg rqs t) w" and "0 \<le> t"
  shows "story (stats_step uni oor cfg started) (stats_start cfg rqs t) w i (snd (cw_req w i)) (cw_pc w i)"
  using assms(1)
proof (induction arbitrary: i rule: rtranclp_induct)
  case base
  then show ?case by (simp add: stats_start_def)
next
  case (step v w)
  show ?case
    by (rule stats_step_story [OF step.hyps(2) stats_reach_inv [OF step.hyps(1) assms(2)] step.IH step.hyps(1)])
qed

section \<open>A request alone\<close>

definition server_of :: "config \<Rightarrow> time \<Rightarrow> stats_world \<Rightarrow> Server" where
  "server_of cfg started w =
     api_New cfg started (Some (rn_coll (cw_ns w))) (Some (coll (cw_hs w))) (Some (coll (cw_wn w)))
       (Some (coll (cw_ad w))) (Some (rn_coll (cw_sy w)))"

text \<open>The instants that the handler meets, in its order.\<close>

definition in_order :: "time \<Rightarrow> api_env \<Rightarrow> bool" where
  "in_order t e \<longleftrightarrow>
     t \<le> av_now e \<and> av_now e \<le> fst (av_hs e) \<and>
     fst (av_hs e) \<le> he_recheck (snd (av_hs e)) \<and> he_recheck (snd (av_hs e)) \<le> he_now (snd (av_hs e)) \<and>
     he_now (snd (av_hs e)) \<le> fst (av_wn e) \<and> fst (av_wn e) \<le> we_recheck (snd (av_wn e)) \<and>
     we_recheck (snd (av_wn e)) \<le> we_now (snd (av_wn e)) \<and> we_now (snd (av_wn e)) \<le> fst (av_ad e) \<and>
     fst (av_ad e) \<le> ae_recheck (snd (av_ad e)) \<and> ae_recheck (snd (av_ad e)) \<le> ae_now (snd (av_ad e)) \<and>
     ae_now (snd (av_ad e)) \<le> av_since e"

lemma in_orderD:
  assumes "in_order t e"
  shows "t \<le> av_now e" "av_now e \<le> fst (av_hs e)" "fst (av_hs e) \<le> he_recheck (snd (av_hs e))"
    "he_recheck (snd (av_hs e)) \<le> he_now (snd (av_hs e))" "he_now (snd (av_hs e)) \<le> fst (av_wn e)" "fst (av_wn e) \<le> we_recheck (snd (av_wn e))"
    "we_recheck (snd (av_wn e)) \<le> we_now (snd (av_wn e))" "we_now (snd (av_wn e)) \<le> fst (av_ad e)" "fst (av_ad e) \<le> ae_recheck (snd (av_ad e))"
    "ae_recheck (snd (av_ad e)) \<le> ae_now (snd (av_ad e))" "ae_now (snd (av_ad e)) \<le> av_since e"
  using assms by (simp_all add: in_order_def)

lemma hotspot_lift:
  assumes "(client_step (hs_call_step uni) (at_hotspot (cw_pc w)))\<^sup>*\<^sup>* (cw_clk w, cw_hs w) (t, h)"
  shows "(stats_step uni oor cfg started)\<^sup>*\<^sup>* w (w\<lparr>cw_hs := h, cw_clk := t\<rparr>)"
  using client_run_lift [OF assms, of "stats_step uni oor cfg started" "\<lambda>x. w\<lparr>cw_hs := snd x, cw_clk := fst x\<rparr>"]
    stats_step.hotspot [of uni "w\<lparr>cw_hs := snd x, cw_clk := fst x\<rparr>" for x]
  by (simp add: split_paired_all)

lemma wan_lift:
  assumes "(client_step (wn_call_step uni oor) (at_wan (cw_pc w)))\<^sup>*\<^sup>* (cw_clk w, cw_wn w) (t, h)"
  shows "(stats_step uni oor cfg started)\<^sup>*\<^sup>* w (w\<lparr>cw_wn := h, cw_clk := t\<rparr>)"
  using client_run_lift [OF assms, of "stats_step uni oor cfg started" "\<lambda>x. w\<lparr>cw_wn := snd x, cw_clk := fst x\<rparr>"]
    stats_step.wan [of uni oor "w\<lparr>cw_wn := snd x, cw_clk := fst x\<rparr>" for x]
  by (simp add: split_paired_all)

lemma admin_lift:
  assumes "(client_step ad_call_step (at_admin (cw_pc w)))\<^sup>*\<^sup>* (cw_clk w, cw_ad w) (t, h)"
  shows "(stats_step uni oor cfg started)\<^sup>*\<^sup>* w (w\<lparr>cw_ad := h, cw_clk := t\<rparr>)"
  using client_run_lift [OF assms, of "stats_step uni oor cfg started" "\<lambda>x. w\<lparr>cw_ad := snd x, cw_clk := fst x\<rparr>"]
    stats_step.admin [of "w\<lparr>cw_ad := snd x, cw_clk := fst x\<rparr>" for x]
  by (simp add: split_paired_all)

text \<open>The three calls of a request, each up to the snapshot that it goes on with.\<close>

lemma hotspot_call:
  assumes "cw_pc w i = PcHotspot ifs" and "phase_of (cw_hs w) i = Idle"
    and "cw_clk w \<le> t" and "t \<le> he_recheck e" and "he_recheck e \<le> he_now e"
  obtains u h where "u \<le> he_now e" "coll h = fst (fst (hs_Snapshot_of uni t e (coll (cw_hs w))))"
    "phase_of h = phase_of (cw_hs w)"
    "(stats_step uni oor cfg started)\<^sup>*\<^sup>* w
       (w\<lparr>cw_clk := u, cw_hs := h, cw_pc := (cw_pc w)(i := PcWan ifs (snd (hs_Snapshot_of uni t e (coll (cw_hs w)))))\<rparr>)"
proof -
  let ?s = "snd (hs_Snapshot_of uni t e (coll (cw_hs w)))"
  obtain u h where h: "(client_step (hs_call_step uni) (at_hotspot (cw_pc w)))\<^sup>*\<^sup>* (cw_clk w, cw_hs w) (u, h)" "u \<le> he_now e"
    "coll h = fst (fst (hs_Snapshot_of uni t e (coll (cw_hs w))))" "phase_of h = (phase_of (cw_hs w))(i := Done t ?s)"
    using hsc.solo_call [OF at_in(1) [where pc = "cw_pc w", OF assms(1)] assms(2-5), of uni] by blast
  let ?w = "w\<lparr>cw_hs := h, cw_clk := u\<rparr>"
  have "stats_step uni oor cfg started ?w (?w\<lparr>cw_hs := call_return i h, cw_pc := (cw_pc w)(i := PcWan ifs ?s)\<rparr>)"
    using stats_step.got_hotspot [of ?w i ifs t ?s uni oor cfg started] assms(1) h(4) by simp
  with hotspot_lift [OF h(1), of oor cfg started] show ?thesis
    using that [of u "call_return i h"] h(2,3,4) assms(2) by (simp add: call_return_def fun_upd_idem rtranclp.rtrancl_into_rtrancl)
qed

lemma wan_call:
  assumes "cw_pc w i = PcWan ifs hs" and "phase_of (cw_wn w) i = Idle"
    and "cw_clk w \<le> t" and "t \<le> we_recheck e" and "we_recheck e \<le> we_now e"
  obtains u h where "u \<le> we_now e" "coll h = fst (fst (wn_Snapshot_of uni oor t e (coll (cw_wn w))))"
    "phase_of h = phase_of (cw_wn w)"
    "(stats_step uni oor cfg started)\<^sup>*\<^sup>* w
       (w\<lparr>cw_clk := u, cw_wn := h, cw_pc := (cw_pc w)(i := PcAdmin ifs hs (snd (wn_Snapshot_of uni oor t e (coll (cw_wn w)))))\<rparr>)"
proof -
  let ?s = "snd (wn_Snapshot_of uni oor t e (coll (cw_wn w)))"
  obtain u h where h: "(client_step (wn_call_step uni oor) (at_wan (cw_pc w)))\<^sup>*\<^sup>* (cw_clk w, cw_wn w) (u, h)" "u \<le> we_now e"
    "coll h = fst (fst (wn_Snapshot_of uni oor t e (coll (cw_wn w))))" "phase_of h = (phase_of (cw_wn w))(i := Done t ?s)"
    using wnc.solo_call [OF at_in(2) [where pc = "cw_pc w", OF assms(1)] assms(2-5), of uni oor] by blast
  let ?w = "w\<lparr>cw_wn := h, cw_clk := u\<rparr>"
  have "stats_step uni oor cfg started ?w (?w\<lparr>cw_wn := call_return i h, cw_pc := (cw_pc w)(i := PcAdmin ifs hs ?s)\<rparr>)"
    using stats_step.got_wan [of ?w i ifs hs t ?s uni oor cfg started] assms(1) h(4) by simp
  with wan_lift [OF h(1), of cfg started] show ?thesis
    using that [of u "call_return i h"] h(2,3,4) assms(2) by (simp add: call_return_def fun_upd_idem rtranclp.rtrancl_into_rtrancl)
qed

lemma admin_call:
  assumes "cw_pc w i = PcAdmin ifs hs wn" and "phase_of (cw_ad w) i = Idle"
    and "cw_clk w \<le> t" and "t \<le> ae_recheck e" and "ae_recheck e \<le> ae_now e"
  obtains u h where "u \<le> ae_now e" "coll h = fst (fst (ad_Snapshot_of t e (coll (cw_ad w))))"
    "phase_of h = phase_of (cw_ad w)"
    "(stats_step uni oor cfg started)\<^sup>*\<^sup>* w
       (w\<lparr>cw_clk := u, cw_ad := h, cw_pc := (cw_pc w)(i := PcSystem ifs hs wn (snd (ad_Snapshot_of t e (coll (cw_ad w)))))\<rparr>)"
proof -
  let ?s = "snd (ad_Snapshot_of t e (coll (cw_ad w)))"
  obtain u h where h: "(client_step ad_call_step (at_admin (cw_pc w)))\<^sup>*\<^sup>* (cw_clk w, cw_ad w) (u, h)" "u \<le> ae_now e"
    "coll h = fst (fst (ad_Snapshot_of t e (coll (cw_ad w))))" "phase_of h = (phase_of (cw_ad w))(i := Done t ?s)"
    using adc.solo_call [OF at_in(3) [where pc = "cw_pc w", OF assms(1)] assms(2-5)] by blast
  let ?w = "w\<lparr>cw_ad := h, cw_clk := u\<rparr>"
  have "stats_step uni oor cfg started ?w (?w\<lparr>cw_ad := call_return i h, cw_pc := (cw_pc w)(i := PcSystem ifs hs wn ?s)\<rparr>)"
    using stats_step.got_admin [of ?w i ifs hs wn t ?s uni oor cfg started] assms(1) h(4) by simp
  with admin_lift [OF h(1), of uni oor cfg started] show ?thesis
    using that [of u "call_return i h"] h(2,3,4) assms(2) by (simp add: call_return_def fun_upd_idem rtranclp.rtrancl_into_rtrancl)
qed

text \<open>The handler in one step, on a server whose collectors are all there.\<close>

lemma stats_of_shown:
  assumes "hs_Snapshot_of (av_uni e) (fst (av_hs e)) (snd (av_hs e)) hs = ((hs', x1), sh)"
    and "wn_Snapshot_of (av_uni e) (av_oor e) (fst (av_wn e)) (snd (av_wn e)) wn = ((wn', x2), sw)"
    and "ad_Snapshot_of (fst (av_ad e)) (snd (av_ad e)) ad = ((ad', x3), sa)"
  shows "\<exists>effs. stats_of e rq (api_New cfg started (Some ns) (Some hs) (Some wn) (Some ad) (Some sy)) =
    (api_New cfg started (Some ns) (Some hs') (Some wn') (Some ad') (Some sy),
     \<lparr>st_Timestamp = unix_seconds (av_now e), st_Interfaces = interfaces_shown ns, st_Hotspot = hotspot_shown e cfg sh,
      st_WAN = wan_shown e sw, st_Admin = admin_shown e sa, st_System = system_shown e sy,
      st_Meta = request_meta e rq started\<rparr>, effs)"
  using assms
  by (simp add: stats_of_def hotspotFromCollector_def wanFromCollector_def adminFromCollector_def api_New_def
      interfacesFromNetstats_def systemFromCollector_def meta_of_def Let_def)

lemma idle_phases:
  assumes "stats_inv oor cfg w" and "cw_pc w i = PcIdle"
  shows "phase_of (cw_hs w) i = Idle \<and> phase_of (cw_wn w) i = Idle \<and> phase_of (cw_ad w) i = Idle"
  using stats_invD(2-4) [OF assms(1)] at_not_idle [where pc = "cw_pc w", OF assms(2)] unfolding call_inv_defs by auto

lemma request_alone:
  assumes idle: "cw_pc w i = PcIdle" and ph: "phase_of (cw_hs w) i = Idle \<and> phase_of (cw_wn w) i = Idle \<and> phase_of (cw_ad w) i = Idle"
    and e: "av_uni e = uni" "av_oor e = oor" and ord: "in_order (cw_clk w) e"
  obtains w' hs wn ad where "(stats_step uni oor cfg started)\<^sup>*\<^sup>* w w'"
    "cw_pc w' = (cw_pc w)(i := PcDone hs wn ad (fst (snd (stats_of e rq (server_of cfg started w)))))"
    "server_of cfg started w' = fst (stats_of e rq (server_of cfg started w))" "cw_req w' = (cw_req w)(i := (rq, e))"
proof -
  let ?S = "(stats_step uni oor cfg started)\<^sup>*\<^sup>*"
  let ?ifs = "interfaces_shown (rn_coll (cw_ns w))"
  obtain hs' x1 sh where hs: "hs_Snapshot_of uni (fst (av_hs e)) (snd (av_hs e)) (coll (cw_hs w)) = ((hs', x1), sh)"
    by (metis prod.exhaust)
  obtain wn' x2 sw where wn: "wn_Snapshot_of uni oor (fst (av_wn e)) (snd (av_wn e)) (coll (cw_wn w)) = ((wn', x2), sw)"
    by (metis prod.exhaust)
  obtain ad' x3 sa where ad: "ad_Snapshot_of (fst (av_ad e)) (snd (av_ad e)) (coll (cw_ad w)) = ((ad', x3), sa)"
    by (metis prod.exhaust)
  note le = in_orderD [OF ord]
  define w1 where "w1 = w\<lparr>cw_clk := av_now e, cw_req := (cw_req w)(i := (rq, e)), cw_pc := (cw_pc w)(i := PcTimed)\<rparr>"
  define w2 where "w2 = w1\<lparr>cw_pc := (cw_pc w1)(i := PcHotspot ?ifs)\<rparr>"
  have 1: "?S w w1"
    using stats_step.arrive [of w i e oor uni cfg started rq] idle e(2) le by (simp add: w1_def)
  have "?S w1 w2"
    using stats_step.interfaces [of w1 i uni oor cfg started] by (simp add: w1_def w2_def)
  with 1 have 2: "?S w w2" by simp
  have c2: "cw_pc w2 i = PcHotspot ?ifs" "phase_of (cw_hs w2) i = Idle" "cw_clk w2 \<le> fst (av_hs e)" "coll (cw_hs w2) = coll (cw_hs w)"
    using ph le by (simp_all add: w2_def w1_def)
  obtain t3 h3 where h3: "t3 \<le> he_now (snd (av_hs e))" "coll h3 = hs'" "phase_of h3 = phase_of (cw_hs w2)"
    "?S w2 (w2\<lparr>cw_clk := t3, cw_hs := h3, cw_pc := (cw_pc w2)(i := PcWan ?ifs sh)\<rparr>)"
    by (rule hotspot_call [OF c2(1-3) le(3,4), of uni oor cfg started]) (simp_all add: hs c2(4))
  define w3 where "w3 = w2\<lparr>cw_clk := t3, cw_hs := h3, cw_pc := (cw_pc w2)(i := PcWan ?ifs sh)\<rparr>"
  have 3: "?S w w3" using 2 h3(4) unfolding w3_def by (rule rtranclp_trans)
  have c3: "cw_pc w3 i = PcWan ?ifs sh" "phase_of (cw_wn w3) i = Idle" "cw_clk w3 \<le> fst (av_wn e)" "coll (cw_wn w3) = coll (cw_wn w)"
    using ph le h3(1) by (simp_all add: w3_def w2_def w1_def)
  obtain t4 h4 where h4: "t4 \<le> we_now (snd (av_wn e))" "coll h4 = wn'" "phase_of h4 = phase_of (cw_wn w3)"
    "?S w3 (w3\<lparr>cw_clk := t4, cw_wn := h4, cw_pc := (cw_pc w3)(i := PcAdmin ?ifs sh sw)\<rparr>)"
    by (rule wan_call [OF c3(1-3) le(6,7), of uni oor cfg started]) (simp_all add: wn c3(4))
  define w4 where "w4 = w3\<lparr>cw_clk := t4, cw_wn := h4, cw_pc := (cw_pc w3)(i := PcAdmin ?ifs sh sw)\<rparr>"
  have 4: "?S w w4" using 3 h4(4) unfolding w4_def by (rule rtranclp_trans)
  have c4: "cw_pc w4 i = PcAdmin ?ifs sh sw" "phase_of (cw_ad w4) i = Idle" "cw_clk w4 \<le> fst (av_ad e)" "coll (cw_ad w4) = coll (cw_ad w)"
    using ph le h4(1) by (simp_all add: w4_def w3_def w2_def w1_def)
  obtain t5 h5 where h5: "t5 \<le> ae_now (snd (av_ad e))" "coll h5 = ad'" "phase_of h5 = phase_of (cw_ad w4)"
    "?S w4 (w4\<lparr>cw_clk := t5, cw_ad := h5, cw_pc := (cw_pc w4)(i := PcSystem ?ifs sh sw sa)\<rparr>)"
    by (rule admin_call [OF c4(1-3) le(9,10), of uni oor cfg started]) (simp_all add: ad c4(4))
  define w5 where "w5 = w4\<lparr>cw_clk := t5, cw_ad := h5, cw_pc := (cw_pc w4)(i := PcSystem ?ifs sh sw sa)\<rparr>"
  have 5: "?S w w5" using 4 h5(4) unfolding w5_def by (rule rtranclp_trans)
  have f5: "cw_pc w5 = (cw_pc w)(i := PcSystem ?ifs sh sw sa)" "cw_req w5 i = (rq, e)" "cw_clk w5 \<le> av_since e"
    "cw_sy w5 = cw_sy w" "server_of cfg started w5 =
      api_New cfg started (Some (rn_coll (cw_ns w))) (Some hs') (Some wn') (Some ad') (Some (rn_coll (cw_sy w)))"
    "cw_req w5 = (cw_req w)(i := (rq, e))"
    using h3(2) h4(2) h5(1,2) le(11) by (simp_all add: w5_def w4_def w3_def w2_def w1_def server_of_def)
  define p where "p = \<lparr>st_Timestamp = unix_seconds (av_now e), st_Interfaces = ?ifs, st_Hotspot = hotspot_shown e cfg sh,
      st_WAN = wan_shown e sw, st_Admin = admin_shown e sa, st_System = system_shown e (rn_coll (cw_sy w)),
      st_Meta = request_meta e rq started\<rparr>"
  have "\<exists>effs. stats_of e rq (server_of cfg started w) = (server_of cfg started w5, p, effs)"
    unfolding f5(5) p_def unfolding server_of_def
    by (rule stats_of_shown) (simp_all only: e hs wn ad)
  then have st: "fst (snd (stats_of e rq (server_of cfg started w))) = p"
    "fst (stats_of e rq (server_of cfg started w)) = server_of cfg started w5"
    by auto
  define w6 where "w6 = w5\<lparr>cw_clk := av_since e, cw_pc := (cw_pc w5)(i := PcDone sh sw sa p)\<rparr>"
  have "stats_step uni oor cfg started w5 w6"
    unfolding w6_def p_def f5(4) [symmetric]
    by (rule stats_step.answer) (simp_all only: f5 fun_upd_same)
  with 5 have "?S w w6" by (rule rtranclp.rtrancl_into_rtrancl)
  moreover have "cw_pc w6 = (cw_pc w)(i := PcDone sh sw sa p)" by (simp add: w6_def f5(1))
  moreover have "server_of cfg started w6 = server_of cfg started w5" by (simp add: w6_def server_of_def)
  moreover have "cw_req w6 = (cw_req w)(i := (rq, e))" by (simp add: w6_def f5(6))
  ultimately show ?thesis using that st by simp
qed

section \<open>Properties\<close>

text \<open>A request that arrives one second after the start, when every cache is stale.\<close>

definition alone_env :: api_env where
  "alone_env = api_sample_env\<lparr>av_now := second, av_since := second, av_hs := (second, hs_sample_env second),
     av_wn := (second, wn_sample_env second), av_ad := (second, ad_sample_env second)\<rparr>"

abbreviation alone_start :: stats_world where
  "alone_start \<equiv> stats_start main_sample_config (\<lambda>_. (main_sample_request, alone_env)) 0"

lemma alone_env_facts:
  "av_uni alone_env = id" "av_oor alone_env = (\<lambda>x. 0)" "in_order (cw_clk alone_start) alone_env" "oor_ok (\<lambda>x. 0)"
  "phase_of (cw_hs alone_start) i = Idle \<and> phase_of (cw_wn alone_start) i = Idle \<and> phase_of (cw_ad alone_start) i = Idle"
  "cw_pc alone_start i = PcIdle"
  by (simp_all add: alone_env_def api_sample_env_def in_order_def hs_sample_env_def wn_sample_env_def ad_sample_env_def
      second_def stats_start_def start_world_def oor_ok_def)

lemma alone_done:
  obtains w hs wn ad p where "(stats_step id (\<lambda>x. 0) main_sample_config 0)\<^sup>*\<^sup>* alone_start w"
    "cw_pc w 0 = PcDone hs wn ad p"
proof -
  obtain w hs wn ad where "(stats_step id (\<lambda>x. 0) main_sample_config 0)\<^sup>*\<^sup>* alone_start w"
    "cw_pc w = (cw_pc alone_start)(0 := PcDone hs wn ad (fst (snd (stats_of alone_env main_sample_request
        (server_of main_sample_config 0 alone_start)))))"
    by (rule request_alone [where rq = main_sample_request and cfg = main_sample_config and started = 0,
          OF alone_env_facts(6) alone_env_facts(5) alone_env_facts(1-3)])
  then show ?thesis using that [of w hs wn ad] by simp
qed

text \<open>
  C12: however requests for \<open>/api/stats\<close>, refreshes and ticks interleave, each of the five
  sections of a payload shows what its collector published at one moment after the request
  arrived, these moments being in the order of the sections; and the snapshots of the three
  lazy collectors were taken less than one second before the arrival, or later.
\<close>

theorem stats_requests_fresh:
  assumes "(stats_step uni oor cfg started)\<^sup>*\<^sup>* (stats_start cfg rqs t) w" and "0 \<le> t"
    and "cw_pc w i = PcDone hs wn ad p" and "cw_req w i = (rq, e)"
  shows "passing (stats_step uni oor cfg started)
      [\<lambda>v. av_now e \<le> cw_clk v \<and> interfaces_shown (rn_coll (cw_ns v)) = st_Interfaces p,
       \<lambda>v. hs_snap (coll (cw_hs v)) = hs, \<lambda>v. wn_snap (coll (cw_wn v)) = wn, \<lambda>v. ad_snap (coll (cw_ad v)) = ad,
       \<lambda>v. system_shown e (rn_coll (cw_sy v)) = st_System p] (stats_start cfg rqs t) w \<and>
    st_Hotspot p = hotspot_shown e cfg hs \<and> av_now e - hs_At hs < second \<and>
    st_WAN p = wan_shown e wn \<and> av_now e - wn_At wn < second \<and>
    st_Admin p = admin_shown e ad \<and> av_now e - ad_At ad < second"
proof -
  have "pc_ok oor cfg e (PcDone hs wn ad p)"
    using stats_invD(6) [OF stats_reach_inv [OF assms(1,2)] assms(3)] assms(4) by simp
  moreover have "passing (stats_step uni oor cfg started)
      [publishes_ifs (av_now e) (st_Interfaces p), publishes_hs hs, publishes_wn wn, publishes_ad ad,
       publishes_sy e (st_System p)] (stats_start cfg rqs t) w"
    using stats_reach_story [OF assms(1,2), of i] assms(3,4) by (simp del: passing.simps)
  ultimately show ?thesis
    by (simp add: done_ok_def hs_got_def wn_got_def ad_got_def publishes_ifs_def publishes_hs_def publishes_wn_def
        publishes_ad_def publishes_sy_def)
qed

lemma stats_requests_fresh_witness:
  "\<exists>w v hs wn ad p. (stats_step id (\<lambda>x. 0) main_sample_config 0)\<^sup>*\<^sup>* alone_start w \<and> cw_pc w 0 = PcDone hs wn ad p \<and>
     (stats_step id (\<lambda>x. 0) main_sample_config 0)\<^sup>*\<^sup>* alone_start v \<and>
     interfaces_shown (rn_coll (cw_ns v)) = st_Interfaces p \<and> av_now (snd (cw_req w 0)) - hs_At hs < second"
proof -
  obtain w hs wn ad p where w: "(stats_step id (\<lambda>x. 0) main_sample_config 0)\<^sup>*\<^sup>* alone_start w"
    "cw_pc w 0 = PcDone hs wn ad p"
    by (rule alone_done)
  obtain rq e where r: "cw_req w 0 = (rq, e)" by fastforce
  note f = stats_requests_fresh [OF w(1) order_refl w(2) r]
  obtain v where "(stats_step id (\<lambda>x. 0) main_sample_config 0)\<^sup>*\<^sup>* alone_start v"
    "interfaces_shown (rn_coll (cw_ns v)) = st_Interfaces p"
    using conjunct1 [OF f] by auto
  with w r conjunct1 [OF conjunct2 [OF conjunct2 [OF f]]] show ?thesis by (metis snd_conv)
qed

text \<open>
  C11: the payload of an interleaved request has what that of one in a single step has: an entry
  for exactly the configured interfaces, the count of the shown clients, a WAN section that is
  blank unless connected and present, and Go integers that fit in 64 bits.
\<close>

theorem stats_requests_typed:
  assumes "(stats_step uni oor cfg started)\<^sup>*\<^sup>* (stats_start cfg rqs t) w" and "0 \<le> t" and "oor_ok oor"
    and "cw_pc w i = PcDone hs wn ad p"
  shows "payload_typed cfg p \<and> payload_sections cfg p"
proof -
  have "pc_ok oor cfg (snd (cw_req w i)) (PcDone hs wn ad p)"
    using stats_invD(6) [OF stats_reach_inv [OF assms(1,2)] assms(4)] .
  then show ?thesis
    using assms(3) f64_to_int_int64 [of oor]
    by (auto simp: done_ok_def hs_got_def wn_got_def ad_got_def wn_shown_ok_def payload_typed_def payload_sections_def
        hotspot_shown_def wan_shown_def admin_shown_def clients_typed_def api_client_def oor_ok_def)
qed

lemma stats_requests_typed_witness:
  "\<exists>w hs wn ad p. (stats_step id (\<lambda>x. 0) main_sample_config 0)\<^sup>*\<^sup>* alone_start w \<and> cw_pc w 0 = PcDone hs wn ad p \<and>
     payload_sections main_sample_config p"
proof -
  obtain w hs wn ad p where w: "(stats_step id (\<lambda>x. 0) main_sample_config 0)\<^sup>*\<^sup>* alone_start w"
    "cw_pc w 0 = PcDone hs wn ad p"
    by (rule alone_done)
  with stats_requests_typed [OF w(1) order_refl alone_env_facts(4) w(2)] show ?thesis by blast
qed

text \<open>
  C13: in every reachable state, a request that meets no other goes through these steps to the
  payload and the collectors of the handler in one step.
\<close>

theorem stats_request_alone:
  assumes "(stats_step uni oor cfg started)\<^sup>*\<^sup>* (stats_start cfg rqs t) w" and "0 \<le> t"
    and "cw_pc w i = PcIdle" and "av_uni e = uni" and "av_oor e = oor" and "in_order (cw_clk w) e"
    and "stats_of e rq (server_of cfg started w) = (s', p, effs)"
  shows "\<exists>w' hs wn ad. (stats_step uni oor cfg started)\<^sup>*\<^sup>* w w' \<and> cw_pc w' = (cw_pc w)(i := PcDone hs wn ad p) \<and>
    server_of cfg started w' = s'"
proof -
  have "phase_of (cw_hs w) i = Idle \<and> phase_of (cw_wn w) i = Idle \<and> phase_of (cw_ad w) i = Idle"
    using idle_phases [OF stats_reach_inv [OF assms(1,2)] assms(3)] .
  then show ?thesis
    by (rule request_alone [where rq = rq and cfg = cfg and started = started, OF assms(3) _ assms(4-6)])
       (use assms(7) in auto)
qed

lemma stats_request_alone_witness:
  "\<exists>w p s' effs. stats_of alone_env main_sample_request (server_of main_sample_config 0 alone_start) = (s', p, effs) \<and>
     (stats_step id (\<lambda>x. 0) main_sample_config 0)\<^sup>*\<^sup>* alone_start w \<and> server_of main_sample_config 0 w = s'"
proof -
  obtain s' p effs where "stats_of alone_env main_sample_request (server_of main_sample_config 0 alone_start) = (s', p, effs)"
    by (metis prod.exhaust)
  with stats_request_alone [OF rtranclp.rtrancl_refl order_refl alone_env_facts(6) alone_env_facts(1-3) this]
  show ?thesis by blast
qed

end
