(* ===== verification/Process.thy ===== *)
theory Process
  imports Main_App
begin

text \<open>
  The life of the process that \<open>main\<close> of \<open>cmd/pispot-ui/main.go\<close> runs: the checks
  at startup, the goroutine that listens, the wait for a signal, the graceful shutdown and
  the exit status, as steps between which the clock and connections move. Facts: what an
  exit status means, that nothing is accepted once the shutdown began, and that a shutdown
  always ends.
\<close>

section \<open>Model\<close>

text \<open>
  The listening goroutine: not started, in \<open>ListenAndServe\<close>, or returned with
  \<open>http.ErrServerClosed\<close>. The main goroutine: waiting for the signal's context, in
  \<open>Shutdown\<close> with the deadline of its context, or gone with an exit status.
\<close>

datatype listener = LNotStarted | LListening | LClosed

datatype main_phase = Waiting | Draining time | Exited int

type_synonym log_line = "string \<times> string list"

record process =
  ps_main :: main_phase
  ps_listener :: listener
  ps_signalled :: bool
  ps_conns :: nat
  ps_clk :: time
  ps_log :: "log_line list"
  ps_drained :: bool
  ps_next :: time
  ps_base :: duration

definition shutdown_grace :: duration where
  "shutdown_grace = 5 * second"

text \<open>
  \<open>Shutdown\<close> checks at once whether a connection is left that is not idle, and then when its
  timer fires: after a millisecond, twice as long each time up to half a second, and up to a
  tenth more at random. \<open>ps_drained\<close> is the result of the last check, \<open>ps_next\<close> the
  instant at which the timer fires, and \<open>ps_base\<close> the next pause.
\<close>

definition poll_min :: duration where
  "poll_min = 1000000"

definition poll_max :: duration where
  "poll_max = 500000000"

definition shutdown_check :: "duration \<Rightarrow> process \<Rightarrow> process" where
  "shutdown_check jitter p =
     p\<lparr>ps_drained := (ps_conns p = 0), ps_next := ps_clk p + ps_base p + jitter,
       ps_base := min (2 * ps_base p) poll_max\<rparr>"

text \<open>What the listening goroutine logs before it listens; the last line depends on the authentication.\<close>

definition listen_log :: "(string \<Rightarrow> string) \<Rightarrow> build_info \<Rightarrow> config \<Rightarrow> bool \<Rightarrow> log_line list" where
  "listen_log quote b cfg tls =
     [(''pispot-ui %s (%s) listening on %s://%s (hotspot=%s wan=%s admin=%s)'',
       [Commit b, BuildTime b, if tls then ''https'' else ''http'', ListenAddr cfg, HotspotIf cfg, WANIf cfg, AdminIf cfg]),
      (''tls: enabled=%v cert=%s'', [bool_text tls, TLSCertFile cfg]),
      (if AuthSocket cfg \<noteq> [] then (''auth: socket=%s realm=%q'', [AuthSocket cfg, quote (AuthRealm cfg)])
       else (''auth: disabled (AUTH_SOCKET not set)'', []))]"

definition process_start :: "config \<Rightarrow> time \<Rightarrow> process" where
  "process_start cfg t =
     (let p = \<lparr>ps_main = Waiting, ps_listener = LNotStarted, ps_signalled = False, ps_conns = 0, ps_clk = t,
        ps_log = [], ps_drained = False, ps_next = t, ps_base = poll_min\<rparr> in
      case main_startup cfg of
        Inl msg \<Rightarrow> p\<lparr>ps_main := Exited 1, ps_log := [(msg, [])]\<rparr>
      | Inr tls \<Rightarrow> p)"

text \<open>
  Listening can fail even when the shutdown begins between the server's own check for it and
  the system call. Connections that are not idle count; \<open>Shutdown\<close> closes the listener at
  once, returns when a check finds none left, and gives up at its deadline. Its \<open>select\<close>
  takes the timer or the deadline, either of them when both are due: \<open>wait\<close> lets time pass
  to before the timer fires or to the deadline, \<open>poll\<close> to a check, on time or late. A second
  signal finds its handler registered still and changes nothing.
\<close>

inductive proc_step :: "(string \<Rightarrow> string) \<Rightarrow> build_info \<Rightarrow> config \<Rightarrow> bool \<Rightarrow> process \<Rightarrow> process \<Rightarrow> bool"
  for quote b cfg tls where
  listen: "ps_listener p = LNotStarted \<Longrightarrow> \<nexists>c. ps_main p = Exited c \<Longrightarrow>
     proc_step quote b cfg tls p (p\<lparr>ps_listener := (if ps_main p = Waiting then LListening else LClosed),
       ps_log := ps_log p @ listen_log quote b cfg tls\<rparr>)"
| bind_failed: "ps_listener p = LNotStarted \<Longrightarrow> \<nexists>c. ps_main p = Exited c \<Longrightarrow>
     proc_step quote b cfg tls p (p\<lparr>ps_main := Exited 1,
       ps_log := ps_log p @ listen_log quote b cfg tls @ [(''listen: %v'', [err_text quote err])]\<rparr>)"
| accept_failed: "ps_listener p = LListening \<Longrightarrow> ps_main p = Waiting \<Longrightarrow>
     proc_step quote b cfg tls p (p\<lparr>ps_main := Exited 1, ps_log := ps_log p @ [(''listen: %v'', [err_text quote err])]\<rparr>)"
| open_conn: "ps_listener p = LListening \<Longrightarrow> ps_main p = Waiting \<Longrightarrow>
     proc_step quote b cfg tls p (p\<lparr>ps_conns := Suc (ps_conns p)\<rparr>)"
| idle_conn: "ps_conns p = Suc n \<Longrightarrow> \<nexists>c. ps_main p = Exited c \<Longrightarrow>
     proc_step quote b cfg tls p (p\<lparr>ps_conns := n\<rparr>)"
| pass: "ps_clk p < t \<Longrightarrow> ps_main p = Waiting \<Longrightarrow> proc_step quote b cfg tls p (p\<lparr>ps_clk := t\<rparr>)"
| wait: "ps_clk p < t \<Longrightarrow> ps_main p = Draining d \<Longrightarrow> ps_clk p < d \<Longrightarrow> \<not> ps_drained p \<Longrightarrow> t < ps_next p \<or> d \<le> t \<Longrightarrow>
     proc_step quote b cfg tls p (p\<lparr>ps_clk := t\<rparr>)"
| poll: "ps_clk p < t \<Longrightarrow> ps_main p = Draining d \<Longrightarrow> ps_clk p < d \<Longrightarrow> \<not> ps_drained p \<Longrightarrow> ps_next p \<le> t \<Longrightarrow>
     0 \<le> jitter \<Longrightarrow> jitter < ps_base p div 10 \<Longrightarrow>
     proc_step quote b cfg tls p (shutdown_check jitter (p\<lparr>ps_clk := t\<rparr>))"
| signal: "\<not> ps_signalled p \<Longrightarrow> \<nexists>c. ps_main p = Exited c \<Longrightarrow>
     proc_step quote b cfg tls p (p\<lparr>ps_signalled := True\<rparr>)"
| shutdown: "ps_main p = Waiting \<Longrightarrow> ps_signalled p \<Longrightarrow> 0 \<le> jitter \<Longrightarrow> jitter < poll_min div 10 \<Longrightarrow>
     proc_step quote b cfg tls p (shutdown_check jitter (p\<lparr>ps_main := Draining (time_add (ps_clk p) shutdown_grace),
       ps_listener := (if ps_listener p = LListening then LClosed else ps_listener p),
       ps_log := ps_log p @ [(''shutting down'', [])], ps_base := poll_min\<rparr>))"
| drained: "ps_main p = Draining d \<Longrightarrow> ps_drained p \<Longrightarrow>
     proc_step quote b cfg tls p (p\<lparr>ps_main := Exited 0\<rparr>)"
| gave_up: "ps_main p = Draining d \<Longrightarrow> d \<le> ps_clk p \<Longrightarrow> \<not> ps_drained p \<Longrightarrow>
     proc_step quote b cfg tls p (p\<lparr>ps_main := Exited 1,
       ps_log := ps_log p @ [(''shutdown error: %v'', [''context deadline exceeded''])]\<rparr>)"

section \<open>Facts\<close>

lemma shutdown_check_simps [simp]:
  "ps_main (shutdown_check j p) = ps_main p" "ps_listener (shutdown_check j p) = ps_listener p"
  "ps_signalled (shutdown_check j p) = ps_signalled p" "ps_conns (shutdown_check j p) = ps_conns p"
  "ps_clk (shutdown_check j p) = ps_clk p" "ps_log (shutdown_check j p) = ps_log p"
  "ps_drained (shutdown_check j p) \<longleftrightarrow> ps_conns p = 0"
  "ps_next (shutdown_check j p) = ps_clk p + ps_base p + j"
  "ps_base (shutdown_check j p) = min (2 * ps_base p) poll_max"
  by (simp_all add: shutdown_check_def)

lemma exited_stops: "ps_main p = Exited c \<Longrightarrow> \<not> proc_step quote b cfg tls p p'"
  by (auto elim: proc_step.cases)

text \<open>While a shutdown goes on: what every step keeps, and what it uses up.\<close>

definition draining_left :: "process \<Rightarrow> nat" where
  "draining_left p =
     (case ps_main p of
        Exited c \<Rightarrow> 0
      | Waiting \<Rightarrow> 0
      | Draining d \<Rightarrow> Suc (ps_conns p + nat (d - ps_clk p) + (if ps_signalled p then 0 else 1) +
          (if ps_listener p = LNotStarted then 1 else 0)))"

definition ending :: "process \<Rightarrow> bool" where
  "ending p \<longleftrightarrow> ps_main p \<noteq> Waiting"

lemma draining_step:
  assumes "proc_step quote b cfg tls p p'" and "ending p"
  shows "ending p' \<and> draining_left p' < draining_left p"
  using assms
  by (induction rule: proc_step.induct)
    (auto simp: ending_def draining_left_def split: main_phase.splits)

lemma draining_runs:
  assumes "(proc_step quote b cfg tls ^^ n) p p'" and "ending p"
  shows "ending p' \<and> n + draining_left p' \<le> draining_left p"
  using assms(1)
proof (induction n arbitrary: p')
  case (Suc n)
  then obtain q where q: "(proc_step quote b cfg tls ^^ n) p q" "proc_step quote b cfg tls q p'" by auto
  show ?case using Suc.IH [OF q(1)] draining_step [OF q(2)] by auto
qed (use assms(2) in simp)

lemma draining_progress:
  assumes "ps_main p = Draining d"
  shows "\<exists>p'. proc_step quote b cfg tls p p'"
proof -
  consider "ps_drained p" | "\<not> ps_drained p" "ps_clk p < d" | "\<not> ps_drained p" "d \<le> ps_clk p" by linarith
  then show ?thesis
  proof cases
    case 1
    with assms show ?thesis by (blast intro: proc_step.drained)
  next
    case 2
    with assms have "proc_step quote b cfg tls p (p\<lparr>ps_clk := d\<rparr>)" by (intro proc_step.wait [where d = d]) auto
    then show ?thesis by blast
  next
    case 3
    with assms show ?thesis by (blast intro: proc_step.gave_up)
  qed
qed

lemma ending_conns:
  assumes "(proc_step quote b cfg tls)\<^sup>*\<^sup>* p p'" and "ending p"
  shows "ending p' \<and> ps_conns p' \<le> ps_conns p"
  using assms(1)
proof (induction rule: rtranclp_induct)
  case (step q p')
  have "ps_conns p' \<le> ps_conns q" if "ending q"
    using step(2) that by (induction rule: proc_step.induct) (auto simp: ending_def)
  then show ?case using step(3) draining_step [OF step(2)] by auto
qed (use assms(2) in simp)

text \<open>The invariant of the process, by what it says of each phase of \<open>main\<close>.\<close>

definition proc_inv :: "process \<Rightarrow> bool" where
  "proc_inv p \<longleftrightarrow>
     (case ps_main p of
        Waiting \<Rightarrow> True
      | Draining d \<Rightarrow> ps_signalled p \<and> ps_listener p \<noteq> LListening \<and> (ps_drained p \<longrightarrow> ps_conns p = 0)
      | Exited c \<Rightarrow>
          if c = 0 then ps_signalled p \<and> ps_conns p = 0
          else c = 1 \<and> ps_log p \<noteq> [] \<and> fst (last (ps_log p)) \<in> {''listen: %v'', ''shutdown error: %v''})"

lemma proc_step_inv:
  assumes "proc_step quote b cfg tls p p'" and "proc_inv p"
  shows "proc_inv p'"
  using assms
  by (induction rule: proc_step.induct) (auto simp: proc_inv_def split: main_phase.splits)

lemma proc_reach_inv: "(proc_step quote b cfg tls)\<^sup>*\<^sup>* p p' \<Longrightarrow> proc_inv p \<Longrightarrow> proc_inv p'"
  by (induction rule: rtranclp_induct) (auto intro: proc_step_inv)

lemma process_start_inv: "main_startup cfg = Inr tls \<Longrightarrow> proc_inv (process_start cfg t)"
  by (simp add: process_start_def proc_inv_def)

section \<open>Properties\<close>

text \<open>
  C21: a shutdown always ends, whatever connections do: once it began, the process takes at
  most so many steps more as there are connections and nanoseconds of grace left (and two),
  accepts no connection, and can only stop by exiting with status 0 or 1.
\<close>

theorem process_shutdown_ends:
  assumes "main_startup cfg = Inr tls" and "(proc_step quote b cfg tls)\<^sup>*\<^sup>* (process_start cfg t) p"
    and "ps_main p = Draining d"
  shows "((proc_step quote b cfg tls ^^ n) p p' \<longrightarrow>
      n \<le> ps_conns p + nat (d - ps_clk p) + 2 \<and> ps_conns p' \<le> ps_conns p) \<and>
    ((proc_step quote b cfg tls)\<^sup>*\<^sup>* p p' \<and> (\<nexists>p''. proc_step quote b cfg tls p' p'') \<longrightarrow>
      ps_main p' \<in> {Exited 0, Exited 1})"
proof -
  have e: "ending p" using assms(3) by (simp add: ending_def)
  have inv: "proc_inv p" using proc_reach_inv [OF assms(2) process_start_inv [OF assms(1)]] .
  then have sig: "ps_signalled p" using assms(3) by (simp add: proc_inv_def)
  have "n \<le> ps_conns p + nat (d - ps_clk p) + 2 \<and> ps_conns p' \<le> ps_conns p"
    if "(proc_step quote b cfg tls ^^ n) p p'"
    using draining_runs [OF that e] ending_conns [OF relpowp_imp_rtranclp [OF that] e] assms(3) sig
    by (auto simp: draining_left_def split: if_splits)
  moreover have "ps_main p' \<in> {Exited 0, Exited 1}"
    if run: "(proc_step quote b cfg tls)\<^sup>*\<^sup>* p p'" and stop: "\<nexists>p''. proc_step quote b cfg tls p' p''"
  proof (cases "ps_main p'")
    case Waiting
    then show ?thesis using ending_conns [OF run e] by (simp add: ending_def)
  next
    case (Draining d')
    then show ?thesis using draining_progress stop by blast
  next
    case (Exited c)
    then show ?thesis using proc_reach_inv [OF run inv] by (auto simp: proc_inv_def split: if_splits)
  qed
  ultimately show ?thesis by blast
qed

definition process_sample_config :: config where
  "process_sample_config = Load id Map.empty"

lemma process_sample_startup: "main_startup process_sample_config = Inr False"
  by (simp add: process_sample_config_def main_startup_def Load_def getenv_def getenvBool_def)

text \<open>A run of the sample: it listens, a connection opens, a signal arrives, the shutdown begins.\<close>

lemma process_sample_run:
  "\<exists>p :: process. (proc_step id default_build_info process_sample_config False)\<^sup>*\<^sup>* (process_start process_sample_config 0) p \<and>
     ps_main p = Draining (5 * second) \<and> ps_conns p = 1 \<and> ps_clk p = 0 \<and> ps_signalled p \<and> \<not> ps_drained p"
proof -
  let ?step = "proc_step id default_build_info process_sample_config False"
  let ?log = "listen_log id default_build_info process_sample_config False"
  let ?p0 = "process_start process_sample_config 0"
  let ?p1 = "?p0\<lparr>ps_listener := LListening, ps_log := ps_log ?p0 @ ?log\<rparr>"
  let ?p2 = "?p1\<lparr>ps_conns := 1\<rparr>"
  let ?p3 = "?p2\<lparr>ps_signalled := True\<rparr>"
  let ?p4 = "shutdown_check 0 (?p3\<lparr>ps_main := Draining (time_add 0 shutdown_grace), ps_listener := LClosed,
    ps_log := ps_log ?p3 @ [(''shutting down'', [])], ps_base := poll_min\<rparr>)"
  have p0: "ps_main ?p0 = Waiting" "ps_listener ?p0 = LNotStarted" "ps_conns ?p0 = 0" "ps_clk ?p0 = 0"
    "\<not> ps_signalled ?p0"
    by (simp_all add: process_start_def process_sample_startup)
  have "?step ?p0 ?p1" using proc_step.listen [of ?p0 id default_build_info process_sample_config False] p0 by simp
  moreover have "?step ?p1 ?p2" using proc_step.open_conn [of ?p1] p0 by simp
  moreover have "?step ?p2 ?p3" using proc_step.signal [of ?p2] p0 by simp
  moreover have "?step ?p3 ?p4" using proc_step.shutdown [of ?p3 0] p0 by (simp add: poll_min_def)
  ultimately have "?step\<^sup>*\<^sup>* ?p0 ?p4"
    by (meson converse_rtranclp_into_rtranclp rtranclp.rtrancl_refl)
  then show ?thesis using p0 by (intro exI [of _ ?p4]) (simp add: time_add_def shutdown_grace_def)
qed

lemma process_shutdown_ends_witness:
  "\<exists>p :: process. ps_main p = Draining (5 * second) \<and> ps_conns p = 1 \<and>
     (\<forall>n p'. (proc_step id default_build_info process_sample_config False ^^ n) p p' \<longrightarrow> n \<le> 5000000003)"
proof -
  obtain p where p: "(proc_step id default_build_info process_sample_config False)\<^sup>*\<^sup>* (process_start process_sample_config 0) p"
    "ps_main p = Draining (5 * second)" "ps_conns p = 1" "ps_clk p = 0"
    using process_sample_run by blast
  have "n \<le> 5000000003" if "(proc_step id default_build_info process_sample_config False ^^ n) p p'" for n p'
    using process_shutdown_ends [OF process_sample_startup p(1,2), of n p'] that p(3,4) by (simp add: second_def)
  then show ?thesis using p by blast
qed



end
