(* ===== verification/Timed_Cache.thy ===== *)
theory Timed_Cache
  imports Lazy_Cache
begin

text \<open>
  The lazily refreshed collectors with the mutex and the time that a refresh takes: a
  refresh holds the mutex from its re-check until it has published, so that every other
  call waits where it locks, and only loads go on. Facts: this model refines the one of
  \<open>Lazy_Cache\<close>, where a refresh is one step; the mutex is held for a bounded time; and
  what happens to calls that wait for a refresh that takes longer than the TTL.
\<close>

section \<open>Steps with a held mutex\<close>

text \<open>
  As \<open>phase\<close> of \<open>Lazy_Cache\<close>, with the phase in which the call holds the mutex and
  refreshes; it remembers the instant of its check and what its refresh meets.
\<close>

datatype ('e, 's) timed_phase = TIdle | TStale time | TRefreshing time 'e | TReady time | TDone time 's

record ('c, 'e, 's) timed_world =
  tw_coll :: 'c
  tw_phase :: "nat \<Rightarrow> ('e, 's) timed_phase"
  tw_lock :: "nat option"
  tw_clk :: time
  tw_refreshed :: "time list"

definition timed_start :: "'c \<Rightarrow> time \<Rightarrow> ('c, 'e, 's) timed_world" where
  "timed_start c t = \<lparr>tw_coll = c, tw_phase = (\<lambda>_. TIdle), tw_lock = None, tw_clk = t, tw_refreshed = []\<rparr>"

text \<open>
  The argument \<open>finish\<close> is the instant at which a refresh that meets \<open>e\<close> has published;
  time does not pass it before it has.
\<close>

inductive timed_step ::
  "('c \<Rightarrow> time) \<Rightarrow> ('c \<Rightarrow> duration) \<Rightarrow> ('c \<Rightarrow> 's) \<Rightarrow> ('e \<Rightarrow> 'c \<Rightarrow> 'c \<times> 'o list) \<Rightarrow>
   ('e \<Rightarrow> time) \<Rightarrow> ('e \<Rightarrow> time) \<Rightarrow> ('e \<Rightarrow> 'c \<Rightarrow> time) \<Rightarrow>
   ('c, 'e, 's) timed_world \<Rightarrow> ('c, 'e, 's) timed_world \<Rightarrow> bool"
  for lastAt ttl load refresh recheck now finish where
  again: "tw_phase w i = TDone t s \<Longrightarrow>
     timed_step lastAt ttl load refresh recheck now finish w (w\<lparr>tw_phase := (tw_phase w)(i := TIdle)\<rparr>)"
| check: "tw_phase w i = TIdle \<Longrightarrow> tw_lock w = None \<Longrightarrow>
     timed_step lastAt ttl load refresh recheck now finish w
       (w\<lparr>tw_phase := (tw_phase w)(i :=
          if ttl (tw_coll w) \<le> time_sub (tw_clk w) (lastAt (tw_coll w)) then TStale (tw_clk w) else TReady (tw_clk w))\<rparr>)"
| fresh: "tw_phase w i = TStale t \<Longrightarrow> tw_lock w = None \<Longrightarrow> recheck e = tw_clk w \<Longrightarrow>
     time_sub (recheck e) (lastAt (tw_coll w)) < ttl (tw_coll w) \<Longrightarrow>
     timed_step lastAt ttl load refresh recheck now finish w
       (w\<lparr>tw_coll := fst (refresh e (tw_coll w)), tw_phase := (tw_phase w)(i := TReady t)\<rparr>)"
| lock: "tw_phase w i = TStale t \<Longrightarrow> tw_lock w = None \<Longrightarrow> recheck e = tw_clk w \<Longrightarrow> recheck e \<le> now e \<Longrightarrow>
     \<not> time_sub (recheck e) (lastAt (tw_coll w)) < ttl (tw_coll w) \<Longrightarrow>
     timed_step lastAt ttl load refresh recheck now finish w
       (w\<lparr>tw_clk := now e, tw_lock := Some i, tw_phase := (tw_phase w)(i := TRefreshing t e)\<rparr>)"
| publish: "tw_phase w i = TRefreshing t e \<Longrightarrow> tw_clk w = finish e (tw_coll w) \<Longrightarrow>
     timed_step lastAt ttl load refresh recheck now finish w
       (w\<lparr>tw_coll := fst (refresh e (tw_coll w)), tw_lock := None, tw_refreshed := now e # tw_refreshed w,
          tw_phase := (tw_phase w)(i := TReady t)\<rparr>)"
| load: "tw_phase w i = TReady t \<Longrightarrow>
     timed_step lastAt ttl load refresh recheck now finish w
       (w\<lparr>tw_phase := (tw_phase w)(i := TDone t (load (tw_coll w)))\<rparr>)"
| pass: "tw_clk w < t \<Longrightarrow> (\<And>i u e. tw_phase w i = TRefreshing u e \<Longrightarrow> t \<le> finish e (tw_coll w)) \<Longrightarrow>
     timed_step lastAt ttl load refresh recheck now finish w (w\<lparr>tw_clk := t\<rparr>)"

text \<open>A call that refreshes has, for the atomic model, found the cache stale.\<close>

fun atomic_phase :: "('e, 's) timed_phase \<Rightarrow> 's phase" where
  "atomic_phase TIdle = Idle"
| "atomic_phase (TStale t) = Stale t"
| "atomic_phase (TRefreshing t e) = Stale t"
| "atomic_phase (TReady t) = Ready t"
| "atomic_phase (TDone t s) = Done t s"

text \<open>The atomic world of a timed one, up to its clock, which only its own steps move.\<close>

definition atomic_world :: "time \<Rightarrow> ('c, 'e, 's) timed_world \<Rightarrow> ('c, 's) world" where
  "atomic_world t w =
     \<lparr>coll = tw_coll w, phase_of = atomic_phase \<circ> tw_phase w, clk = t, refreshed = tw_refreshed w\<rparr>"

lemma atomic_world_simps [simp]:
  "coll (atomic_world t w) = tw_coll w" "clk (atomic_world t w) = t"
  "refreshed (atomic_world t w) = tw_refreshed w"
  "phase_of (atomic_world t w) i = atomic_phase (tw_phase w i)"
  by (simp_all add: atomic_world_def)

section \<open>The contract, with the time that a refresh takes\<close>

locale timed_collector = lazy_collector lastAt ttl load at refresh recheck now
  for lastAt :: "'c \<Rightarrow> time"
    and ttl :: "'c \<Rightarrow> duration"
    and load :: "'c \<Rightarrow> 's"
    and at :: "'s \<Rightarrow> time"
    and refresh :: "'e \<Rightarrow> 'c \<Rightarrow> 'c \<times> 'o list"
    and recheck :: "'e \<Rightarrow> time"
    and now :: "'e \<Rightarrow> time" +
  fixes finish :: "'e \<Rightarrow> 'c \<Rightarrow> time"
    and limit :: duration
  assumes finish_after: "now e \<le> finish e c"
    and finish_within: "finish e c \<le> now e + limit"
begin

abbreviation timed :: "('c, 'e, 's) timed_world \<Rightarrow> ('c, 'e, 's) timed_world \<Rightarrow> bool" where
  "timed \<equiv> timed_step lastAt ttl load refresh recheck now finish"

text \<open>
  The invariant of the mutex: who refreshes holds it, began when the cache was stale, and is
  not late; \<open>ta\<close> is the atomic world's clock.
\<close>

definition lock_inv :: "time \<Rightarrow> ('c, 'e, 's) timed_world \<Rightarrow> bool" where
  "lock_inv ta w \<longleftrightarrow> ta \<le> tw_clk w \<and>
     (\<forall>i t e. tw_phase w i = TRefreshing t e \<longrightarrow>
        tw_lock w = Some i \<and> ta \<le> recheck e \<and> recheck e \<le> now e \<and> now e \<le> tw_clk w \<and>
        tw_clk w \<le> finish e (tw_coll w) \<and>
        \<not> time_sub (recheck e) (lastAt (tw_coll w)) < ttl (tw_coll w))"

lemma lock_invD:
  assumes "lock_inv ta w" and "tw_phase w i = TRefreshing t e"
  shows "tw_lock w = Some i" "ta \<le> recheck e" "recheck e \<le> now e" "now e \<le> tw_clk w"
    "tw_clk w \<le> finish e (tw_coll w)" "\<not> time_sub (recheck e) (lastAt (tw_coll w)) < ttl (tw_coll w)"
  using assms unfolding lock_inv_def by blast+

lemma lock_inv_start: "lock_inv t (timed_start c t)"
  by (simp add: lock_inv_def timed_start_def)

text \<open>Every timed step is an atomic one or none, and keeps the mutex's invariant.\<close>

lemma timed_simulates:
  assumes "timed w w'" and "lock_inv ta w"
  shows "\<exists>ta'. lock_inv ta' w' \<and>
    (atomic_world ta' w' = atomic_world ta w \<or> step (atomic_world ta w) (atomic_world ta' w'))"
  using assms
proof (cases rule: timed_step.cases)
  case (again i t s)
  have "lock_inv ta w'" using assms(2) again by (auto simp: lock_inv_def)
  moreover have "step (atomic_world ta w) (atomic_world ta w')"
    using snap_step.call [of "atomic_world ta w" i t s lastAt ttl load refresh recheck now] again
    by (simp add: atomic_world_def fun_upd_comp)
  ultimately show ?thesis by blast
next
  case (check i)
  have "lock_inv (tw_clk w) w'" using lock_invD(1) [OF assms(2)] check by (auto simp: lock_inv_def split: if_splits)
  moreover have "ta \<le> tw_clk w" using assms(2) by (simp add: lock_inv_def)
  then have "step (atomic_world ta w) (atomic_world (tw_clk w) w')"
    using snap_step.check [of "atomic_world ta w" i "tw_clk w" lastAt ttl load refresh recheck now] check
    by (cases "ttl (tw_coll w) \<le> time_sub (tw_clk w) (lastAt (tw_coll w))") (simp_all add: atomic_world_def fun_upd_comp)
  ultimately show ?thesis by blast
next
  case (fresh i t e)
  have c: "fst (refresh e (tw_coll w)) = tw_coll w" using lazy_collector.fresh [OF lazy_collector_axioms] fresh by simp
  have "lock_inv (recheck e) w'" using lock_invD(1) [OF assms(2)] fresh by (auto simp: lock_inv_def)
  moreover have "ta \<le> recheck e" using assms(2) fresh by (simp add: lock_inv_def)
  then have "step (atomic_world ta w) (atomic_world (recheck e) w')"
    using snap_step.refresh_fresh [of "atomic_world ta w" i t recheck e lastAt ttl load refresh now] fresh c
    by (simp add: atomic_world_def fun_upd_comp)
  ultimately show ?thesis by blast
next
  case (lock i t e)
  have "lock_inv ta w'"
    using assms(2) lock_invD(1) [OF assms(2)] finish_after [of e] lock by (auto simp: lock_inv_def)
  moreover have "atomic_world ta w' = atomic_world ta w"
    using lock fun_upd_idem [of "atomic_phase \<circ> tw_phase w" i "Stale t"] by (simp add: atomic_world_def fun_upd_comp)
  ultimately show ?thesis by blast
next
  case (publish i t e)
  note inv = lock_invD [OF assms(2) publish(2)]
  have "tw_phase w j \<noteq> TRefreshing u e'" if "j \<noteq> i" for j u e'
    using lock_invD(1) [OF assms(2)] inv(1) that by (metis option.inject)
  then have "lock_inv (now e) w'" using inv publish by (auto simp: lock_inv_def)
  moreover have "step (atomic_world ta w) (atomic_world (now e) w')"
    using snap_step.refresh_stale [of "atomic_world ta w" i t recheck e now lastAt ttl load refresh] publish inv
    by (simp add: atomic_world_def fun_upd_comp)
  ultimately show ?thesis by blast
next
  case (load i t)
  have "lock_inv ta w'" using assms(2) load by (auto simp: lock_inv_def)
  moreover have "step (atomic_world ta w) (atomic_world ta w')"
    using snap_step.load [of "atomic_world ta w" i t lastAt ttl load refresh recheck now] load
    by (simp add: atomic_world_def fun_upd_comp)
  ultimately show ?thesis by blast
next
  case (pass t)
  have "lock_inv ta w'" using assms(2) pass by (force simp: lock_inv_def)
  moreover have "atomic_world ta w' = atomic_world ta w" using pass by (simp add: atomic_world_def)
  ultimately show ?thesis by blast
qed

lemma timed_run_simulates:
  assumes "timed\<^sup>*\<^sup>* w w'" and "lock_inv ta w"
  shows "\<exists>ta'. lock_inv ta' w' \<and> step\<^sup>*\<^sup>* (atomic_world ta w) (atomic_world ta' w')"
  using assms(1)
proof (induction rule: rtranclp_induct)
  case base
  then show ?case using assms(2) by blast
next
  case (step w1 w2)
  then obtain t1 where t1: "lock_inv t1 w1" "step\<^sup>*\<^sup>* (atomic_world ta w) (atomic_world t1 w1)" by blast
  from timed_simulates [OF step(2) t1(1)] t1(2) show ?case
    by (metis rtranclp.rtrancl_into_rtrancl)
qed

lemma timed_refines:
  assumes "timed\<^sup>*\<^sup>* (timed_start c t) w"
  obtains ta where "ta \<le> tw_clk w" "step\<^sup>*\<^sup>* (start_world c t) (atomic_world ta w)" "lock_inv ta w"
proof -
  have start: "atomic_world t (timed_start c t :: ('c, 'e, 's) timed_world) = start_world c t"
    by (simp add: atomic_world_def timed_start_def start_world_def comp_def)
  from timed_run_simulates [OF assms lock_inv_start] obtain ta where
    "lock_inv ta w" "step\<^sup>*\<^sup>* (start_world c t) (atomic_world ta w)"
    unfolding start by blast
  moreover from this(1) have "ta \<le> tw_clk w" by (simp add: lock_inv_def)
  ultimately show ?thesis by (intro that)
qed

lemma timed_ttl: "timed\<^sup>*\<^sup>* w w' \<Longrightarrow> ttl (tw_coll w') = ttl (tw_coll w)"
proof (induction rule: rtranclp_induct)
  case (step w1 w2)
  from step(2) have "ttl (tw_coll w2) = ttl (tw_coll w1)"
    by (cases rule: timed_step.cases) (auto simp: ttl_kept)
  with step(3) show ?case by simp
qed simp

text \<open>The mutex is held for at most the limit, and whoever holds it can go on to free it.\<close>

lemma lock_bounded:
  assumes "timed\<^sup>*\<^sup>* (timed_start c t) w" and "tw_phase w i = TRefreshing u e"
  shows "tw_lock w = Some i \<and> now e \<le> tw_clk w \<and> tw_clk w \<le> now e + limit"
proof -
  obtain ta where "lock_inv ta w" using timed_refines [OF assms(1)] .
  from lock_invD [OF this assms(2)] show ?thesis using finish_within order_trans by blast
qed

lemma lock_freed:
  assumes inv: "lock_inv ta w" and "tw_phase w i = TRefreshing u e"
  shows "\<exists>w'. timed\<^sup>*\<^sup>* w w' \<and> tw_lock w' = None \<and> tw_clk w' = finish e (tw_coll w) \<and>
    tw_coll w' = fst (refresh e (tw_coll w)) \<and> tw_phase w' = (tw_phase w)(i := TReady u) \<and>
    tw_refreshed w' = now e # tw_refreshed w"
proof -
  let ?f = "finish e (tw_coll w)"
  let ?w1 = "w\<lparr>tw_clk := ?f\<rparr>"
  let ?w2 = "?w1\<lparr>tw_coll := fst (refresh e (tw_coll w)), tw_lock := None, tw_refreshed := now e # tw_refreshed w,
    tw_phase := (tw_phase w)(i := TReady u)\<rparr>"
  have "timed\<^sup>*\<^sup>* w ?w1"
  proof (cases "tw_clk w < ?f")
    case True
    have "t' = u \<and> e' = e" if "tw_phase w j = TRefreshing t' e'" for j t' e'
      using lock_invD(1) [OF inv that] lock_invD(1) [OF inv assms(2)] that assms(2) by simp
    then have "timed w ?w1" using True by (intro timed_step.pass) auto
    then show ?thesis by blast
  next
    case False
    then have "?w1 = w" using lock_invD(5) [OF inv assms(2)] by simp
    then show ?thesis by simp
  qed
  moreover have "timed ?w1 ?w2"
    using timed_step.publish [of ?w1 i u e finish lastAt ttl load refresh recheck now] assms(2) by simp
  ultimately show ?thesis by (intro exI [of _ ?w2]) simp
qed

text \<open>
  Calls that wait while a refresh takes the TTL or longer are not collapsed into it: each
  finds the cache stale again and refreshes in its turn. \<open>slow\<close> gives what a refresh that
  begins at an instant meets.
\<close>

lemma waiting_calls_refresh:
  assumes "\<And>t. recheck (slow t) = t \<and> now (slow t) = t" and "\<And>t c. finish (slow t) c = t + d"
    and "is_duration d"
  shows "lock_inv ta w \<Longrightarrow> tw_lock w = None \<Longrightarrow> (\<And>i. i < n \<Longrightarrow> \<exists>t. tw_phase w i = TStale t) \<Longrightarrow>
    ttl (tw_coll w) \<le> d \<Longrightarrow> ttl (tw_coll w) \<le> time_sub (tw_clk w) (lastAt (tw_coll w)) \<Longrightarrow>
    \<exists>w'. timed\<^sup>*\<^sup>* w w' \<and> tw_clk w' = tw_clk w + int n * d \<and> length (tw_refreshed w') = length (tw_refreshed w) + n"
proof (induction n arbitrary: w ta)
  case (Suc n)
  obtain t where st: "tw_phase w n = TStale t" using Suc.prems(3) by blast
  let ?e = "slow (tw_clk w)"
  let ?w1 = "w\<lparr>tw_clk := now ?e, tw_lock := Some n, tw_phase := (tw_phase w)(n := TRefreshing t ?e)\<rparr>"
  have e: "recheck ?e = tw_clk w" "now ?e = tw_clk w" using assms(1) by auto
  have "timed w ?w1"
    using timed_step.lock [of w n t recheck ?e now lastAt ttl load refresh finish] st Suc.prems(2,5) e by simp
  moreover obtain t1 where inv1: "lock_inv t1 ?w1" using timed_simulates [OF calculation Suc.prems(1)] by blast
  moreover obtain w2 where w2: "timed\<^sup>*\<^sup>* ?w1 w2" "tw_lock w2 = None" "tw_clk w2 = tw_clk w + d"
    "tw_coll w2 = fst (refresh ?e (tw_coll w))" "tw_phase w2 = (tw_phase ?w1)(n := TReady t)"
    "tw_refreshed w2 = tw_clk w # tw_refreshed w"
    using lock_freed [OF inv1, of n t ?e] assms(2) e by auto
  moreover obtain t2 where "lock_inv t2 w2" using timed_run_simulates [OF w2(1) inv1] by blast
  moreover have "ttl (tw_coll w2) \<le> d" using Suc.prems(4) w2(4) by (simp add: ttl_kept)
  moreover have "lastAt (tw_coll w2) = tw_clk w"
    using stale_lastAt [of ?e "tw_coll w"] Suc.prems(5) e w2(4) by simp
  moreover have "time_sub (tw_clk w + d) (tw_clk w) = d"
    using assms(3) by (simp add: time_sub_def is_duration_def)
  moreover have "\<exists>t. tw_phase w2 i = TStale t" if "i < n" for i
    using Suc.prems(3) [of i] that w2(5) by simp
  ultimately obtain w3 where "timed\<^sup>*\<^sup>* w2 w3" "tw_clk w3 = tw_clk w + d + int n * d"
    "length (tw_refreshed w3) = length (tw_refreshed w) + 1 + n"
    using Suc.IH [of t2 w2] by auto
  moreover have "timed\<^sup>*\<^sup>* w w2" using \<open>timed w ?w1\<close> w2(1) by (rule converse_rtranclp_into_rtranclp)
  ultimately show ?case by (intro exI [of _ w3]) (auto simp: algebra_simps)
qed auto

text \<open>Runs that reach the phases: calls that find the cache stale, and one that refreshes.\<close>

lemma timed_stale:
  assumes "ttl c \<le> time_sub t (lastAt c)" and "t0 < t"
  shows "\<exists>w. timed\<^sup>*\<^sup>* (timed_start c t0) w \<and> tw_coll w = c \<and> tw_lock w = None \<and> tw_clk w = t \<and> tw_refreshed w = [] \<and>
    (\<forall>i < n. tw_phase w i = TStale t) \<and> (\<forall>i \<ge> n. tw_phase w i = TIdle)"
proof (induction n)
  case 0
  have "timed (timed_start c t0) (timed_start c t0\<lparr>tw_clk := t\<rparr>)"
    using assms(2) by (intro timed_step.pass) (simp_all add: timed_start_def)
  then show ?case by (intro exI [of _ "timed_start c t0\<lparr>tw_clk := t\<rparr>"]) (auto simp: timed_start_def)
next
  case (Suc n)
  then obtain w where w: "timed\<^sup>*\<^sup>* (timed_start c t0) w" "tw_coll w = c" "tw_lock w = None" "tw_clk w = t"
    "tw_refreshed w = []" "\<forall>i < n. tw_phase w i = TStale t" "\<forall>i \<ge> n. tw_phase w i = TIdle"
    by blast
  let ?w = "w\<lparr>tw_phase := (tw_phase w)(n := TStale t)\<rparr>"
  have "timed w ?w"
    using timed_step.check [of w n lastAt ttl load refresh recheck now finish] w assms(1) by simp
  with w(1) have "timed\<^sup>*\<^sup>* (timed_start c t0) ?w" by simp
  with w show ?case by (intro exI [of _ ?w]) (auto simp: less_Suc_eq)
qed

lemma timed_refreshing:
  assumes "ttl c \<le> time_sub t (lastAt c)" and "t0 < t" and "recheck e = t" and "now e = t"
  shows "\<exists>w. timed\<^sup>*\<^sup>* (timed_start c t0) w \<and> tw_coll w = c \<and> tw_phase w 0 = TRefreshing t e \<and> tw_refreshed w = []"
proof -
  obtain w where w: "timed\<^sup>*\<^sup>* (timed_start c t0) w" "tw_coll w = c" "tw_lock w = None" "tw_clk w = t"
    "tw_refreshed w = []" "tw_phase w 0 = TStale t"
    using timed_stale [OF assms(1,2), of 1] by auto
  let ?w = "w\<lparr>tw_clk := now e, tw_lock := Some 0, tw_phase := (tw_phase w)(0 := TRefreshing t e)\<rparr>"
  have "timed w ?w"
    using timed_step.lock [of w 0 t recheck e now lastAt ttl load refresh finish] w assms by simp
  with w(1) have "timed\<^sup>*\<^sup>* (timed_start c t0) ?w" by simp
  with w show ?thesis by (intro exI [of _ ?w]) simp
qed

lemma timed_done:
  assumes "ttl c \<le> time_sub t (lastAt c)" and "t0 < t" and "recheck e = t" and "now e = t"
  shows "\<exists>w. timed\<^sup>*\<^sup>* (timed_start c t0) w \<and> tw_phase w 0 = TDone t (load (fst (refresh e c))) \<and> tw_refreshed w = [t]"
proof -
  obtain w where w: "timed\<^sup>*\<^sup>* (timed_start c t0) w" "tw_coll w = c" "tw_phase w 0 = TRefreshing t e" "tw_refreshed w = []"
    using timed_refreshing [OF assms] by blast
  obtain ta where "lock_inv ta w" using timed_refines [OF w(1)] .
  from lock_freed [OF this w(3)] obtain w1 where w1: "timed\<^sup>*\<^sup>* w w1" "tw_coll w1 = fst (refresh e c)"
    "tw_phase w1 = (tw_phase w)(0 := TReady t)" "tw_refreshed w1 = [t]"
    using w assms(4) by auto
  let ?w = "w1\<lparr>tw_phase := (tw_phase w1)(0 := TDone t (load (tw_coll w1)))\<rparr>"
  have "timed w1 ?w" using timed_step.load [of w1 0 t] w1(3) by simp
  then have "timed\<^sup>*\<^sup>* (timed_start c t0) ?w" using w(1) w1(1) by (meson rtranclp.rtrancl_into_rtrancl rtranclp_trans)
  with w1 show ?thesis by (intro exI [of _ ?w]) simp
qed

end

end
