(* ===== verification/Deadlines.thy ===== *)
theory Deadlines
  imports Timed_Cache Hotspot Wan Admin
begin

text \<open>
  The commands of the three lazy collectors in time: \<open>refresh\<close> derives a context of two
  seconds from the request's own, and every command it runs is killed when that context
  ends. Facts: a refresh, and so the mutex, takes at most two seconds whatever the commands
  do; the commands of one refresh share these two seconds; a request that goes away makes
  its refresh fail for everybody; and calls that wait for a slow refresh refresh again.

  Reading files and looking up paths takes no time here, and a killed command's output ends
  with it.
\<close>

section \<open>Contexts and commands\<close>

text \<open>The cancellation of a request's context, if ever; a context with the text of its error.\<close>

record ctx =
  cx_end :: time
  cx_err :: string

definition execTimeout :: duration where
  "execTimeout = 2 * second"

definition with_timeout :: "time option \<Rightarrow> time \<Rightarrow> duration \<Rightarrow> ctx" where
  "with_timeout cancelled t d =
     (case cancelled of
        None \<Rightarrow> \<lparr>cx_end = time_add t d, cx_err = ''context deadline exceeded''\<rparr>
      | Some u \<Rightarrow>
          if u < time_add t d then \<lparr>cx_end = u, cx_err = ''context canceled''\<rparr>
          else \<lparr>cx_end = time_add t d, cx_err = ''context deadline exceeded''\<rparr>)"

text \<open>What a command would do if it were left alone: exit after some nanoseconds, or hang.\<close>

datatype command = Exits nat "go_error + string" | Hangs

text \<open>
  \<open>exec.CommandContext(ctx, ...).Output()\<close> at an instant: not started when the context is
  over, killed when it ends first; the instant of the return and the result.
\<close>

definition command_output :: "ctx \<Rightarrow> time \<Rightarrow> command \<Rightarrow> time \<times> (go_error + string)" where
  "command_output cx t cmd =
     (if cx_end cx \<le> t then (t, Inl (External False (cx_err cx)))
      else case cmd of
          Hangs \<Rightarrow> (cx_end cx, Inl (External False ''signal: killed''))
        | Exits d r \<Rightarrow>
            if t + int d \<le> cx_end cx then (t + int d, r)
            else (cx_end cx, Inl (External False ''signal: killed'')))"

lemma command_output_after: "t \<le> fst (command_output cx t cmd)"
  by (simp add: command_output_def split: command.split)

lemma command_output_within:
  "t \<le> b \<Longrightarrow> cx_end cx \<le> b \<Longrightarrow> fst (command_output cx t cmd) \<le> b"
  by (simp add: command_output_def split: command.split)

lemma with_timeout_end: "cx_end (with_timeout cancelled t d) \<le> t + d"
  by (simp add: with_timeout_def time_add_def split: option.split)

text \<open>What the commands of one refresh meet: the request's context, and each command's doing.\<close>

record exec_world =
  ew_cancel :: "time option"
  ew_cmd :: "string list \<Rightarrow> command"

definition run_at :: "exec_world \<Rightarrow> ctx \<Rightarrow> time \<Rightarrow> string list \<Rightarrow> time \<times> (go_error + string)" where
  "run_at x cx t cmd = command_output cx t (ew_cmd x cmd)"

lemma run_at_after: "t \<le> fst (run_at x cx t cmd)"
  by (simp add: run_at_def command_output_after)

lemma run_at_within: "t \<le> b \<Longrightarrow> cx_end cx \<le> b \<Longrightarrow> fst (run_at x cx t cmd) \<le> b"
  by (simp add: run_at_def command_output_within)

lemma run_at_between:
  "t \<le> u \<Longrightarrow> u \<le> b \<Longrightarrow> cx_end cx \<le> b \<Longrightarrow> t \<le> fst (run_at x cx u cmd) \<and> fst (run_at x cx u cmd) \<le> b"
  using run_at_after [of u x cx cmd] by (simp add: run_at_within)

section \<open>The hotspot\<close>

definition station_dump_cmd :: "string \<Rightarrow> string list" where
  "station_dump_cmd iface = [''iw'', ''dev'', iface, ''station'', ''dump'']"

definition hs_exec :: "hs_env \<times> exec_world \<Rightarrow> string \<Rightarrow> time \<times> (go_error + string)" where
  "hs_exec te iface =
     (let (e, x) = te in
      run_at x (with_timeout (ew_cancel x) (he_now e) execTimeout) (he_now e) (station_dump_cmd iface))"

definition hs_timed_env :: "hs_env \<times> exec_world \<Rightarrow> hs_env" where
  "hs_timed_env te = (fst te)\<lparr>he_iw := (\<lambda>iface. snd (hs_exec te iface))\<rparr>"

definition hs_timed_refresh ::
  "(string \<Rightarrow> string) \<Rightarrow> hs_env \<times> exec_world \<Rightarrow> hs_Collector \<Rightarrow> hs_Collector \<times> hs_effect list" where
  "hs_timed_refresh uni te c = hs_refresh uni (hs_timed_env te) c"

definition hs_finish :: "hs_env \<times> exec_world \<Rightarrow> hs_Collector \<Rightarrow> time" where
  "hs_finish te c = (if hs_absent (fst te) c then he_now (fst te) else fst (hs_exec te (hs_iface c)))"

lemma hs_timed_env_simps [simp]:
  "he_recheck (hs_timed_env te) = he_recheck (fst te)" "he_now (hs_timed_env te) = he_now (fst te)"
  "hs_absent (hs_timed_env te) c = hs_absent (fst te) c" "he_leases (hs_timed_env te) = he_leases (fst te)"
  "he_iw (hs_timed_env te) iface = snd (hs_exec te iface)"
  by (simp_all add: hs_timed_env_def hs_absent_def)

interpretation hst: timed_collector hs_lastAt hs_ttl hs_snap hs_At "hs_timed_refresh uni"
  "\<lambda>te. he_recheck (fst te)" "\<lambda>te. he_now (fst te)" hs_finish execTimeout for uni
proof unfold_locales
  fix te :: "hs_env \<times> exec_world" and c
  show "he_now (fst te) \<le> hs_finish te c"
    by (simp add: hs_finish_def hs_exec_def run_at_after split: prod.split)
  show "hs_finish te c \<le> he_now (fst te) + execTimeout"
    by (simp add: hs_finish_def hs_exec_def run_at_within with_timeout_end execTimeout_def second_def split: prod.split)
qed (simp_all add: hs_timed_refresh_def hs_refresh_fresh hs_refresh_stale)

section \<open>The WAN link\<close>

text \<open>
  The three commands, each started when the one before it has returned, under one context;
  the supplicant's files are read between the first two.
\<close>

definition wn_exec :: "wn_env \<times> exec_world \<Rightarrow> string \<Rightarrow> string list \<Rightarrow> time \<times> (go_error + string)" where
  "wn_exec te iface cmd =
     (let (e, x) = te;
          cx = with_timeout (ew_cancel x) (we_now e) execTimeout;
          t1 = fst (run_at x cx (we_now e) (iw_link_cmd iface));
          t2 = fst (run_at x cx t1 (ip_addr_cmd iface)) in
      run_at x cx (if cmd = iw_link_cmd iface then we_now e else if cmd = ip_addr_cmd iface then t1 else t2) cmd)"

definition wn_timed_env :: "wn_env \<times> exec_world \<Rightarrow> string \<Rightarrow> wn_env" where
  "wn_timed_env te iface = (fst te)\<lparr>we_run := (\<lambda>cmd. snd (wn_exec te iface cmd))\<rparr>"

definition wn_timed_refresh ::
  "(string \<Rightarrow> string) \<Rightarrow> (float64 \<Rightarrow> int) \<Rightarrow> wn_env \<times> exec_world \<Rightarrow> wn_Collector \<Rightarrow> wn_Collector \<times> wn_effect list" where
  "wn_timed_refresh uni oor te c = wn_refresh uni oor (wn_timed_env te (wn_iface c)) c"

text \<open>A refresh is over after the last command that it runs.\<close>

definition wn_finish ::
  "(string \<Rightarrow> string) \<Rightarrow> (float64 \<Rightarrow> int) \<Rightarrow> wn_env \<times> exec_world \<Rightarrow> wn_Collector \<Rightarrow> time" where
  "wn_finish uni oor te c =
     (let iface = wn_iface c; iw = wn_exec te iface (iw_link_cmd iface); addr = wn_exec te iface (ip_addr_cmd iface) in
      if wn_absent (fst te) iface then we_now (fst te)
      else case snd iw of
          Inl err \<Rightarrow> fst iw
        | Inr out \<Rightarrow>
            if \<not> lr_connected (parseIwLink uni oor out) then fst iw
            else case snd addr of
                Inl err \<Rightarrow> fst addr
              | Inr out' \<Rightarrow> fst (wn_exec te iface ip_route_cmd))"

lemma wn_timed_env_simps [simp]:
  "we_recheck (wn_timed_env te iface) = we_recheck (fst te)" "we_now (wn_timed_env te iface) = we_now (fst te)"
  "wn_absent (wn_timed_env te iface) name = wn_absent (fst te) name"
  "supplicant_active (wn_timed_env te iface) name = supplicant_active (fst te) name"
  "we_run (wn_timed_env te iface) cmd = snd (wn_exec te iface cmd)"
  by (simp_all add: wn_timed_env_def wn_absent_def supplicant_active_def)

lemma wn_exec_bounds:
  "we_now (fst te) \<le> fst (wn_exec te iface cmd) \<and> fst (wn_exec te iface cmd) \<le> we_now (fst te) + execTimeout"
proof -
  obtain e x where te: "te = (e, x)" by (cases te)
  define cx where "cx = with_timeout (ew_cancel x) (we_now e) execTimeout"
  define t1 where "t1 = fst (run_at x cx (we_now e) (iw_link_cmd iface))"
  define t2 where "t2 = fst (run_at x cx t1 (ip_addr_cmd iface))"
  have b: "cx_end cx \<le> we_now e + execTimeout" "we_now e \<le> we_now e + execTimeout"
    using with_timeout_end by (simp_all add: cx_def execTimeout_def second_def)
  have t: "we_now e \<le> t1" "t1 \<le> we_now e + execTimeout" "t1 \<le> t2" "t2 \<le> we_now e + execTimeout"
    using run_at_after run_at_within b unfolding t1_def t2_def by blast+
  have "wn_exec te iface cmd =
      run_at x cx (if cmd = iw_link_cmd iface then we_now e else if cmd = ip_addr_cmd iface then t1 else t2) cmd"
    by (simp add: wn_exec_def te Let_def flip: cx_def t1_def t2_def)
  then show ?thesis
    using t run_at_between [OF _ _ b(1), of "we_now e"] b(2) by (simp add: te)
qed

interpretation wnt: timed_collector wn_lastAt wn_ttl wn_snap wn_At "wn_timed_refresh uni oor"
  "\<lambda>te. we_recheck (fst te)" "\<lambda>te. we_now (fst te)" "wn_finish uni oor" execTimeout for uni oor
proof unfold_locales
  fix te :: "wn_env \<times> exec_world" and c
  show "we_now (fst te) \<le> wn_finish uni oor te c" "wn_finish uni oor te c \<le> we_now (fst te) + execTimeout"
    using wn_exec_bounds [of te "wn_iface c"]
    by (auto simp: wn_finish_def execTimeout_def second_def Let_def split: sum.split)
qed (simp_all add: wn_timed_refresh_def wn_refresh_fresh wn_refresh_stale)

section \<open>The administration interface\<close>

definition ad_exec :: "ad_env \<times> exec_world \<Rightarrow> string \<Rightarrow> string list \<Rightarrow> time \<times> (go_error + string)" where
  "ad_exec te iface cmd =
     (let (e, x) = te;
          cx = with_timeout (ew_cancel x) (ae_now e) execTimeout;
          t1 = fst (run_at x cx (ae_now e) (ad_addr_cmd iface)) in
      run_at x cx (if cmd = ad_addr_cmd iface then ae_now e else t1) cmd)"

definition ad_timed_env :: "ad_env \<times> exec_world \<Rightarrow> string \<Rightarrow> ad_env" where
  "ad_timed_env te iface = (fst te)\<lparr>ae_run := (\<lambda>cmd. snd (ad_exec te iface cmd))\<rparr>"

definition ad_timed_refresh :: "ad_env \<times> exec_world \<Rightarrow> ad_Collector \<Rightarrow> ad_Collector \<times> ad_effect list" where
  "ad_timed_refresh te c = ad_refresh (ad_timed_env te (ad_iface c)) c"

definition ad_finish :: "ad_env \<times> exec_world \<Rightarrow> ad_Collector \<Rightarrow> time" where
  "ad_finish te c =
     (let iface = ad_iface c; addr = ad_exec te iface (ad_addr_cmd iface) in
      if ad_absent (fst te) iface then ae_now (fst te)
      else case snd addr of Inl err \<Rightarrow> fst addr | Inr out \<Rightarrow> fst (ad_exec te iface ad_route_cmd))"

lemma ad_timed_env_simps [simp]:
  "ae_recheck (ad_timed_env te iface) = ae_recheck (fst te)" "ae_now (ad_timed_env te iface) = ae_now (fst te)"
  "ad_absent (ad_timed_env te iface) name = ad_absent (fst te) name"
  "ae_operstate (ad_timed_env te iface) = ae_operstate (fst te)"
  "ae_run (ad_timed_env te iface) cmd = snd (ad_exec te iface cmd)"
  by (simp_all add: ad_timed_env_def ad_absent_def)

lemma ad_exec_bounds:
  "ae_now (fst te) \<le> fst (ad_exec te iface cmd) \<and> fst (ad_exec te iface cmd) \<le> ae_now (fst te) + execTimeout"
proof -
  obtain e x where te: "te = (e, x)" by (cases te)
  define cx where "cx = with_timeout (ew_cancel x) (ae_now e) execTimeout"
  define t1 where "t1 = fst (run_at x cx (ae_now e) (ad_addr_cmd iface))"
  have b: "cx_end cx \<le> ae_now e + execTimeout" "ae_now e \<le> ae_now e + execTimeout"
    using with_timeout_end by (simp_all add: cx_def execTimeout_def second_def)
  have t: "ae_now e \<le> t1" "t1 \<le> ae_now e + execTimeout"
    using run_at_after run_at_within b unfolding t1_def by blast+
  have "ad_exec te iface cmd = run_at x cx (if cmd = ad_addr_cmd iface then ae_now e else t1) cmd"
    by (simp add: ad_exec_def te Let_def flip: cx_def t1_def)
  then show ?thesis
    using t run_at_between [OF _ _ b(1), of "ae_now e"] b(2) by (simp add: te)
qed

interpretation adt: timed_collector ad_lastAt ad_ttl ad_snap ad_At ad_timed_refresh
  "\<lambda>te. ae_recheck (fst te)" "\<lambda>te. ae_now (fst te)" ad_finish execTimeout
proof unfold_locales
  fix te :: "ad_env \<times> exec_world" and c
  show "ae_now (fst te) \<le> ad_finish te c" "ad_finish te c \<le> ae_now (fst te) + execTimeout"
    using ad_exec_bounds [of te "ad_iface c"]
    by (auto simp: ad_finish_def execTimeout_def second_def Let_def split: sum.split)
qed (simp_all add: ad_timed_refresh_def ad_refresh_fresh ad_refresh_stale)

section \<open>Properties\<close>

text \<open>A refresh at an instant whose commands, without a cancellation, all do the same.\<close>

definition wn_sample_run :: "time \<Rightarrow> command \<Rightarrow> wn_env \<times> exec_world" where
  "wn_sample_run t cmd =
     (\<lparr>we_recheck = t, we_now = t, we_exists = None, we_run = (\<lambda>cmd. Inr []), we_supplicant = None\<rparr>,
      \<lparr>ew_cancel = None, ew_cmd = (\<lambda>c. cmd)\<rparr>)"

definition deadline_config :: config where
  "deadline_config = Load id Map.empty"

lemma wn_sample_stale:
  "wn_ttl (wn_New deadline_config 0) \<le> time_sub second (wn_lastAt (wn_New deadline_config 0))"
  "(0 :: time) < second" "we_recheck (fst (wn_sample_run t cmd)) = t" "we_now (fst (wn_sample_run t cmd)) = t"
  by (simp_all add: wn_New_def wn_newWithDeps_def wn_sample_run_def time_sub_def duration_defs)

text \<open>
  C15: with the mutex and the time of the commands made explicit, the WAN collector still
  behaves as if a refresh were one step: every run is one of the atomic model with the same
  collector, refresh instants and results. So refreshes are at least one second apart, and
  every finished call returns a snapshot less than a second old at its check.
\<close>

theorem wan_mutex_refines:
  assumes "(timed_step wn_lastAt wn_ttl wn_snap (wn_timed_refresh uni oor) (\<lambda>te. we_recheck (fst te))
      (\<lambda>te. we_now (fst te)) (wn_finish uni oor))\<^sup>*\<^sup>* (timed_start (wn_New cfg t0) t0) w" and "0 \<le> t0"
  shows "(\<exists>v. (snap_step wn_lastAt wn_ttl wn_snap (wn_timed_refresh uni oor) (\<lambda>te. we_recheck (fst te))
        (\<lambda>te. we_now (fst te)))\<^sup>*\<^sup>* (start_world (wn_New cfg t0) t0) v \<and>
      coll v = tw_coll w \<and> refreshed v = tw_refreshed w \<and> (\<forall>i. phase_of v i = atomic_phase (tw_phase w i))) \<and>
    spaced second (tw_refreshed w) \<and> (tw_phase w i = TDone t s \<longrightarrow> t - wn_At s < second)"
proof -
  obtain ta where v: "(snap_step wn_lastAt wn_ttl wn_snap (wn_timed_refresh uni oor) (\<lambda>te. we_recheck (fst te))
      (\<lambda>te. we_now (fst te)))\<^sup>*\<^sup>* (start_world (wn_New cfg t0) t0) (atomic_world ta w)"
    using wnt.timed_refines [OF assms(1)] .
  have new: "wn_ttl (wn_New cfg t0) = second" "wn_lastAt (wn_New cfg t0) \<le> wn_At (wn_snap (wn_New cfg t0))"
    "wn_At (wn_snap (wn_New cfg t0)) \<le> t0" "is_duration second" "0 < second"
    using assms(2) by (simp_all add: wn_New_def wn_newWithDeps_def is_duration_def duration_defs)
  have "spaced second (refreshed (atomic_world ta w))"
    using wnt.refreshes_spaced [OF v new(2,3)] new by simp
  moreover have "t - wn_At s < second" if "tw_phase w i = TDone t s"
    using wnt.result_fresh [OF v new(2,3), of i t s] new that by simp
  ultimately show ?thesis using v by (intro conjI exI [of _ "atomic_world ta w"]) simp_all
qed

lemma wan_mutex_refines_witness:
  "\<exists>w s. (timed_step wn_lastAt wn_ttl wn_snap (wn_timed_refresh id sample_oor) (\<lambda>te. we_recheck (fst te))
      (\<lambda>te. we_now (fst te)) (wn_finish id sample_oor))\<^sup>*\<^sup>* (timed_start (wn_New deadline_config 0) 0) w \<and>
    tw_phase w 0 = TDone second s \<and> tw_refreshed w = [second] \<and> second - wn_At s < second"
proof -
  obtain w s where w: "(timed_step wn_lastAt wn_ttl wn_snap (wn_timed_refresh id sample_oor) (\<lambda>te. we_recheck (fst te))
      (\<lambda>te. we_now (fst te)) (wn_finish id sample_oor))\<^sup>*\<^sup>* (timed_start (wn_New deadline_config 0) 0) w"
    "tw_phase w 0 = TDone second s" "tw_refreshed w = [second]"
    using wnt.timed_done [OF wn_sample_stale(1,2), of "wn_sample_run second Hangs" id sample_oor] wn_sample_stale(3,4)
    by blast
  with wan_mutex_refines [OF w(1), of 0 second s] show ?thesis by blast
qed

text \<open>
  C16: a refresh of the WAN link holds the collector's mutex for at most two seconds, whatever
  its three commands do, hanging included; and whoever holds it can always go on and free it
  within that time.
\<close>

theorem wan_mutex_bounded:
  assumes "(timed_step wn_lastAt wn_ttl wn_snap (wn_timed_refresh uni oor) (\<lambda>te. we_recheck (fst te))
      (\<lambda>te. we_now (fst te)) (wn_finish uni oor))\<^sup>*\<^sup>* (timed_start (wn_New cfg t0) t0) w"
    and "tw_phase w i = TRefreshing t te"
  shows "tw_lock w = Some i \<and> we_now (fst te) \<le> tw_clk w \<and> tw_clk w \<le> we_now (fst te) + 2 * second \<and>
    (\<exists>w'. (timed_step wn_lastAt wn_ttl wn_snap (wn_timed_refresh uni oor) (\<lambda>te. we_recheck (fst te))
        (\<lambda>te. we_now (fst te)) (wn_finish uni oor))\<^sup>*\<^sup>* w w' \<and> tw_lock w' = None \<and> tw_phase w' i = TReady t \<and>
      tw_clk w' \<le> we_now (fst te) + 2 * second)"
proof -
  obtain ta where inv: "wnt.lock_inv uni oor ta w" using wnt.timed_refines [OF assms(1)] .
  show ?thesis
    using wnt.lock_bounded [OF assms] wnt.lock_freed [OF inv assms(2)]
      wnt.finish_within [of uni oor te "tw_coll w"]
    by (fastforce simp: execTimeout_def)
qed

lemma wan_mutex_bounded_witness:
  "\<exists>w w'. tw_phase w 0 = TRefreshing second (wn_sample_run second Hangs) \<and>
    (timed_step wn_lastAt wn_ttl wn_snap (wn_timed_refresh id sample_oor) (\<lambda>te. we_recheck (fst te))
      (\<lambda>te. we_now (fst te)) (wn_finish id sample_oor))\<^sup>*\<^sup>* w w' \<and> tw_lock w' = None \<and> tw_clk w' \<le> 3 * second"
proof -
  obtain w where w: "(timed_step wn_lastAt wn_ttl wn_snap (wn_timed_refresh id sample_oor) (\<lambda>te. we_recheck (fst te))
      (\<lambda>te. we_now (fst te)) (wn_finish id sample_oor))\<^sup>*\<^sup>* (timed_start (wn_New deadline_config 0) 0) w"
    "tw_phase w 0 = TRefreshing second (wn_sample_run second Hangs)"
    using wnt.timed_refreshing [OF wn_sample_stale(1,2), of "wn_sample_run second Hangs" id sample_oor] wn_sample_stale(3,4)
    by blast
  from wan_mutex_bounded [OF w] w(2) show ?thesis unfolding wn_sample_stale(4) by fastforce
qed

text \<open>Refreshes whose \<open>iw\<close> hangs.\<close>

definition hanging :: "time \<Rightarrow> hs_env \<times> exec_world" where
  "hanging t =
     (\<lparr>he_recheck = t, he_now = t, he_exists = None, he_iw = (\<lambda>iface. Inr []), he_leases = Inr []\<rparr>,
      \<lparr>ew_cancel = None, ew_cmd = (\<lambda>cmd. Hangs)\<rparr>)"

text \<open>
  The re-check under the mutex does not collapse calls that waited for a slow refresh:
  with \<open>iw\<close> hanging, of \<open>n\<close> calls that found the cache stale each refreshes in its
  turn, and the last one is served only after two seconds for each.
\<close>

theorem hotspot_waiting_calls_refresh:
  assumes "(timed_step hs_lastAt hs_ttl hs_snap (hs_timed_refresh uni) (\<lambda>te. he_recheck (fst te))
      (\<lambda>te. he_now (fst te)) hs_finish)\<^sup>*\<^sup>* (timed_start (hs_New cfg t0) t0) w"
    and "tw_lock w = None" and "\<And>i. i < n \<Longrightarrow> \<exists>t. tw_phase w i = TStale t"
    and "second \<le> time_sub (tw_clk w) (hs_lastAt (tw_coll w))"
  shows "\<exists>w'. (timed_step hs_lastAt hs_ttl hs_snap (hs_timed_refresh uni) (\<lambda>te. he_recheck (fst te))
      (\<lambda>te. he_now (fst te)) hs_finish)\<^sup>*\<^sup>* w w' \<and>
    tw_clk w' = tw_clk w + int n * (2 * second) \<and> length (tw_refreshed w') = length (tw_refreshed w) + n"
proof -
  obtain ta where inv: "hst.lock_inv ta w" using hst.timed_refines [OF assms(1)] .
  have ttl: "hs_ttl (tw_coll w) = second"
    using hst.timed_ttl [OF assms(1)] by (simp add: timed_start_def hs_New_def hs_newWithDeps_def)
  have slow: "he_recheck (fst (hanging t)) = t \<and> he_now (fst (hanging t)) = t" "hs_finish (hanging t) c = t + execTimeout"
    for t c
    by (simp_all add: hanging_def hs_finish_def hs_absent_def hs_exec_def run_at_def command_output_def
        with_timeout_def time_add_def execTimeout_def second_def)
  have d: "is_duration execTimeout" "second \<le> execTimeout"
    by (simp_all add: is_duration_def execTimeout_def duration_defs)
  have stale: "\<exists>t. tw_phase w i = TStale t" if "i < n" for i using assms(3) that .
  show ?thesis
    using hst.waiting_calls_refresh [OF slow d(1) inv assms(2) stale, of n] ttl d(2) assms(4)
    by (simp add: execTimeout_def)
qed

lemma hotspot_waiting_calls_refresh_witness:
  "\<exists>w. (timed_step hs_lastAt hs_ttl hs_snap (hs_timed_refresh id) (\<lambda>te. he_recheck (fst te))
      (\<lambda>te. he_now (fst te)) hs_finish)\<^sup>*\<^sup>* (timed_start (hs_New deadline_config 0) 0) w \<and>
    tw_clk w = 21 * second \<and> length (tw_refreshed w) = 10"
proof -
  let ?run = "timed_step hs_lastAt hs_ttl hs_snap (hs_timed_refresh id) (\<lambda>te. he_recheck (fst te))
      (\<lambda>te. he_now (fst te)) hs_finish"
  have start: "hs_ttl (hs_New deadline_config 0) \<le> time_sub second (hs_lastAt (hs_New deadline_config 0))"
    "second \<le> time_sub second (hs_lastAt (hs_New deadline_config 0))" "(0 :: time) < second"
    by (simp_all add: hs_New_def hs_newWithDeps_def time_sub_def duration_defs)
  obtain w where w: "?run\<^sup>*\<^sup>* (timed_start (hs_New deadline_config 0) 0) w" "tw_coll w = hs_New deadline_config 0"
    "tw_lock w = None" "tw_clk w = second" "tw_refreshed w = []" "\<forall>i < 10. tw_phase w i = TStale second"
    using hst.timed_stale [OF start(1,3), of id 10] by blast
  have st: "\<exists>t. tw_phase w i = TStale t" if "i < 10" for i using w(6) that by blast
  have "second \<le> time_sub (tw_clk w) (hs_lastAt (tw_coll w))" using w(2,4) start(2) by simp
  from hotspot_waiting_calls_refresh [where n = 10, OF w(1,3) st this] obtain w' where
    "?run\<^sup>*\<^sup>* w w'" "tw_clk w' = 21 * second" "length (tw_refreshed w') = 10"
    using w(4,5) by auto
  with w(1) show ?thesis by (intro exI [of _ w']) (auto intro: rtranclp_trans)
qed

text \<open>
  C31: the two seconds are for all the commands of a refresh together. For a connected WAN
  interface whose request is not cancelled, and three commands that would each succeed when
  left alone, the first command that would end more than two seconds after the refresh
  began, the time of those before it included, is killed, however quick it is itself: the
  refresh fails with its name and the last information stays. Without such a command it
  succeeds. (No command ends at the very instant of the deadline.)
\<close>

theorem wan_commands_share_budget:
  assumes "\<not> time_sub (we_recheck e) (wn_lastAt c) < wn_ttl c" and "\<not> wn_absent e (wn_iface c)" and "ew_cancel x = None"
    and "ew_cmd x (iw_link_cmd (wn_iface c)) = Exits d1 (Inr out1)" and "lr_connected (parseIwLink uni oor out1)"
    and "ew_cmd x (ip_addr_cmd (wn_iface c)) = Exits d2 (Inr out2)" and "ew_cmd x ip_route_cmd = Exits d3 (Inr out3)"
    and "2 * second \<notin> {int d1, int (d1 + d2), int (d1 + d2 + d3)}"
  shows "let late =
        (if 2 * second < int d1 then Some ''iw: '' else if 2 * second < int (d1 + d2) then Some ''ip addr: ''
         else if 2 * second < int (d1 + d2 + d3) then Some ''ip route: '' else None);
      snap = wn_snap (fst (wn_timed_refresh uni oor (e, x) c)) in
    wn_Err snap = map_option (\<lambda>name. Wrap name (External False ''signal: killed'')) late \<and>
    (late = None \<or> wn_Info snap = wn_Info (wn_snap c))"
proof -
  let ?i = "wn_iface c"
  have cmds: "ip_addr_cmd ?i \<noteq> iw_link_cmd ?i" "ip_route_cmd \<noteq> iw_link_cmd ?i" "ip_route_cmd \<noteq> ip_addr_cmd ?i"
    by (simp_all add: iw_link_cmd_def ip_addr_cmd_def ip_route_cmd_def)
  have cx: "with_timeout (ew_cancel x) t execTimeout = \<lparr>cx_end = t + 2 * second, cx_err = ''context deadline exceeded''\<rparr>" for t
    by (simp add: with_timeout_def assms(3) time_add_def execTimeout_def)
  have pos: "0 < second" by (simp add: second_def)
  note defs = wn_exec_def cx run_at_def command_output_def assms(4,6,7) cmds
  have 1: "wn_exec (e, x) ?i (iw_link_cmd ?i) =
      (if 2 * second < int d1 then (we_now e + 2 * second, Inl (External False ''signal: killed''))
       else (we_now e + int d1, Inr out1))"
    using pos by (simp add: defs)
  have 2: "wn_exec (e, x) ?i (ip_addr_cmd ?i) =
      (if 2 * second < int (d1 + d2) then (we_now e + 2 * second, Inl (External False ''signal: killed''))
       else (we_now e + int (d1 + d2), Inr out2))" if "\<not> 2 * second < int d1"
    using pos assms(8) that by (simp add: defs)
  have 3: "snd (wn_exec (e, x) ?i ip_route_cmd) =
      (if 2 * second < int (d1 + d2 + d3) then Inl (External False ''signal: killed'') else Inr out3)"
    if "\<not> 2 * second < int (d1 + d2)"
    using pos assms(8) that by (simp add: defs)
  show ?thesis
    using assms(1,2,5) 1 2 3
    by (simp add: wn_timed_refresh_def wn_refresh_def wn_refresh_link_def wn_refresh_ip_def storeFailure_def
        storeSuccess_def Let_def)
qed

text \<open>Three commands of 0.9 seconds each.\<close>

definition slow_world :: exec_world where
  "slow_world = \<lparr>ew_cancel = None, ew_cmd = (\<lambda>cmd. Exits 900000000 (Inr (unlines [''Connected to 11:22''])))\<rparr>"

lemma wan_commands_share_budget_witness:
  "wn_Err (wn_snap (fst (wn_timed_refresh id sample_oor (fst (wn_sample_run second Hangs), slow_world)
      (wn_New deadline_config 0)))) = Some (Wrap ''ip route: '' (External False ''signal: killed''))"
proof -
  let ?e = "fst (wn_sample_run second Hangs)"
  let ?c = "wn_New deadline_config 0"
  have stale: "\<not> time_sub (we_recheck ?e) (wn_lastAt ?c) < wn_ttl ?c" "\<not> wn_absent ?e (wn_iface ?c)"
    by (simp_all add: wn_New_def wn_newWithDeps_def wn_sample_run_def wn_absent_def time_sub_def duration_defs)
  have "list_all (clean_line large_token_limit) [''Connected to 11:22'']"
    by (simp add: clean_line_def newline_def drop_cr_def large_token_limit_def)
  moreover have "lr_connected (link_loop id sample_oor zero_link [''Connected to 11:22''])" by code_simp
  ultimately have up: "lr_connected (parseIwLink id sample_oor (unlines [''Connected to 11:22'']))"
    by (simp only: parseIwLink_def scan_lines_unlines)
  have w: "ew_cancel slow_world = None"
    "ew_cmd slow_world cmd = Exits 900000000 (Inr (unlines [''Connected to 11:22'']))" for cmd
    by (simp_all add: slow_world_def)
  have "2 * second \<notin> {int 900000000, int (900000000 + 900000000), int (900000000 + 900000000 + 900000000)}"
    by (simp add: second_def)
  from wan_commands_share_budget [OF stale w(1) w(2) up w(2) w(2) this] show ?thesis by (simp add: second_def Let_def)
qed

text \<open>
  C28: a request that goes away while its refresh runs \<open>iw\<close> makes the refresh fail for
  everybody: the failure is published, with the previous clients, and every other call in
  the next second returns it without running anything.
\<close>

theorem hotspot_cancelled_request_publishes:
  assumes "\<not> time_sub (he_recheck e) (hs_lastAt c) < hs_ttl c" and "\<not> hs_absent e c"
    and "ew_cancel x = Some u" and "u < he_now e + 2 * second"
    and "\<nexists>d r. ew_cmd x (station_dump_cmd (hs_iface c)) = Exits d r \<and> he_now e + int d \<le> u"
    and "time_sub t (he_now e) < hs_ttl c"
  shows "let c' = fst (hs_timed_refresh uni (e, x) c) in
    (\<exists>err. hs_Err (hs_snap c') = Some (Wrap ''iw: '' err)) \<and> hs_Clients (hs_snap c') = hs_Clients (hs_snap c) \<and>
    hs_Snapshot_of uni t e' c' = ((c', []), hs_snap c')"
proof -
  have cx: "with_timeout (ew_cancel x) (he_now e) execTimeout = \<lparr>cx_end = u, cx_err = ''context canceled''\<rparr>"
    using assms(4) by (simp add: with_timeout_def assms(3) time_add_def execTimeout_def)
  have "\<exists>err. snd (hs_exec (e, x) (hs_iface c)) = Inl err"
    using assms(5)
    by (cases "ew_cmd x (station_dump_cmd (hs_iface c))") (auto simp: hs_exec_def cx run_at_def command_output_def)
  then obtain err where "snd (hs_exec (e, x) (hs_iface c)) = Inl err" by blast
  then show ?thesis
    using assms(1,2,6) by (simp add: hs_timed_refresh_def hs_refresh_def hs_Snapshot_of_def Let_def)
qed

lemma hotspot_cancelled_request_publishes_witness:
  "hs_Clients (hs_snap (fst (hs_timed_refresh id (hs_sample_env second, \<lparr>ew_cancel = Some second, ew_cmd = (\<lambda>cmd. Hangs)\<rparr>)
     hs_start))) = []"
proof -
  have "\<not> time_sub (he_recheck (hs_sample_env second)) (hs_lastAt hs_start) < hs_ttl hs_start"
    "\<not> hs_absent (hs_sample_env second) hs_start" by code_simp+
  moreover have "second < he_now (hs_sample_env second) + 2 * second"
    "time_sub second (he_now (hs_sample_env second)) < hs_ttl hs_start" "hs_Clients (hs_snap hs_start) = []"
    by (simp_all add: hs_sample_env_def hs_start_def hs_newWithDeps_def second_def)
  ultimately show ?thesis
    using hotspot_cancelled_request_publishes [of "hs_sample_env second" hs_start
        "\<lparr>ew_cancel = Some second, ew_cmd = (\<lambda>cmd. Hangs)\<rparr>" second second id]
    by (simp add: Let_def)
qed

end
