(* ===== verification/Helper_Time.thy ===== *)
theory Helper_Time
  imports Deadlines Authz
begin

text \<open>
  A call to the helper in time: \<open>callHelper\<close> and \<open>callSocket\<close> of \<open>authz/client.go\<close>
  with a peer whose answers take time, come in pieces, or do not come. Dialling has a limit
  of two seconds and ends with the request's context; writing and reading have neither.
  Facts: how a reply is cut into pieces does not matter, so that the calls of \<open>Authz\<close>, to
  which it arrives at once, are right about it; when a call returns at all; and what the
  middleware does with a helper that stays silent.
\<close>

section \<open>Reading a reply\<close>

text \<open>
  \<open>Decoder.Decode\<close> reads until the first value is complete: the brace or bracket that
  closes it, or, for a value of another kind, the byte after it or the end of the stream.
  The flag tells that it stops reading, with a value or a syntax error.
\<close>

fun in_number :: "jstate \<Rightarrow> bool" where
  "in_number (InNumber n raw) = True"
| "in_number q = False"

fun dec_byte :: "char \<Rightarrow> jconf \<Rightarrow> jconf \<times> bool" where
  "dec_byte c (Conf q st) =
     (case jstep c q st of
        Conf q' st' \<Rightarrow> (Conf q' st', False)
      | Finished v \<Rightarrow> (Finished v, c \<in> {CHR ''}'', CHR '']''} \<or> in_number q)
      | Bad \<Rightarrow> (Bad, True))"
| "dec_byte c (Finished v) = (Finished v, True)"
| "dec_byte c Bad = (Bad, True)"

fun dec_read :: "jconf \<Rightarrow> string \<Rightarrow> jconf \<times> bool" where
  "dec_read k [] = (k, False)"
| "dec_read k (c # s) = (let (k', stops) = dec_byte c k in if stops then (k', True) else dec_read k' s)"

text \<open>
  The peer's bytes, each piece after some nanoseconds, and what comes after the last one. A
  read error other than the end of the stream leaves nothing to decode.
\<close>

datatype ending = Closes nat | Resets nat | Silent

fun dec_stream :: "jconf \<Rightarrow> string \<Rightarrow> time \<Rightarrow> (nat \<times> string) list \<Rightarrow> ending \<Rightarrow> (time \<times> string) option" where
  "dec_stream k got t ((d, piece) # pieces) fin =
     (let (k', stops) = dec_read k piece in
      if stops then Some (t + int d, got @ piece) else dec_stream k' (got @ piece) (t + int d) pieces fin)"
| "dec_stream k got t [] (Closes d) = Some (t + int d, got)"
| "dec_stream k got t [] (Resets d) = Some (t + int d, [])"
| "dec_stream k got t [] Silent = None"

section \<open>A call\<close>

datatype dialled = DialReady nat | DialRefused nat go_error | DialHangs

datatype sending = Sends nat | SendBreaks nat go_error | SendHangs

record peer =
  pe_dial :: dialled
  pe_send :: sending
  pe_pieces :: "(nat \<times> string) list"
  pe_end :: ending

definition dialTimeout :: duration where
  "dialTimeout = 2 * second"

definition dial :: "time option \<Rightarrow> string \<Rightarrow> time \<Rightarrow> dialled \<Rightarrow> time \<times> go_error option" where
  "dial cancelled socketPath t d =
     (let cx = with_timeout cancelled t dialTimeout;
          why = (if cx_err cx = ''context canceled'' then ''operation was canceled'' else ''i/o timeout'');
          late = Some (External False (''dial unix '' @ socketPath @ '': '' @ why)) in
      if cx_end cx \<le> t then (t, late)
      else case d of
          DialReady n \<Rightarrow> if t + int n \<le> cx_end cx then (t + int n, None) else (cx_end cx, late)
        | DialRefused n e \<Rightarrow> if t + int n \<le> cx_end cx then (t + int n, Some e) else (cx_end cx, late)
        | DialHangs \<Rightarrow> (cx_end cx, late))"

text \<open>The instant of the return and what the connection did, or \<open>None\<close> when nothing ends the call.\<close>

definition socket_time :: "time option \<Rightarrow> string \<Rightarrow> time \<Rightarrow> peer \<Rightarrow> (time \<times> helper_outcome) option" where
  "socket_time cancelled socketPath t p =
     (case dial cancelled socketPath t (pe_dial p) of
        (t1, Some e) \<Rightarrow> Some (t1, DialFailed e)
      | (t1, None) \<Rightarrow>
          (case pe_send p of
             SendHangs \<Rightarrow> None
           | SendBreaks n e \<Rightarrow> Some (t1 + int n, SendFailed e)
           | Sends n \<Rightarrow> map_option (\<lambda>(t2, bytes). (t2, Replied bytes))
               (dec_stream (Conf BeginValue []) [] (t1 + int n) (pe_pieces p) (pe_end p))))"

definition with_outcome :: "helper_outcome \<Rightarrow> helper \<Rightarrow> helper" where
  "with_outcome r hp = hp\<lparr>hp_call := (\<lambda>socketPath bytes. r)\<rparr>"

definition callHelper_at ::
  "helper \<Rightarrow> time option \<Rightarrow> time \<Rightarrow> peer \<Rightarrow> string \<Rightarrow> string \<Rightarrow> string \<Rightarrow>
   (time \<times> (go_error + authResponse) \<times> 'x effect list) option" where
  "callHelper_at hp cancelled t p socketPath username password =
     map_option (\<lambda>(t', r). (t', callHelper (with_outcome r hp) socketPath username password))
       (socket_time cancelled socketPath t p)"

definition callSocket_at ::
  "helper \<Rightarrow> time option \<Rightarrow> time \<Rightarrow> peer \<Rightarrow> string \<Rightarrow> authRequest \<Rightarrow>
   (time \<times> (go_error + authResponse) \<times> 'x effect list) option" where
  "callSocket_at hp cancelled t p socketPath req =
     map_option (\<lambda>(t', r). (t', callSocket (with_outcome r hp) socketPath req)) (socket_time cancelled socketPath t p)"

section \<open>The middleware\<close>

text \<open>The credentials for which \<open>Middleware\<close> asks the helper: those that it has no answer for.\<close>

definition asks_helper :: "(string \<Rightarrow> string) \<Rightarrow> time \<Rightarrow> request \<Rightarrow> authCache \<Rightarrow> (string \<times> string) option" where
  "asks_helper sha t rq cache =
     (if rq_path rq = ''/healthz'' then None
      else case BasicAuth rq of
          None \<Rightarrow> None
        | Some (username, password) \<Rightarrow>
            if username = [] \<or> cache_get sha t username password cache \<noteq> None then None
            else Some (username, password))"

definition authorize_at ::
  "(string \<Rightarrow> string) \<Rightarrow> string \<Rightarrow> az_env \<Rightarrow> time option \<Rightarrow> peer \<Rightarrow> request \<Rightarrow> authCache \<Rightarrow>
   (time \<times> authCache \<times> verdict \<times> 'x effect list) option" where
  "authorize_at sha socketPath e cancelled p rq cache =
     (case asks_helper sha (az_now_get e) rq cache of
        None \<Rightarrow> Some (az_now_get e, authorize sha socketPath e rq cache)
      | Some cred \<Rightarrow>
          map_option (\<lambda>(t', r). (t', authorize sha socketPath
              (e\<lparr>az_helper := with_outcome r (az_helper e), az_now_set := t'\<rparr>) rq cache))
            (socket_time cancelled socketPath (az_now_get e) p))"

section \<open>Pieces\<close>

definition value_of :: "jconf \<Rightarrow> string \<Rightarrow> json option" where
  "value_of k s = map_option fst (json_run k s)"

lemma value_of_simps [simp]:
  "value_of (Finished v) s = Some v" "value_of Bad s = None"
  "value_of (Conf q st) (c # s) = value_of (jstep c q st) s"
  by (simp_all add: value_of_def)

lemma json_first_value: "json_first s = value_of (Conf BeginValue []) s"
  by (simp add: json_first_def value_of_def)

lemma value_of_byte: "value_of k (c # s) = value_of (fst (dec_byte c k)) s"
  by (cases k) (auto split: jconf.split)

lemma dec_byte_final:
  assumes "dec_byte c k = (k', True)"
  shows "k' = Bad \<or> (\<exists>v. k' = Finished v)"
proof (cases k)
  case (Conf q st)
  show ?thesis using assms unfolding Conf by (cases "jstep c q st") (simp_all, blast)
qed (use assms in auto)

lemma dec_byte_stops: "dec_byte c k = (k', True) \<Longrightarrow> value_of k' s = value_of k' s'"
  using dec_byte_final [of c k k'] by auto

lemma value_of_read:
  "dec_read k s = (k', stops) \<Longrightarrow>
     value_of k (s @ r) = value_of k' r \<and> (stops \<longrightarrow> value_of k' r = value_of k' r')"
proof (induction s arbitrary: k)
  case (Cons c s)
  obtain k1 b where b: "dec_byte c k = (k1, b)" by fastforce
  have 1: "value_of k (c # s @ r) = value_of k1 (s @ r)" using value_of_byte [of k c "s @ r"] b by simp
  show ?case
  proof (cases b)
    case True
    then show ?thesis using Cons.prems b 1 dec_byte_stops [of c k k1] by auto
  next
    case False
    then show ?thesis using Cons.IH [of k1] Cons.prems b 1 by simp
  qed
qed simp

lemma dec_read_append:
  "dec_read k (s @ s') = (let (k', stops) = dec_read k s in if stops then (k', True) else dec_read k' s')"
  by (induction s arbitrary: k) (auto simp: Let_def split: prod.split)

text \<open>The value decoded from what was read is that of all that the peer would send.\<close>

lemma dec_stream_value:
  assumes "dec_stream k got t pieces fin = Some (t', bytes)" and "\<And>r. value_of k0 (got @ r) = value_of k r"
  shows "value_of k0 bytes = value_of k0 (got @ concat (map snd pieces)) \<or> (\<exists>d. fin = Resets d) \<and> bytes = []"
  using assms
proof (induction k got t pieces fin rule: dec_stream.induct)
  case (1 k got t d piece pieces fin)
  obtain k' stops where r: "dec_read k piece = (k', stops)" by fastforce
  have v: "value_of k0 ((got @ piece) @ u) = value_of k' u" for u
    using 1(3) [of "piece @ u"] value_of_read [OF r, of u] by simp
  show ?case
  proof (cases stops)
    case True
    then have "bytes = got @ piece" using 1(2) r by simp
    then show ?thesis
      using v [of "[]"] v [of "concat (map snd pieces)"] value_of_read [OF r, of "[]" "concat (map snd pieces)"] True
      by simp
  next
    case False
    have "\<And>u. value_of k0 ((got @ piece) @ u) = value_of k' u" by (rule v)
    then show ?thesis using 1(1) [OF r [symmetric] refl] 1(2) r False by simp
  qed
qed auto

lemma dec_stream_None:
  "dec_stream k got t pieces fin = None \<longleftrightarrow> fin = Silent \<and> \<not> snd (dec_read k (concat (map snd pieces)))"
proof (induction k got t pieces fin rule: dec_stream.induct)
  case (1 k got t d piece pieces fin)
  then show ?case by (cases "dec_read k piece") (auto simp: dec_read_append)
qed auto

text \<open>Dialling returns within its limit, and only a peer that is ready gets further.\<close>

lemma dial_bounds:
  "t \<le> fst (dial cancelled socketPath t d) \<and> fst (dial cancelled socketPath t d) \<le> t + dialTimeout"
proof -
  have "cx_end (with_timeout cancelled t dialTimeout) \<le> t + dialTimeout" by (rule with_timeout_end)
  then show ?thesis by (auto simp: dial_def Let_def dialTimeout_def second_def split: dialled.split)
qed

lemma dial_ready:
  "snd (dial cancelled socketPath t d) = None \<Longrightarrow> \<exists>n. d = DialReady n"
  by (auto simp: dial_def Let_def split: dialled.splits if_splits)

lemma dial_in_time:
  assumes "int n \<le> 2 * second" and "cancelled = None \<or> (\<exists>u. cancelled = Some u \<and> t < u \<and> t + int n \<le> u)"
  shows "dial cancelled socketPath t (DialReady n) = (t + int n, None)"
  using assms by (auto simp: dial_def with_timeout_def time_add_def dialTimeout_def second_def)

lemma socket_time_None:
  "socket_time cancelled socketPath t p = None \<longleftrightarrow> snd (dial cancelled socketPath t (pe_dial p)) = None \<and>
     (pe_send p = SendHangs \<or> (\<exists>n. pe_send p = Sends n) \<and> pe_end p = Silent \<and>
        \<not> snd (dec_read (Conf BeginValue []) (concat (map snd (pe_pieces p)))))"
  by (auto simp: socket_time_def dec_stream_None split: prod.split option.split sending.split)

lemma callHelper_outcome:
  "fst (callHelper (with_outcome r hp) socketPath u w) = Inr resp \<longleftrightarrow>
     (\<exists>bytes. r = Replied bytes \<and> decode_response bytes = Some resp)"
  by (auto simp: callHelper_def with_outcome_def Let_def split: helper_outcome.split option.split)

lemma decode_response_value: "value_of (Conf BeginValue []) s = value_of (Conf BeginValue []) s' \<Longrightarrow>
    decode_response s = decode_response s'"
  by (simp add: decode_response_def json_first_value)

lemma decode_response_Nil: "decode_response [] = None"
  by (simp add: decode_response_def json_first_value value_of_def)

section \<open>Properties\<close>

text \<open>A helper that is ready and takes the request at once, and replies in two pieces.\<close>

definition sample_pieces :: peer where
  "sample_pieces = \<lparr>pe_dial = DialReady 0, pe_send = Sends 0, pe_pieces = [(5, ''{''), (7, ''}'')], pe_end = Silent\<rparr>"

definition silent_peer :: peer where
  "silent_peer = \<lparr>pe_dial = DialReady 0, pe_send = Sends 0, pe_pieces = [], pe_end = Silent\<rparr>"

text \<open>
  C7: a call that returns a response returns the one that the peer's bytes have all together,
  however they are cut into pieces, whatever comes after the response, and however long they
  take; and with a peer that is reached, takes the request and then closes the connection,
  it returns exactly that response, or an error if there is none.
\<close>

theorem helper_reply_in_pieces:
  "(callHelper_at hp cancelled t p socketPath u w = Some (t', Inr resp, effs :: 'x effect list) \<longrightarrow>
      decode_response (concat (map snd (pe_pieces p))) = Some resp) \<and>
   (snd (dial cancelled socketPath t (pe_dial p)) = None \<and> pe_send p = Sends n \<and> pe_end p = Closes d \<longrightarrow>
      (\<exists>t' r (effs :: 'x effect list). callHelper_at hp cancelled t p socketPath u w = Some (t', r, effs) \<and>
        (case decode_response (concat (map snd (pe_pieces p))) of
           Some resp \<Rightarrow> r = Inr resp
         | None \<Rightarrow> \<exists>err. r = Inl (Wrap ''decode auth response: '' err))))"
  (is "?sound \<and> ?complete")
proof
  let ?all = "concat (map snd (pe_pieces p))"
  have stream: "decode_response bytes = decode_response ?all \<or> bytes = [] \<and> (\<exists>d. pe_end p = Resets d)"
    if "dec_stream (Conf BeginValue []) [] t1 (pe_pieces p) (pe_end p) = Some (t2, bytes)" for t1 t2 bytes
    using dec_stream_value [OF that, of "Conf BeginValue []"] decode_response_value [of bytes ?all] by auto
  show ?sound
  proof
    assume "callHelper_at hp cancelled t p socketPath u w = Some (t', Inr resp, effs :: 'x effect list)"
    then obtain r where r: "socket_time cancelled socketPath t p = Some (t', r)"
      "fst (callHelper (with_outcome r hp) socketPath u w :: _ \<times> 'x effect list) = Inr resp"
      by (auto simp: callHelper_at_def)
    then obtain bytes where b: "r = Replied bytes" "decode_response bytes = Some resp"
      by (auto simp: callHelper_outcome)
    then obtain t1 where "dec_stream (Conf BeginValue []) [] t1 (pe_pieces p) (pe_end p) = Some (t', bytes)"
      using r(1) by (auto simp: socket_time_def split: prod.splits option.splits sending.splits)
    from stream [OF this] b(2) show "decode_response ?all = Some resp" by (auto simp: decode_response_Nil)
  qed
  show ?complete
  proof
    assume a: "snd (dial cancelled socketPath t (pe_dial p)) = None \<and> pe_send p = Sends n \<and> pe_end p = Closes d"
    obtain t1 where t1: "dial cancelled socketPath t (pe_dial p) = (t1, None)" using a by (metis prod.collapse)
    obtain t2 bytes where s: "dec_stream (Conf BeginValue []) [] (t1 + int n) (pe_pieces p) (pe_end p) = Some (t2, bytes)"
      using dec_stream_None [of _ _ _ "pe_pieces p" "pe_end p"] a by fastforce
    have "decode_response bytes = decode_response ?all" using stream [OF s] a by simp
    moreover have "socket_time cancelled socketPath t p = Some (t2, Replied bytes)"
      using a t1 s by (simp add: socket_time_def)
    ultimately show "\<exists>t' r (effs :: 'x effect list). callHelper_at hp cancelled t p socketPath u w = Some (t', r, effs) \<and>
        (case decode_response ?all of Some resp \<Rightarrow> r = Inr resp
         | None \<Rightarrow> \<exists>err. r = Inl (Wrap ''decode auth response: '' err))"
      by (auto simp: callHelper_at_def callHelper_def with_outcome_def Let_def split: option.split)
  qed
qed

lemma sample_two_pieces:
  "callHelper_at sample_helper None 0 sample_pieces ''/s'' ''u'' ''w'' =
     Some (12, Inr zero_authResponse, [SocketSend ''/s'' (json_encode (authRequest_json
       ((op_request ''auth'')\<lparr>aq_Username := ''u'', aq_Password := ''w''\<rparr>)))] :: nat effect list)"
proof -
  have "socket_time None ''/s'' 0 sample_pieces = Some (12, Replied ''{}'')" by code_simp
  moreover have "decode_response ''{}'' = Some zero_authResponse" by code_simp
  ultimately show ?thesis by (simp add: callHelper_at_def callHelper_def with_outcome_def Let_def)
qed

lemma helper_reply_in_pieces_witness:
  "decode_response (concat (map snd (pe_pieces sample_pieces))) = Some zero_authResponse"
  using helper_reply_in_pieces [of sample_helper None 0 sample_pieces "''/s''" "''u''" "''w''"] sample_two_pieces by blast

text \<open>
  C9: a helper that cannot be reached costs at most two seconds: whatever the dialling does,
  short of success, the call returns the error of the dialling by then, and has sent nothing.
\<close>

theorem helper_unreachable_bounded:
  assumes "\<nexists>n. pe_dial p = DialReady n"
  shows "\<exists>t' e. callHelper_at hp cancelled t p socketPath u w =
      Some (t', Inl (Wrap ''auth socket unavailable: '' e), [] :: 'x effect list) \<and> t \<le> t' \<and> t' \<le> t + 2 * second"
proof -
  obtain t1 o1 where d: "dial cancelled socketPath t (pe_dial p) = (t1, o1)" by fastforce
  then obtain e where "o1 = Some e" using assms dial_ready [of cancelled socketPath t "pe_dial p"] by fastforce
  then show ?thesis
    using d dial_bounds [of t cancelled socketPath "pe_dial p"]
    by (simp add: callHelper_at_def socket_time_def callHelper_def with_outcome_def Let_def dialTimeout_def)
qed

lemma helper_unreachable_bounded_witness:
  "\<exists>t' e. callHelper_at sample_helper None 0 (sample_pieces\<lparr>pe_dial := DialHangs\<rparr>) ''/s'' ''u'' ''w'' =
     Some (t', Inl (Wrap ''auth socket unavailable: '' e), [] :: nat effect list) \<and> t' \<le> 2 * second"
  using helper_unreachable_bounded [of "sample_pieces\<lparr>pe_dial := DialHangs\<rparr>" sample_helper None 0] by fastforce

text \<open>
  C8: once the helper has accepted the connection, a call returns if and only if writing the
  request fails, or the helper takes the request and then closes or resets the connection or
  sends a whole value or a syntax error: no timeout ends it, nor does the end of the client's
  request, whenever that comes.
\<close>

theorem helper_call_returns_iff:
  assumes "pe_dial p = DialReady n" and "int n \<le> 2 * second"
    and "cancelled = None \<or> (\<exists>u. cancelled = Some u \<and> t < u \<and> t + int n \<le> u)"
  shows "(\<exists>r :: time \<times> (go_error + authResponse) \<times> 'x effect list.
        callHelper_at hp cancelled t p socketPath username password = Some r) \<longleftrightarrow>
    (case pe_send p of
       SendHangs \<Rightarrow> False
     | SendBreaks m e \<Rightarrow> True
     | Sends m \<Rightarrow> pe_end p \<noteq> Silent \<or> snd (dec_read (Conf BeginValue []) (concat (map snd (pe_pieces p)))))"
proof -
  have "(\<exists>r :: time \<times> (go_error + authResponse) \<times> 'x effect list.
      callHelper_at hp cancelled t p socketPath username password = Some r) \<longleftrightarrow>
    socket_time cancelled socketPath t p \<noteq> None"
    by (auto simp: callHelper_at_def)
  then show ?thesis
    using dial_in_time [OF assms(2,3), of socketPath] assms(1) by (auto simp: socket_time_None split: sending.split)
qed

lemma helper_call_returns_iff_witness:
  "\<nexists>r :: time \<times> (go_error + authResponse) \<times> nat effect list.
     callHelper_at sample_helper (Some 1) 0 silent_peer ''/s'' ''u'' ''w'' = Some r"
  using helper_call_returns_iff [of silent_peer 0 "Some 1" 0 sample_helper "''/s''" "''u''" "''w''"]
  by (simp add: silent_peer_def second_def)

text \<open>
  A helper that accepts connections and stays silent stops exactly the requests that need
  it: those with credentials of a user that the cache does not hold. The others, the health
  check and those with cached credentials among them, get their verdict at once.
\<close>

theorem silent_helper_blocks_iff:
  assumes "pe_dial p = DialReady n" and "int n \<le> 2 * second"
    and "cancelled = None \<or> (\<exists>v. cancelled = Some v \<and> az_now_get e < v \<and> az_now_get e + int n \<le> v)"
    and "pe_send p = Sends m" and "pe_pieces p = []" and "pe_end p = Silent"
  shows "authorize_at sha socketPath e cancelled p rq cache =
    (if rq_path rq \<noteq> ''/healthz'' \<and> (\<exists>u w. BasicAuth rq = Some (u, w) \<and> u \<noteq> [] \<and>
        cache_get sha (az_now_get e) u w cache = None) then None
     else Some (az_now_get e, authorize sha socketPath e rq cache :: authCache \<times> verdict \<times> 'x effect list))"
proof -
  have "socket_time cancelled socketPath (az_now_get e) p = None"
    using dial_in_time [OF assms(2,3), of socketPath] assms by (simp add: socket_time_None)
  then show ?thesis
    by (auto simp: authorize_at_def asks_helper_def split: option.split prod.split)
qed

definition healthz_request :: request where
  "healthz_request = \<lparr>rq_method = ''GET'', rq_path = ''/healthz'', rq_escaped = ''/healthz'', rq_authorization = [],
     rq_body = [], rq_role = None, rq_header = (\<lambda>k. [])\<rparr>"

definition silent_az_env :: az_env where
  "silent_az_env = \<lparr>az_now_get = 0, az_now_set = 0, az_helper = sample_helper\<rparr>"

lemma silent_helper_blocks_iff_witness:
  "authorize_at id ''/s'' silent_az_env (Some 1) silent_peer healthz_request Map.empty =
     Some (0, Map.empty, Pass, [] :: nat effect list)"
proof -
  have p: "pe_dial silent_peer = DialReady 0" "int 0 \<le> 2 * second" "pe_send silent_peer = Sends 0"
    "pe_pieces silent_peer = []" "pe_end silent_peer = Silent"
    by (simp_all add: silent_peer_def second_def)
  have c: "Some 1 = None \<or> (\<exists>v. Some 1 = Some v \<and> az_now_get silent_az_env < v \<and> az_now_get silent_az_env + int 0 \<le> v)"
    by (simp add: silent_az_env_def)
  show ?thesis
    unfolding silent_helper_blocks_iff [OF p(1,2) c p(3-5), of id "''/s''" healthz_request Map.empty]
    by (simp add: healthz_request_def authorize_def) (simp add: silent_az_env_def)
qed

end
