(* ===== verification/Shutdown_Waits.thy ===== *)
theory Shutdown_Waits
  imports Process Helper_Time "HOL-Library.Multiset"
begin

text \<open>
  The shutdown of \<open>cmd/pispot-ui/main.go\<close> together with the requests in progress: a
  connection is idle again when its request was answered, which for a request that waits for
  a silent helper is never. Facts: \<open>Shutdown\<close> waits for the answers, its polling included:
  when all of them come early enough every punctual run exits with status 0, and one request
  that hangs in the authentication makes the process exit with status 1.
\<close>

section \<open>Model\<close>

text \<open>
  When the middleware has the verdict on a request, if ever: at once, or when the call to
  the helper returns.
\<close>

definition verdict_time ::
  "(string \<Rightarrow> string) \<Rightarrow> string \<Rightarrow> az_env \<Rightarrow> time option \<Rightarrow> peer \<Rightarrow> request \<Rightarrow> authCache \<Rightarrow> time option" where
  "verdict_time sha socketPath e cancelled p rq cache =
     (case asks_helper sha (az_now_get e) rq cache of
        None \<Rightarrow> Some (az_now_get e)
      | Some cred \<Rightarrow> map_option fst (socket_time cancelled socketPath (az_now_get e) p))"

lemma verdict_time_authorize:
  "verdict_time sha socketPath e cancelled p rq cache =
     map_option fst (authorize_at sha socketPath e cancelled p rq cache ::
       (time \<times> authCache \<times> verdict \<times> 'x effect list) option)"
  by (simp add: verdict_time_def authorize_at_def option.map_comp comp_def case_prod_beta' split: option.split)

text \<open>
  The process with the instants at which its requests in progress are answered, \<open>None\<close> for
  one that never is: neither the end of its client nor the shutdown ends a handler.
\<close>

type_synonym serving = "process \<times> time option multiset"

inductive serve_step :: "(string \<Rightarrow> string) \<Rightarrow> build_info \<Rightarrow> config \<Rightarrow> bool \<Rightarrow> serving \<Rightarrow> serving \<Rightarrow> bool"
  for quote b cfg tls where
  request: "proc_step quote b cfg tls p p' \<Longrightarrow> ps_conns p' = Suc (ps_conns p) \<Longrightarrow> (\<And>t. r = Some t \<Longrightarrow> ps_clk p \<le> t) \<Longrightarrow>
     serve_step quote b cfg tls (p, rs) (p', add_mset r rs)"
| answered: "proc_step quote b cfg tls p p' \<Longrightarrow> ps_conns p = Suc (ps_conns p') \<Longrightarrow> Some t \<in># rs \<Longrightarrow> t \<le> ps_clk p \<Longrightarrow>
     serve_step quote b cfg tls (p, rs) (p', rs - {#Some t#})"
| process: "proc_step quote b cfg tls p p' \<Longrightarrow> ps_conns p' = ps_conns p \<Longrightarrow>
     serve_step quote b cfg tls (p, rs) (p', rs)"

definition serving_start :: "config \<Rightarrow> time \<Rightarrow> serving" where
  "serving_start cfg t = (process_start cfg t, {#})"

section \<open>Facts\<close>

lemma serve_step_proc: "serve_step quote b cfg tls s s' \<Longrightarrow> proc_step quote b cfg tls (fst s) (fst s')"
  by (auto elim: serve_step.cases)

lemma serve_run_proc:
  assumes "(serve_step quote b cfg tls)\<^sup>*\<^sup>* s s'"
  shows "(proc_step quote b cfg tls)\<^sup>*\<^sup>* (fst s) (fst s')"
  using assms
proof (induction rule: rtranclp_induct)
  case (step s1 s2)
  from step(3) serve_step_proc [OF step(2)] show ?case by (rule rtranclp.rtrancl_into_rtrancl)
qed simp

text \<open>The connections that are not idle are those of the requests in progress.\<close>

lemma serve_step_size:
  "serve_step quote b cfg tls s s' \<Longrightarrow> size (snd s) = ps_conns (fst s) \<Longrightarrow> size (snd s') = ps_conns (fst s')"
  by (auto elim!: serve_step.cases simp: size_Diff_singleton)

lemma serve_run_size:
  assumes "(serve_step quote b cfg tls)\<^sup>*\<^sup>* s s'" and "size (snd s) = ps_conns (fst s)"
  shows "size (snd s') = ps_conns (fst s')"
  using assms by (induction rule: rtranclp_induct) (auto intro: serve_step_size)

lemma serving_start_size: "size (snd (serving_start cfg t)) = ps_conns (fst (serving_start cfg t))"
  by (simp add: serving_start_def process_start_def Let_def split: sum.split)

text \<open>A request that is never answered stays.\<close>

lemma never_answered_stays:
  assumes "(serve_step quote b cfg tls)\<^sup>*\<^sup>* s s'" and "None \<in># snd s"
  shows "None \<in># snd s'"
  using assms(1)
proof (induction rule: rtranclp_induct)
  case (step s1 s2)
  then show ?case by (auto elim!: serve_step.cases simp: in_diff_count)
qed (use assms(2) in simp)

text \<open>During a shutdown some step is possible that needs no request to be answered.\<close>

lemma serve_progress:
  assumes "ps_main p = Draining d"
  shows "\<exists>s'. serve_step quote b cfg tls (p, rs) s'"
proof -
  have go: "\<exists>s'. serve_step quote b cfg tls (p, rs) s'"
    if "proc_step quote b cfg tls p p'" "ps_conns p' = ps_conns p" for p'
    using serve_step.process [OF that] by blast
  consider "ps_drained p" | "\<not> ps_drained p" "ps_clk p < d" | "\<not> ps_drained p" "d \<le> ps_clk p" by linarith
  then show ?thesis
  proof cases
    case 1
    then show ?thesis using go [OF proc_step.drained [OF assms]] by simp
  next
    case 2
    then show ?thesis using go [OF proc_step.wait [of p d d]] assms by simp
  next
    case 3
    then show ?thesis using go [OF proc_step.gave_up [OF assms]] by simp
  qed
qed

lemma serve_relpow_proc:
  "(serve_step quote b cfg tls ^^ n) s s' \<Longrightarrow> (proc_step quote b cfg tls ^^ n) (fst s) (fst s')"
  by (induction n arbitrary: s') (auto dest: serve_step_proc)

section \<open>Punctual runs\<close>

text \<open>
  A step is punctual when it passes no event that is due: no answer of a request in progress,
  and during the shutdown neither the timer of the next check nor the deadline.
\<close>

definition punctual :: "serving \<Rightarrow> time \<Rightarrow> bool" where
  "punctual s t \<longleftrightarrow> (\<forall>u. Some u \<in># snd s \<longrightarrow> t \<le> u) \<and>
     (\<forall>d. ps_main (fst s) = Draining d \<longrightarrow> t \<le> ps_next (fst s) \<and> t \<le> d)"

definition punctual_step ::
  "(string \<Rightarrow> string) \<Rightarrow> build_info \<Rightarrow> config \<Rightarrow> bool \<Rightarrow> serving \<Rightarrow> serving \<Rightarrow> bool" where
  "punctual_step quote b cfg tls s s' \<longleftrightarrow> serve_step quote b cfg tls s s' \<and>
     (ps_clk (fst s') = ps_clk (fst s) \<or> punctual s (ps_clk (fst s')))"

text \<open>The longest pause between two checks, exclusive: half a second and a tenth of it.\<close>

definition poll_pause :: duration where
  "poll_pause = poll_max + poll_max div 10"

text \<open>
  The invariant of a shutdown that began at \<open>t0\<close> with the deadline \<open>d\<close>, when every answer
  comes more than a pause before it.
\<close>

definition drain_inv :: "time \<Rightarrow> time \<Rightarrow> serving \<Rightarrow> bool" where
  "drain_inv t0 d s \<longleftrightarrow>
     (case ps_main (fst s) of
        Waiting \<Rightarrow> False
      | Exited c \<Rightarrow> c = 0 \<and> snd s = {#} \<and> ps_clk (fst s) < d
      | Draining d' \<Rightarrow> d' = d \<and> t0 + poll_pause < d \<and> ps_listener (fst s) = LClosed \<and> ps_signalled (fst s) \<and>
          size (snd s) = ps_conns (fst s) \<and> (\<forall>r. r \<in># snd s \<longrightarrow> (\<exists>t. r = Some t \<and> t + poll_pause < d)) \<and>
          (\<forall>t. Some t \<in># snd s \<longrightarrow> ps_clk (fst s) \<le> t \<or> ps_clk (fst s) = t0) \<and>
          poll_min \<le> ps_base (fst s) \<and> ps_base (fst s) \<le> poll_max \<and> ps_clk (fst s) < d \<and>
          (if ps_drained (fst s) then ps_conns (fst s) = 0 else ps_clk (fst s) < ps_next (fst s) \<and> ps_next (fst s) < d))"

lemma drain_invD:
  assumes "drain_inv t0 d (p, rs)" and "ps_main p = Draining d'"
  shows "d' = d" "t0 + poll_pause < d" "ps_listener p = LClosed" "ps_signalled p" "size rs = ps_conns p"
    "r \<in># rs \<Longrightarrow> \<exists>t. r = Some t \<and> t + poll_pause < d" "Some t \<in># rs \<Longrightarrow> ps_clk p \<le> t \<or> ps_clk p = t0"
    "poll_min \<le> ps_base p" "ps_base p \<le> poll_max" "ps_clk p < d" "ps_drained p \<Longrightarrow> ps_conns p = 0"
    "\<not> ps_drained p \<Longrightarrow> ps_clk p < ps_next p \<and> ps_next p < d"
  using assms by (auto simp: drain_inv_def split: if_splits)

text \<open>A check that finds a connection is followed by another before the deadline.\<close>

lemma check_inv:
  assumes "ps_main p = Draining d" and "t0 + poll_pause < d" and "ps_listener p = LClosed" and "ps_signalled p"
    and "size rs = ps_conns p" and "\<And>r. r \<in># rs \<Longrightarrow> \<exists>t. r = Some t \<and> t + poll_pause < d"
    and "\<And>t. Some t \<in># rs \<Longrightarrow> ps_clk p \<le> t \<or> ps_clk p = t0"
    and "poll_min \<le> ps_base p" and "ps_base p \<le> poll_max" and "ps_clk p < d" and "0 \<le> j" and "j < ps_base p div 10"
  shows "drain_inv t0 d (shutdown_check j p, rs)"
proof -
  have base: "poll_min \<le> min (2 * ps_base p) poll_max" "0 < ps_base p"
    using assms(8,9) by (simp_all add: poll_min_def poll_max_def)
  have pause: "ps_base p + j < poll_pause"
    using assms(9,12) zdiv_mono1 [OF assms(9), of 10] by (simp add: poll_pause_def)
  have "ps_clk p + ps_base p + j < d" if "ps_conns p \<noteq> 0"
  proof -
    from that assms(5) obtain r where "r \<in># rs" by (metis multiset_nonemptyE size_empty)
    with assms(6) obtain t where "Some t \<in># rs" "t + poll_pause < d" by blast
    with assms(2,7) pause show ?thesis by fastforce
  qed
  then show ?thesis
    using assms base by (auto simp: drain_inv_def)
qed

lemma drain_step:
  assumes inv: "drain_inv t0 d s" and "punctual_step quote b cfg tls s s'"
  shows "drain_inv t0 d s'"
proof -
  obtain p rs p' rs' where s: "s = (p, rs)" "s' = (p', rs')" by fastforce
  have st: "serve_step quote b cfg tls (p, rs) (p', rs')"
    and punct: "ps_clk p' = ps_clk p \<or> punctual (p, rs) (ps_clk p')"
    using assms(2) by (simp_all add: punctual_step_def s)
  note proc = serve_step_proc [OF st, simplified]
  obtain d' where m: "ps_main p = Draining d'"
    using inv proc exited_stops [of p] by (cases "ps_main p") (auto simp: drain_inv_def s)
  note i = drain_invD [OF inv [unfolded s] m]
  have sub: "r \<in># rs" if "r \<in># rs'" "ps_conns p' \<le> ps_conns p" for r
    using that st by (auto elim!: serve_step.cases dest: in_diffD)
  have size: "size rs' = ps_conns p'" using serve_step_size [OF st] i(5) by simp
  from proc show ?thesis
  proof (cases rule: proc_step.cases)
    case (idle_conn n)
    then show ?thesis
      using m i sub size by (auto simp: drain_inv_def s split: if_splits)
  next
    case (wait t d'')
    have t: "punctual (p, rs) t" using punct wait by auto
    then have "t < ps_next p" using wait m i(1,12) by (auto simp: punctual_def)
    then show ?thesis
      using m i sub size wait t by (auto simp: drain_inv_def s punctual_def)
  next
    case (poll t d'' j)
    have t: "punctual (p, rs) t" using punct poll by auto
    then have "t < d" using poll m i(1,12) by (auto simp: punctual_def)
    have "drain_inv t0 d (shutdown_check j (p\<lparr>ps_clk := t\<rparr>), rs')"
      by (rule check_inv) (use m i sub size poll t \<open>t < d\<close> in \<open>auto simp: punctual_def\<close>)
    then show ?thesis using poll by (simp add: s)
  next
    case (drained d'')
    then have "ps_conns p = 0" using i(11) by simp
    then have "rs' = {#}" using size drained by simp
    then show ?thesis using drained i(10) by (simp add: drain_inv_def s)
  qed (use m i in auto)
qed

lemma drain_run:
  assumes "(punctual_step quote b cfg tls)\<^sup>*\<^sup>* s s'" and "drain_inv t0 d s"
  shows "drain_inv t0 d s'"
  using assms by (induction rule: rtranclp_induct) (auto intro: drain_step)

text \<open>Such a shutdown can always go on punctually until it has exited.\<close>

lemma drain_progress:
  assumes inv: "drain_inv t0 d (p, rs)" and "ps_main p = Draining d'"
  shows "\<exists>s'. punctual_step quote b cfg tls (p, rs) s'"
proof -
  note i = drain_invD [OF assms]
  let ?step = "proc_step quote b cfg tls"
  have go: "\<exists>s'. punctual_step quote b cfg tls (p, rs) s'"
    if "?step p p'" "ps_conns p' = ps_conns p" "ps_clk p' = ps_clk p \<or> punctual (p, rs) (ps_clk p')" for p'
    using serve_step.process [OF that(1,2), of rs] that(3) by (auto simp: punctual_step_def)
  consider "ps_drained p" | t where "\<not> ps_drained p" "Some t \<in># rs" "t \<le> ps_clk p"
    | "\<not> ps_drained p" "\<And>t. Some t \<in># rs \<Longrightarrow> ps_clk p + 1 \<le> t" by force
  then show ?thesis
  proof cases
    case 1
    then show ?thesis using go [OF proc_step.drained [OF assms(2)]] by simp
  next
    case 2
    then have "size rs \<noteq> 0" by auto
    then obtain n where n: "ps_conns p = Suc n" using i(5) not0_implies_Suc by auto
    have "?step p (p\<lparr>ps_conns := n\<rparr>)" using n assms(2) by (intro proc_step.idle_conn) simp_all
    then have "serve_step quote b cfg tls (p, rs) (p\<lparr>ps_conns := n\<rparr>, rs - {#Some t#})"
      by (rule serve_step.answered) (use n 2 in simp_all)
    then show ?thesis by (auto simp: punctual_step_def intro!: exI [of _ "(p\<lparr>ps_conns := n\<rparr>, rs - {#Some t#})"])
  next
    case 3
    have nx: "ps_clk p + 1 \<le> ps_next p" "ps_clk p < d'" using 3(1) i(1,10,12) by auto
    have punct: "punctual (p, rs) (ps_clk p + 1)" using 3 nx assms(2) by (auto simp: punctual_def)
    show ?thesis
    proof (cases "ps_next p \<le> ps_clk p + 1")
      case True
      have "0 < ps_base p div 10" using i(8) zdiv_mono1 [OF i(8), of 10] by (simp add: poll_min_def)
      then show ?thesis
        using go [OF proc_step.poll [of p "ps_clk p + 1" d' 0]] punct assms(2) nx True 3(1) by simp
    next
      case False
      then show ?thesis
        using go [OF proc_step.wait [of p "ps_clk p + 1" d']] punct assms(2) nx 3(1) by simp
    qed
  qed
qed

section \<open>Properties\<close>

lemma main_sample_startup: "main_startup main_sample_config = Inr False"
  by (simp add: main_sample_config_def main_startup_def Load_def getenv_def getenvBool_def)

text \<open>
  C23: a request that never gets its answer makes a shutdown fail: the process does not exit
  with status 0 any more, and when it stops it has exited with status 1.
\<close>

theorem hanging_request_fails_shutdown:
  assumes "main_startup cfg = Inr tls" and "AuthSocket cfg \<noteq> []"
    and "(serve_step quote b cfg tls)\<^sup>*\<^sup>* (serving_start cfg t) (p, rs)"
    and "ps_main p = Draining d" and "(serve_step quote b cfg tls)\<^sup>*\<^sup>* (p, rs) (p', rs')"
    and "cancelled = None \<or> (\<exists>v. cancelled = Some v \<and> az_now_get e < v \<and> az_now_get e + int n \<le> v)"
    and "pe_dial h = DialReady n" and "int n \<le> 2 * second" and "pe_send h = Sends m" and "pe_pieces h = []"
    and "pe_end h = Silent" and "asks_helper sha (az_now_get e) rq cache \<noteq> None"
    and "verdict_time sha (AuthSocket cfg) e cancelled h rq cache \<in># rs"
  shows "ps_main p' \<noteq> Exited 0 \<and> ((\<nexists>s. serve_step quote b cfg tls (p', rs') s) \<longrightarrow> ps_main p' = Exited 1)"
proof -
  have "socket_time cancelled (AuthSocket cfg) (az_now_get e) h = None"
    using dial_in_time [OF assms(8,6), of "AuthSocket cfg"] assms(7,9-11) by (simp add: socket_time_None)
  then have "verdict_time sha (AuthSocket cfg) e cancelled h rq cache = None"
    using assms(12) by (auto simp: verdict_time_def)
  then have "None \<in># rs'" using never_answered_stays [OF assms(5)] assms(13) by simp
  moreover have "size rs' = ps_conns p'"
    using serve_run_size [OF rtranclp_trans [OF assms(3,5)] serving_start_size] by simp
  ultimately have conns: "ps_conns p' \<noteq> 0" by (metis empty_iff set_mset_empty size_eq_0_iff_empty)
  have run: "(proc_step quote b cfg tls)\<^sup>*\<^sup>* (process_start cfg t) p" "(proc_step quote b cfg tls)\<^sup>*\<^sup>* p p'"
    using serve_run_proc [OF assms(3)] serve_run_proc [OF assms(5)] by (simp_all add: serving_start_def)
  have inv: "proc_inv p'" using proc_reach_inv [OF rtranclp_trans [OF run] process_start_inv [OF assms(1)]] .
  have "ps_main p' \<noteq> Waiting" using ending_conns [OF run(2)] assms(4) by (auto simp: ending_def)
  then show ?thesis
    using inv conns serve_progress [of p' _ quote b cfg tls rs']
    by (cases "ps_main p'") (auto simp: proc_inv_def split: if_splits)
qed

text \<open>
  C24: when a signal finds the server listening and every request in progress is answered more
  than 0.55 seconds before the five seconds of the shutdown are over, which is the longest
  pause between two checks for idle connections, then every run from the beginning of the
  shutdown that lets no event wait ends, before the five seconds are over, by exiting with
  status 0 with every request answered.
\<close>

theorem answered_requests_drain:
  assumes "(serve_step quote b cfg tls)\<^sup>*\<^sup>* (serving_start cfg t) (p, rs)"
    and "ps_main p = Waiting" and "ps_listener p = LListening"
    and "\<And>r. r \<in># rs \<Longrightarrow> \<exists>u. r = Some u \<and> u + 550000000 < ps_clk p + 5 * second"
    and "serve_step quote b cfg tls (p, rs) (p1, rs1)" and "ps_main p1 = Draining d"
    and "(punctual_step quote b cfg tls ^^ n) (p1, rs1) (p', rs')"
  shows "n \<le> size rs + nat (5 * second) + 1 \<and>
    ((\<nexists>s. punctual_step quote b cfg tls (p', rs') s) \<longrightarrow>
       ps_main p' = Exited 0 \<and> rs' = {#} \<and> ps_clk p' < ps_clk p + 5 * second)"
proof -
  have size: "size rs = ps_conns p" using serve_run_size [OF assms(1) serving_start_size] by simp
  have "proc_step quote b cfg tls p p1" using serve_step_proc [OF assms(5)] by simp
  then obtain j where j: "0 \<le> j" "j < poll_min div 10" "ps_signalled p"
    "p1 = shutdown_check j (p\<lparr>ps_main := Draining (time_add (ps_clk p) shutdown_grace), ps_listener := LClosed,
       ps_log := ps_log p @ [(''shutting down'', [])], ps_base := poll_min\<rparr>)"
    using assms(2,3,6) by (cases rule: proc_step.cases) auto
  have rs1: "rs1 = rs" using assms(5) j(4) by (auto elim!: serve_step.cases)
  have d: "time_add (ps_clk p) shutdown_grace = ps_clk p + 5 * second"
    by (simp add: time_add_def shutdown_grace_def)
  have pause: "poll_pause = 550000000" by (simp add: poll_pause_def poll_max_def)
  have inv: "drain_inv (ps_clk p) (ps_clk p + 5 * second) (p1, rs1)"
    unfolding j(4) rs1 d
  proof (rule check_inv)
    show "Some u \<in># rs \<Longrightarrow> ps_clk (p\<lparr>ps_main := Draining (ps_clk p + 5 * second), ps_listener := LClosed,
       ps_log := ps_log p @ [(''shutting down'', [])], ps_base := poll_min\<rparr>) \<le> u \<or>
      ps_clk (p\<lparr>ps_main := Draining (ps_clk p + 5 * second), ps_listener := LClosed,
       ps_log := ps_log p @ [(''shutting down'', [])], ps_base := poll_min\<rparr>) = ps_clk p" for u by simp
  qed (use assms(4) j(1-3) size in \<open>simp_all add: pause poll_min_def poll_max_def second_def\<close>)
  have serve: "(serve_step quote b cfg tls ^^ n) (p1, rs1) (p', rs')"
    using assms(7) by (rule relpowp_mono [rotated]) (simp add: punctual_step_def)
  have "n + draining_left p' \<le> draining_left p1"
    using draining_runs [OF serve_relpow_proc [OF serve]] j(4) by (simp add: ending_def)
  moreover have "draining_left p1 = size rs + nat (5 * second) + 1"
    using size j(3) by (simp add: j(4) draining_left_def d)
  ultimately have "n \<le> size rs + nat (5 * second) + 1" by simp
  moreover have "drain_inv (ps_clk p) (ps_clk p + 5 * second) (p', rs')"
    using drain_run [OF relpowp_imp_rtranclp [OF assms(7)] inv] .
  then have "ps_main p' = Exited 0 \<and> rs' = {#} \<and> ps_clk p' < ps_clk p + 5 * second"
    if stop: "\<nexists>s. punctual_step quote b cfg tls (p', rs') s"
  proof (cases "ps_main p'")
    case (Draining d')
    from drain_progress [OF \<open>drain_inv (ps_clk p) (ps_clk p + 5 * second) (p', rs')\<close> this] stop show ?thesis by blast
  qed (use \<open>drain_inv (ps_clk p) (ps_clk p + 5 * second) (p', rs')\<close> in \<open>simp_all add: drain_inv_def\<close>)
  ultimately show ?thesis by blast
qed

text \<open>A run in which a request arrives before the signal, and the beginning of the shutdown.\<close>

lemma serve_sample_run:
  assumes "\<And>t. r = Some t \<Longrightarrow> 0 \<le> t"
  obtains p p1 :: process where "(serve_step id default_build_info main_sample_config False)\<^sup>*\<^sup>* (serving_start main_sample_config 0)
      (p, {#r#})" "ps_main p = Waiting" "ps_listener p = LListening" "ps_clk p = 0"
    "serve_step id default_build_info main_sample_config False (p, {#r#}) (p1, {#r#})" "ps_main p1 = Draining (5 * second)"
proof -
  let ?proc = "proc_step id default_build_info main_sample_config False"
  let ?step = "serve_step id default_build_info main_sample_config False"
  let ?log = "listen_log id default_build_info main_sample_config False"
  let ?p0 = "process_start main_sample_config 0"
  let ?p1 = "?p0\<lparr>ps_listener := LListening, ps_log := ps_log ?p0 @ ?log\<rparr>"
  let ?p2 = "?p1\<lparr>ps_conns := 1\<rparr>"
  let ?p3 = "?p2\<lparr>ps_signalled := True\<rparr>"
  let ?p4 = "shutdown_check 0 (?p3\<lparr>ps_main := Draining (time_add 0 shutdown_grace), ps_listener := LClosed,
    ps_log := ps_log ?p3 @ [(''shutting down'', [])], ps_base := poll_min\<rparr>)"
  have p0: "ps_main ?p0 = Waiting" "ps_listener ?p0 = LNotStarted" "ps_conns ?p0 = 0" "ps_clk ?p0 = 0"
    "\<not> ps_signalled ?p0"
    by (simp_all add: process_start_def main_sample_startup)
  have "?proc ?p0 ?p1" using proc_step.listen [of ?p0 id default_build_info main_sample_config False] p0 by simp
  then have "?step (?p0, {#}) (?p1, {#})" by (rule serve_step.process) simp
  moreover have "?proc ?p1 ?p2" using proc_step.open_conn [of ?p1] p0 by simp
  then have "?step (?p1, {#}) (?p2, {#r#})" by (rule serve_step.request) (use p0 assms in simp_all)
  moreover have "?proc ?p2 ?p3" using proc_step.signal [of ?p2] p0 by simp
  then have "?step (?p2, {#r#}) (?p3, {#r#})" by (rule serve_step.process) simp
  ultimately have run: "?step\<^sup>*\<^sup>* (serving_start main_sample_config 0) (?p3, {#r#})"
    unfolding serving_start_def by (meson converse_rtranclp_into_rtranclp rtranclp.rtrancl_refl)
  have "?proc ?p3 ?p4" using proc_step.shutdown [of ?p3 0] p0 by (simp add: poll_min_def)
  then have "?step (?p3, {#r#}) (?p4, {#r#})" by (rule serve_step.process) simp
  with run p0 show thesis
    by (intro that [of ?p3 ?p4]) (simp_all add: time_add_def shutdown_grace_def)
qed

lemma hanging_request_fails_shutdown_witness:
  "\<exists>p :: process. ps_main p = Draining (5 * second) \<and>
     (\<forall>p' rs'. (serve_step id default_build_info main_sample_config False)\<^sup>*\<^sup>* (p, {#None#}) (p', rs') \<longrightarrow>
        ps_main p' \<noteq> Exited 0)"
proof -
  let ?r = "verdict_time id (AuthSocket main_sample_config) silent_az_env None silent_peer main_sample_request Map.empty"
  have h: "pe_dial silent_peer = DialReady 0" "int 0 \<le> 2 * second" "pe_send silent_peer = Sends 0"
    "pe_pieces silent_peer = []" "pe_end silent_peer = Silent"
    by (simp_all add: silent_peer_def second_def)
  have ask: "asks_helper id (az_now_get silent_az_env) main_sample_request Map.empty = Some (''ann'', ''pw'')"
    by (simp add: asks_helper_def main_sample_facts(4) cache_get_def) (simp add: main_sample_request_def admin_post_def)
  have r: "?r = None"
    using dial_in_time [OF h(2), of None "az_now_get silent_az_env" "AuthSocket main_sample_config"] h
    by (simp add: verdict_time_def ask socket_time_None)
  have mem: "?r \<in># {#None#}" unfolding r by simp
  obtain p0 p where w: "(serve_step id default_build_info main_sample_config False)\<^sup>*\<^sup>* (serving_start main_sample_config 0)
      (p0, {#None#})" "serve_step id default_build_info main_sample_config False (p0, {#None#}) (p, {#None#})"
    "ps_main p = Draining (5 * second)"
    by (rule serve_sample_run [of None]) simp_all
  then have p: "(serve_step id default_build_info main_sample_config False)\<^sup>*\<^sup>* (serving_start main_sample_config 0)
      (p, {#None#})" "ps_main p = Draining (5 * second)"
    by simp_all
  have "ps_main p' \<noteq> Exited 0"
    if "(serve_step id default_build_info main_sample_config False)\<^sup>*\<^sup>* (p, {#None#}) (p', rs')" for p' rs'
    using hanging_request_fails_shutdown [OF main_sample_startup main_sample_facts(1) p that _ h(1-5) _ mem] ask by simp
  with p(2) show ?thesis by blast
qed

text \<open>One request in progress, which is answered a second after the signal.\<close>

lemma answered_requests_drain_witness:
  "\<exists>p1 :: process. ps_main p1 = Draining (5 * second) \<and>
     (\<forall>n p' rs'. (punctual_step id default_build_info main_sample_config False ^^ n) (p1, {#Some second#}) (p', rs') \<longrightarrow>
        (\<nexists>s. punctual_step id default_build_info main_sample_config False (p', rs') s) \<longrightarrow> ps_main p' = Exited 0 \<and> rs' = {#})"
proof -
  obtain p p1 where p: "(serve_step id default_build_info main_sample_config False)\<^sup>*\<^sup>* (serving_start main_sample_config 0)
      (p, {#Some second#})" "ps_main p = Waiting" "ps_listener p = LListening" "ps_clk p = 0"
    "serve_step id default_build_info main_sample_config False (p, {#Some second#}) (p1, {#Some second#})"
    "ps_main p1 = Draining (5 * second)"
    by (rule serve_sample_run [of "Some second"]) (simp_all add: second_def)
  have "\<exists>u. r = Some u \<and> u + 550000000 < ps_clk p + 5 * second" if "r \<in># {#Some second#}" for r
    using that p(4) by (simp add: second_def)
  from answered_requests_drain [OF p(1-3) this p(5,6)] p(6) show ?thesis by blast
qed

end
