(* ===== verification/Spec2Isabelle.thy ===== *)
theory Spec2Isabelle
  imports Concurrent_Auth Web_Assets Concurrent_Stats Shutdown_Waits
begin

text \<open>
  A verification development for \<open>pispot-ui\<close>, the dashboard server of a Raspberry Pi
  hotspot.

  \<^bold>\<open>The program.\<close> \<open>main\<close> (\<open>cmd/pispot-ui/main.go\<close>) reads its configuration from
  the environment, starts two collectors that tick once a second in goroutines of their own
  (\<open>netstats\<close>, \<open>system\<close>) and builds three that refresh on demand, at most once a
  second (\<open>hotspot\<close>, \<open>wan\<close>, \<open>admin\<close>). Its HTTP handler is a chain: a request is
  logged, authenticated (\<open>authz\<close>, by a helper process behind a Unix socket, with a cache
  of five minutes), and routed to the embedded assets or to a handler of \<open>api\<close>, which
  reads the collectors' snapshots or asks the helper for a privileged operation. A signal
  starts a graceful shutdown.

  \<^bold>\<open>Conventions.\<close> A struct is a record, a Go \<open>error\<close> is a value of \<open>go_error\<close> with
  its wrapping structure, \<open>(T, error)\<close> is a sum, a \<open>uint64\<close> is a \<open>64 word\<close> and a
  \<open>float64\<close> is a rational that binary64 represents, an infinity or a NaN, with each
  operation rounded. Strings are byte strings. \<open>time\<close> and \<open>duration\<close> are integers in
  nanoseconds; the subtraction of instants saturates as in Go. Go's \<open>int\<close> fields are
  unbounded here, and \<open>stats_requests_typed\<close> shows that those of the payload fit in 64 bits.
  Every effect on the outside (a command that is run, a log line, bytes sent to the socket)
  is an element of a list that the operation returns in order.

  \<^bold>\<open>Theories.\<close>
  \<^item> \<open>Prelude\<close>: basic types, errors, effects, lemmas on lists and maps.
  \<^item> \<open>Go_Strings\<close>, \<open>Go_Numbers\<close>, \<open>Go_Float\<close>, \<open>Go_Parse_Float\<close>,
    \<open>Go_Path\<close>, \<open>Go_Json\<close>, \<open>Http\<close>: what the program uses of Go's standard library:
    fields, trimming, scanners with their token limit; integers; rounding; \<open>ParseFloat\<close>
    with its decimal and hexadecimal literals; path cleaning; the JSON scanner as a machine
    of one byte at a time, and the two printers; headers, Basic authentication, percent
    decoding.
  \<^item> \<open>Configuration\<close>: \<open>config/config.go\<close> and \<open>buildinfo/buildinfo.go\<close>.
  \<^item> \<open>Lazy_Cache\<close>: the contract of \<open>Snapshot\<close> that the three lazy collectors share,
    with their mutex: a locale of the sequential method and its concurrent step relation
    (the phases of a call, the re-check under the lock), with lemmas that are interpreted
    for each collector. \<open>Timed_Cache\<close>: the same with a mutex that a refresh holds while
    time passes, a refinement of the first. \<open>Lazy_Callers\<close>: the calls as part of a larger
    machine.
  \<^item> \<open>Deadlines\<close>: the two seconds of \<open>execTimeout\<close>: contexts derived from the request's,
    commands with a duration or hanging (\<open>defaultRun\<close>, \<open>defaultRunIw\<close>), and the three
    collectors' refreshes in time, instances of \<open>Timed_Cache\<close>.
  \<^item> \<open>Netstats\<close>: \<open>netstats/throughput.go\<close> (\<open>parseProcNetDev\<close>, \<open>computeMbps\<close>,
    \<open>tick\<close>, \<open>Run\<close>). \<open>System_Stats\<close>: \<open>system/info.go\<close> (the parsers of
    \<open>/proc\<close>, the choice of the thermal zone, \<open>tick\<close>, \<open>Run\<close> with its throttle
    events). \<open>Run_Loops\<close>: the goroutines of both as a state machine, with the ticker that
    keeps one tick at most, the cancellation of the context, and the log lines.
  \<^item> \<open>Key_Value\<close>, \<open>Hotspot\<close>: the lines of \<open>iw\<close>; \<open>hotspot/clients.go\<close>,
    \<open>leases.go\<close>, \<open>collector.go\<close>. \<open>Ip_Json\<close>, \<open>Wan\<close>: the documents of
    \<open>ip -j\<close>; \<open>wan/ssid.go\<close>, \<open>collector.go\<close>. \<open>Admin\<close>: \<open>admin/eth.go\<close>.
  \<^item> \<open>Authz\<close>: \<open>authz/protocol.go\<close> (wire types and their JSON), \<open>client.go\<close> (calls
    over the socket), \<open>cache.go\<close>, \<open>middleware.go\<close>. \<open>Concurrent_Auth\<close>: the
    middleware's steps of any number of requests that share the cache, and the refinement of
    the cache to the log of its updates. \<open>Helper_Time\<close>: the calls to the helper in time, with
    a connection that is refused, made late or never, and a reply that comes in pieces.
  \<^item> \<open>Api\<close>: \<open>api/handlers.go\<close>, the payload, its encoding, and the handlers as state
    transformers of \<open>Server\<close>. \<open>Payload_Json\<close>: the body parses back to the payload.
  \<^item> \<open>Main_App\<close>: the checks at startup, \<open>ServeMux\<close>'s choice of a route with its
    redirections, \<open>logRequests\<close>, \<open>noCacheStatic\<close> and the handler that \<open>main\<close>
    composes. \<open>File_Server\<close>: \<open>ServeContent\<close> of \<open>net/http\<close>, with conditional headers and
    ranges. \<open>Web_Assets\<close>: \<open>web/embed.go\<close> with the file server through which
    \<open>main\<close> serves it, an instance of \<open>web_env\<close>. \<open>Whole_System\<close>: ticks and requests
    in any order, and the invariant of the server. \<open>Concurrent_Stats\<close>: the handler
    \<open>Stats\<close> field by field, any number of requests at a time, together with the goroutines
    of \<open>Run_Loops\<close> and the refreshes of \<open>Lazy_Cache\<close>. \<open>Process\<close>: the life of the
    process, from the startup to its exit status, with the pauses in which \<open>Shutdown\<close> looks for
    idle connections. \<open>Shutdown_Waits\<close>: the shutdown with requests in progress, each ending
    when its call to the helper ends.

  \<^bold>\<open>What the lemmas show.\<close>
  \<^item> Authentication, end to end: the helper only receives a privileged operation when it
    vouched for the user as an administrator at most five minutes before
    (\<open>main_commands_need_admin\<close>), also when requests are concurrent
    (\<open>concurrent_grants_vouched\<close>, which names the update of the cache that a grant rests on,
    and \<open>concurrent_cache_refines_log\<close>); an administrator's wifi operations reach it with
    exactly the network that the request names (\<open>relayed\<close>); nothing else happens
    without a granted role, or without a socket; requests decode at the helper to what was
    asked, whatever bytes the arguments contain.
  \<^item> The helper's socket: the pieces in which a reply comes do not matter; a helper that
    cannot be reached costs a request two seconds at most; a call returns exactly when a
    connection fails, a reply is complete or broken, or the connection ends. Otherwise it
    blocks its request, which no deadline ends (\<open>silent_helper_blocks_iff\<close>).
  \<^item> Parsers: each parser returns exactly the values of a printed text, with lines it does
    not know in between.
  \<^item> Collectors: what a refresh or tick publishes on each branch, with the failures of each
    source; invariants of the published snapshot over all histories; the once-a-second bound
    and the freshness of snapshots for all interleavings of calls.
  \<^item> Time: a refresh holds its mutex for at most two seconds, and the model in which it is one
    step is refined by the one in which it takes time; its commands share the two seconds, its
    request's end fails it for everybody, and calls that waited for a slow one refresh again.
    The goroutines sample at most once a second, in the order of the instants, and log what
    the sequential run logs.
  \<^item> Numbers: the rate is the correctly rounded quotient with no overflow for all counters
    and instants; the throttle threshold is exact for all 64-bit readings.
  \<^item> The payload: typed, consistent with the configuration, and readable by a client in every
    reachable state, unless a value is not finite; for interleaved requests also typed, each section
    being what its collector had published at some moment of the request, and
    less than a second old at the request's arrival where it is refreshed on demand; and a request alone takes the interleaved
    steps to the payload of the handler in one step.
  \<^item> The process: a shutdown ends, and the exit status says how: when every request in progress
    is answered more than 0.55 seconds (the longest pause between two looks at the connections)
    before the five seconds are over, every run that lets no event wait ends with status 0, and
    one request that hangs on the helper makes it end with status 1.
  \<^item> The assets: every embedded file is served, and nothing else, whatever the path, the conditions
    and the ranges of the request; a part never goes beyond its file.

  \<^bold>\<open>Bounds.\<close> No definition has fuel: loops are structural, or have a measure. Limits of
  the code and of its libraries are the code's own: JSON nests at most 10000 deep
  (\<open>max_depth\<close>), a scanner's line is at most 64 KiB, or 1 MiB where the code raises it,
  and a cached role is valid for 300 seconds, its end included.

  \<^bold>\<open>Parameters.\<close> What is not under \<open>src/\<close> is an argument: the helper behind the socket
  (\<open>hp_call\<close>, and in \<open>Helper_Time\<close> the delays and pieces of \<open>peer\<close>), the results and durations of commands, the contents of files, the clock, SHA-256
  (\<open>sha\<close>), the lower case of non-ASCII text (\<open>uni\<close>), the text of \<open>%q\<close>
  (\<open>quote\<close>) and of a \<open>float64\<close> in JSON (\<open>fmt\<close>), the result of converting an
  out-of-range float to an integer (\<open>oor\<close>, which Go leaves to the implementation), the
  text of a duration in the log, the contents and types of the embedded files, the form of an answer of several
  parts (\<open>multipart\<close>), and the form of a redirection by \<open>ServeMux\<close> (\<open>we_moved\<close>). Outside \<open>Web_Assets\<close> the
  whole answer of the asset server is arbitrary (\<open>we_assets\<close>). Where a property needs something of one, it is a hypothesis:
  \<open>num_literal (av_fmt e a)\<close>, that a float is printed as a JSON number, and
  \<open>env_ok\<close>, that a conversion gives some 64-bit integer.

  \<^bold>\<open>Not modelled.\<close> The transport of HTTP and TLS, so that a client that goes away is only
  seen as the end of its request's context; the time that files and computations take;
  the JavaScript, CSS and HTML of the page;
  build and deployment files. In \<open>Authz\<close> a call to the helper is one step, and in \<open>Main_App\<close> and
  \<open>Whole_System\<close> a request is: the time of a call is the subject of \<open>Helper_Time\<close>, the
  interleavings inside a request are the subject of \<open>Lazy_Cache\<close>, \<open>Concurrent_Auth\<close>
  and \<open>Concurrent_Stats\<close>.
\<close>

end
